(* ===== verification/Prelude.thy ===== *)
theory Prelude
  imports Main "HOL-Library.Word" "HOL-Library.List_Lexorder" "HOL-Library.Multiset"
begin

text \<open>
  Shared ground of the development: the names of the model's basic types, the four statement
  shapes of SQL over a table held as a list of rows (select, count, update, delete), and the
  generic facts about them that the component theories use.

  A table is a list of rows in heap order. \<open>lookup_by key k rows\<close> is a query by a unique column,
  \<open>update_where\<close> and \<open>delete_where\<close> are the statements with a WHERE clause, and
  \<open>rows_affected\<close> is the number the driver reports back. A table is well formed when its unique
  column has no duplicates (\<open>unique_on\<close>).
\<close>

section \<open>Names of types\<close>

text \<open>A Go string and a \<open>[]byte\<close> are both sequences of bytes; a \<open>char\<close> of HOL is a byte.\<close>

type_synonym bytes = string

text \<open>\<open>uuid.UUID\<close> is \<open>[16]byte\<close>.\<close>

type_synonym uuid = "128 word"

text \<open>Instants and durations, in microseconds (the resolution of \<open>timestamptz\<close>).\<close>

type_synonym time = int

named_theorems sql \<open>facts about the four statement shapes over tables\<close>
named_theorems io \<open>facts about calls that may fail\<close>
named_theorems frame \<open>what an operation leaves alone\<close>

section \<open>Tables\<close>

definition lookup_by :: "('r \<Rightarrow> 'k) \<Rightarrow> 'k \<Rightarrow> 'r list \<Rightarrow> 'r option" where
  "lookup_by key k rows = find (\<lambda>r. key r = k) rows"

definition update_where :: "('r \<Rightarrow> bool) \<Rightarrow> ('r \<Rightarrow> 'r) \<Rightarrow> 'r list \<Rightarrow> 'r list" where
  "update_where p f rows = map (\<lambda>r. if p r then f r else r) rows"

definition delete_where :: "('r \<Rightarrow> bool) \<Rightarrow> 'r list \<Rightarrow> 'r list" where
  "delete_where p rows = filter (\<lambda>r. \<not> p r) rows"

definition rows_affected :: "('r \<Rightarrow> bool) \<Rightarrow> 'r list \<Rightarrow> nat" where
  "rows_affected p rows = length (filter p rows)"

definition unique_on :: "('r \<Rightarrow> 'k) \<Rightarrow> 'r list \<Rightarrow> bool" where
  "unique_on key rows = distinct (map key rows)"

lemma lookup_by_Nil [simp]: "lookup_by key k [] = None"
  by (simp add: lookup_by_def)

lemma lookup_by_Cons [simp]:
  "lookup_by key k (r # rows) = (if key r = k then Some r else lookup_by key k rows)"
  by (simp add: lookup_by_def)

lemma update_where_simps [simp]:
  "update_where p f [] = []"
  "update_where p f (r # rows) = (if p r then f r else r) # update_where p f rows"
  by (simp_all add: update_where_def)

lemma delete_where_simps [simp]:
  "delete_where p [] = []"
  "delete_where p (r # rows) = (if p r then delete_where p rows else r # delete_where p rows)"
  by (simp_all add: delete_where_def)

lemma rows_affected_simps [simp]:
  "rows_affected p [] = 0"
  "rows_affected p (r # rows) = (if p r then Suc (rows_affected p rows) else rows_affected p rows)"
  by (simp_all add: rows_affected_def)

lemma unique_on_simps [simp]:
  "unique_on key []"
  "unique_on key (r # rows) \<longleftrightarrow> key r \<notin> key ` set rows \<and> unique_on key rows"
  by (simp_all add: unique_on_def)

lemma lookup_by_Some: "lookup_by key k rows = Some r \<Longrightarrow> r \<in> set rows \<and> key r = k"
  by (induction rows) (auto split: if_splits)

lemma lookup_by_None [sql]: "lookup_by key k rows = None \<longleftrightarrow> k \<notin> key ` set rows"
  by (induction rows) auto

lemma lookup_by_unique:
  "unique_on key rows \<Longrightarrow> r \<in> set rows \<Longrightarrow> lookup_by key (key r) rows = Some r"
  by (induction rows) (auto simp: image_iff)

lemma lookup_by_append [sql]:
  "lookup_by key k (xs @ ys) =
     (case lookup_by key k xs of None \<Rightarrow> lookup_by key k ys | Some r \<Rightarrow> Some r)"
  by (induction xs) auto

lemma rows_affected_0 [sql]: "rows_affected p rows = 0 \<longleftrightarrow> (\<forall>r\<in>set rows. \<not> p r)"
  by (induction rows) auto

lemma lookup_by_update_other [sql]:
  assumes "\<And>r. key (f r) = key r" and "\<And>r. p r \<Longrightarrow> key r \<noteq> k"
  shows "lookup_by key k (update_where p f rows) = lookup_by key k rows"
  using assms by (induction rows) auto

lemma lookup_by_update [sql]:
  assumes "\<And>r. key (f r) = key r"
  shows "lookup_by key k (update_where p f rows) =
    map_option (\<lambda>r. if p r then f r else r) (lookup_by key k rows)"
  using assms by (induction rows) auto

lemma lookup_by_delete [sql]:
  "unique_on key rows \<Longrightarrow>
   lookup_by key k (delete_where p rows) =
     (case lookup_by key k rows of None \<Rightarrow> None | Some r \<Rightarrow> if p r then None else Some r)"
proof (induction rows)
  case (Cons r rows)
  show ?case
  proof (cases "key r = k")
    case True
    with Cons.prems have none: "lookup_by key k rows = None"
      by (auto simp: lookup_by_None)
    with Cons True show ?thesis by simp
  next
    case False
    with Cons show ?thesis by simp
  qed
qed simp

lemma lookup_by_delete_other [sql]:
  "(\<And>r. key r = k \<Longrightarrow> \<not> p r) \<Longrightarrow> lookup_by key k (delete_where p rows) = lookup_by key k rows"
  by (induction rows) auto

lemma keys_update [sql]:
  "(\<And>r. key (f r) = key r) \<Longrightarrow> map key (update_where p f rows) = map key rows"
  by (induction rows) auto

lemma unique_on_update [sql]:
  "(\<And>r. key (f r) = key r) \<Longrightarrow> unique_on key (update_where p f rows) = unique_on key rows"
  by (simp add: unique_on_def keys_update)

lemma unique_on_delete [sql]: "unique_on key rows \<Longrightarrow> unique_on key (delete_where p rows)"
  by (simp add: unique_on_def delete_where_def distinct_map_filter)

lemma unique_on_snoc [sql]:
  "unique_on key (rows @ [r]) \<longleftrightarrow> unique_on key rows \<and> key r \<notin> key ` set rows"
  by (auto simp: unique_on_def)

text \<open>On a unique column a statement touches the row the lookup finds, or none.\<close>

lemma rows_affected_unique [sql]:
  "unique_on key rows \<Longrightarrow>
   rows_affected (\<lambda>r. key r = k \<and> P r) rows =
     (case lookup_by key k rows of None \<Rightarrow> 0 | Some r \<Rightarrow> if P r then 1 else 0)"
proof (induction rows)
  case (Cons r rows)
  have "rows_affected (\<lambda>r. key r = k \<and> P r) rows = 0" if "key r = k"
    using Cons.prems that by (auto simp: rows_affected_0 image_iff)
  with Cons show ?case by auto
qed simp

lemma update_where_none [sql]: "rows_affected p rows = 0 \<Longrightarrow> update_where p f rows = rows"
  by (induction rows) (auto split: if_splits)

lemma delete_where_none [sql]: "rows_affected p rows = 0 \<Longrightarrow> delete_where p rows = rows"
  by (induction rows) (auto split: if_splits)

section \<open>Sorting for ORDER BY\<close>

text \<open>\<open>ORDER BY\<close> on a column is the stable sort on it; what the statements need of it is that
  no row is lost or invented.\<close>

lemma set_sort_key_filter [simp]: "set (sort_key k (filter p xs)) = {x \<in> set xs. p x}"
  by auto

lemma mset_order_by: "mset (map g (sort_key k xs)) = image_mset g (mset xs)"
  by simp

lemma sorted_map_sort_key [simp]: "sorted (map k (sort_key k xs))"
  by simp

end
