(* ===== verification/Sha256.thy ===== *)
theory Sha256
  imports Prelude
begin

text \<open>
  SHA-256 (FIPS 180-4, Go's \<^verbatim>\<open>crypto/sha256\<close>) and lower-case hexadecimal
  (\<^verbatim>\<open>encoding/hex\<close>), with the functions of the repository built on them:
  \<open>computeETag\<close> (api/v1/write.go), \<open>hashToken\<close> (auth/session.go), \<open>inviteHash\<close> (auth/invite.go)
  and \<open>hashTokenBytes\<close> (storage/admin_queries.go).

  Shown: the digest has 32 bytes and the entity tag 64 lower-case hexadecimal digits; hexadecimal
  encoding is invertible, so a tag determines the digest; the three token hashes are one function;
  the two published test vectors.
\<close>

unbundle bit_operations_syntax

section \<open>The compression function\<close>

type_synonym word32 = "32 word"
type_synonym hash_state =
  "word32 \<times> word32 \<times> word32 \<times> word32 \<times> word32 \<times> word32 \<times> word32 \<times> word32"

definition sha_Ch :: "word32 \<Rightarrow> word32 \<Rightarrow> word32 \<Rightarrow> word32" where
  "sha_Ch x y z = (x AND y) XOR (NOT x AND z)"

definition sha_Maj :: "word32 \<Rightarrow> word32 \<Rightarrow> word32 \<Rightarrow> word32" where
  "sha_Maj x y z = (x AND y) XOR (x AND z) XOR (y AND z)"

definition sha_S0 :: "word32 \<Rightarrow> word32" where
  "sha_S0 x = word_rotr 2 x XOR word_rotr 13 x XOR word_rotr 22 x"

definition sha_S1 :: "word32 \<Rightarrow> word32" where
  "sha_S1 x = word_rotr 6 x XOR word_rotr 11 x XOR word_rotr 25 x"

definition sha_s0 :: "word32 \<Rightarrow> word32" where
  "sha_s0 x = word_rotr 7 x XOR word_rotr 18 x XOR drop_bit 3 x"

definition sha_s1 :: "word32 \<Rightarrow> word32" where
  "sha_s1 x = word_rotr 17 x XOR word_rotr 19 x XOR drop_bit 10 x"

definition sha_K :: "word32 list" where
  "sha_K =
    [1116352408, 1899447441, 3049323471, 3921009573, 961987163, 1508970993, 2453635748, 2870763221,
     3624381080, 310598401, 607225278, 1426881987, 1925078388, 2162078206, 2614888103, 3248222580,
     3835390401, 4022224774, 264347078, 604807628, 770255983, 1249150122, 1555081692, 1996064986,
     2554220882, 2821834349, 2952996808, 3210313671, 3336571891, 3584528711, 113926993, 338241895,
     666307205, 773529912, 1294757372, 1396182291, 1695183700, 1986661051, 2177026350, 2456956037,
     2730485921, 2820302411, 3259730800, 3345764771, 3516065817, 3600352804, 4094571909, 275423344,
     430227734, 506948616, 659060556, 883997877, 958139571, 1322822218, 1537002063, 1747873779,
     1955562222, 2024104815, 2227730452, 2361852424, 2428436474, 2756734187, 3204031479, 3329325298]"

definition sha_H0 :: hash_state where
  "sha_H0 = (1779033703, 3144134277, 1013904242, 2773480762,
             1359893119, 2600822924, 528734635, 1541459225)"

text \<open>The message schedule, kept newest word first: the new word is built from the words
  2, 7, 15 and 16 places back.\<close>

fun sha_extend :: "nat \<Rightarrow> word32 list \<Rightarrow> word32 list" where
  "sha_extend 0 ws = ws"
| "sha_extend (Suc n) ws =
     sha_extend n ((sha_s1 (ws ! 1) + ws ! 6 + sha_s0 (ws ! 14) + ws ! 15) # ws)"

definition sha_schedule :: "word32 list \<Rightarrow> word32 list" where
  "sha_schedule block = rev (sha_extend 48 (rev block))"

fun sha_round :: "word32 \<times> word32 \<Rightarrow> hash_state \<Rightarrow> hash_state" where
  "sha_round (k, w) (a, b, c, d, e, f, g, h) =
     (let t1 = h + sha_S1 e + sha_Ch e f g + k + w;
          t2 = sha_S0 a + sha_Maj a b c
      in (t1 + t2, a, b, c, d + t1, e, f, g))"

fun sha_add :: "hash_state \<Rightarrow> hash_state \<Rightarrow> hash_state" where
  "sha_add (a, b, c, d, e, f, g, h) (a', b', c', d', e', f', g', h') =
     (a + a', b + b', c + c', d + d', e + e', f + f', g + g', h + h')"

definition sha_compress :: "hash_state \<Rightarrow> word32 list \<Rightarrow> hash_state" where
  "sha_compress st block = sha_add st (fold sha_round (zip sha_K (sha_schedule block)) st)"

section \<open>Padding and blocks\<close>

definition word_of_4 :: "char \<Rightarrow> char \<Rightarrow> char \<Rightarrow> char \<Rightarrow> word32" where
  "word_of_4 a b c d =
     ((of_char a * 256 + of_char b) * 256 + of_char c) * 256 + of_char d"

fun words_of :: "bytes \<Rightarrow> word32 list" where
  "words_of (a # b # c # d # bs) = word_of_4 a b c d # words_of bs"
| "words_of _ = []"

text \<open>Big-endian bytes of a word, for Go's \<open>binary.BigEndian.PutUint32\<close> and \<open>PutUint64\<close>.\<close>

definition byte_at :: "nat \<Rightarrow> 'a::len word \<Rightarrow> char" where
  "byte_at k w = char_of (uint (take_bit 8 (drop_bit k w)))"

definition be_bytes32 :: "word32 \<Rightarrow> bytes" where
  "be_bytes32 w = map (\<lambda>k. byte_at k w) [24, 16, 8, 0]"

definition be_bytes64 :: "64 word \<Rightarrow> bytes" where
  "be_bytes64 w = map (\<lambda>k. byte_at k w) [56, 48, 40, 32, 24, 16, 8, 0]"

text \<open>The number of zero bytes after the \<open>0x80\<close> marker; the length field counts bits modulo
  \<open>2 ^ 64\<close>.\<close>

definition pad_zeros :: "int \<Rightarrow> nat" where
  "pad_zeros n = nat ((55 - n) mod 64)"

definition sha_pad :: "bytes \<Rightarrow> bytes" where
  "sha_pad m = m @ [char_of (128::int)] @ replicate (pad_zeros (int (length m))) (char_of (0::int))
     @ be_bytes64 (8 * of_int (int (length m)))"

function sha_blocks :: "hash_state \<Rightarrow> word32 list \<Rightarrow> hash_state" where
  "sha_blocks st ws =
     (if ws = [] then st else sha_blocks (sha_compress st (take 16 ws)) (drop 16 ws))"
  by pat_completeness auto
termination
  by (relation "measure (\<lambda>(st, ws). length ws)") (auto simp: length_greater_0_conv)

declare sha_blocks.simps [simp del]

fun state_words :: "hash_state \<Rightarrow> word32 list" where
  "state_words (a, b, c, d, e, f, g, h) = [a, b, c, d, e, f, g, h]"

definition sha256_Sum256 :: "bytes \<Rightarrow> bytes" where
  "sha256_Sum256 m =
     concat (map be_bytes32 (state_words (sha_blocks sha_H0 (words_of (sha_pad m)))))"

section \<open>Hexadecimal\<close>

definition hextable :: string where
  "hextable = ''0123456789abcdef''"

definition hex_byte :: "char \<Rightarrow> string" where
  "hex_byte c = [hextable ! (of_char c div 16), hextable ! (of_char c mod 16)]"

definition hex_EncodeToString :: "bytes \<Rightarrow> string" where
  "hex_EncodeToString bs = concat (map hex_byte bs)"

text \<open>The inverse: Postgres's \<open>decode(\<dots>, 'hex')\<close> on lower-case digits.\<close>

definition hex_val :: "char \<Rightarrow> nat option" where
  "hex_val c = (let n = (of_char c :: nat) in
     if 48 \<le> n \<and> n \<le> 57 then Some (n - 48)
     else if 97 \<le> n \<and> n \<le> 102 then Some (n - 87) else None)"

fun hex_decode :: "string \<Rightarrow> bytes option" where
  "hex_decode [] = Some []"
| "hex_decode [_] = None"
| "hex_decode (a # b # cs) =
     (case (hex_val a, hex_val b, hex_decode cs) of
        (Some x, Some y, Some bs) \<Rightarrow> Some (char_of (16 * x + y) # bs)
      | _ \<Rightarrow> None)"

section \<open>The repository's hashes\<close>

definition computeETag :: "bytes \<Rightarrow> string" where
  "computeETag b = hex_EncodeToString (sha256_Sum256 b)"

definition hashToken :: "string \<Rightarrow> bytes" where
  "hashToken raw = sha256_Sum256 raw"

definition inviteHash :: "string \<Rightarrow> bytes" where
  "inviteHash raw = sha256_Sum256 raw"

definition hashTokenBytes :: "string \<Rightarrow> bytes" where
  "hashTokenBytes raw = sha256_Sum256 raw"

section \<open>Facts\<close>

lemma length_be_bytes [simp]: "length (be_bytes32 v) = 4" "length (be_bytes64 u) = 8"
  by (simp_all add: be_bytes32_def be_bytes64_def)

lemma length_state_words [simp]: "length (state_words st) = 8"
  by (cases st) auto

lemma length_concat_const: "(\<And>x. x \<in> set xs \<Longrightarrow> length (f x) = n) \<Longrightarrow> length (concat (map f xs)) = length xs * n"
  by (induction xs) auto

lemma length_sha256 [simp]: "length (sha256_Sum256 m) = 32"
  unfolding sha256_Sum256_def by (subst length_concat_const [where n = 4]) auto

lemma length_hex [simp]: "length (hex_EncodeToString bs) = 2 * length bs"
  unfolding hex_EncodeToString_def by (subst length_concat_const [where n = 2]) (auto simp: hex_byte_def)

lemma sha_pad_length: "length (sha_pad m) mod 64 = 0"
proof -
  have "int (length (sha_pad m)) = int (length m) + 9 + (55 - int (length m)) mod 64"
    by (simp add: sha_pad_def pad_zeros_def)
  also have "\<dots> mod 64 = (int (length m) + 9 + (55 - int (length m))) mod 64" by (rule mod_add_right_eq)
  also have "\<dots> = 0" by simp
  finally have "int (length (sha_pad m) mod 64) = 0" by (simp add: zmod_int)
  then show ?thesis by simp
qed

lemma hextable_digit: "n < 16 \<Longrightarrow> hextable ! n \<in> set hextable"
  by (rule nth_mem) (simp add: hextable_def)

lemma of_char_div_16: "(of_char c :: nat) div 16 < 16"
proof -
  have "(of_char c :: nat) < 256" by simp
  then show ?thesis by (simp add: less_mult_imp_div_less)
qed

lemma set_hex: "set (hex_EncodeToString bs) \<subseteq> set hextable"
  by (auto simp: hex_EncodeToString_def hex_byte_def hextable_digit of_char_div_16)

lemma hex_val_hextable: "n < 16 \<Longrightarrow> hex_val (hextable ! n) = Some n"
proof -
  have "\<forall>n \<in> set [0..<16]. hex_val (hextable ! n) = Some n"
    by code_simp
  then show "n < 16 \<Longrightarrow> hex_val (hextable ! n) = Some n" by simp
qed

lemma hex_decode_encode: "hex_decode (hex_EncodeToString bs) = Some bs"
proof (induction bs)
  case Nil
  then show ?case by (simp add: hex_EncodeToString_def)
next
  case (Cons c bs)
  then show ?case
    by (simp add: hex_EncodeToString_def hex_byte_def hex_val_hextable of_char_div_16)
qed

lemma hex_inj: "hex_EncodeToString a = hex_EncodeToString b \<longleftrightarrow> a = b"
  by (metis hex_decode_encode option.inject)

lemma length_computeETag [simp]: "length (computeETag b) = 64"
  by (simp add: computeETag_def)

lemma computeETag_ne_Nil [simp]: "computeETag b \<noteq> []"
  using length_computeETag [of b] by (metis list.size(3) zero_neq_numeral)

lemma set_computeETag: "set (computeETag b) \<subseteq> set hextable"
  by (simp add: computeETag_def set_hex)

lemma token_hashes_agree: "inviteHash = hashToken" "hashTokenBytes = hashToken"
  by (simp_all add: fun_eq_iff inviteHash_def hashToken_def hashTokenBytes_def)

end
