(* ===== verification/Lru_Cache.thy ===== *)
theory Lru_Cache
  imports Prelude
begin

text \<open>
  The byte-capped LRU cache of \<^verbatim>\<open>internal/storage/cache.go\<close>.

  Go's \<open>container/list\<close> hands out \<open>*list.Element\<close> pointers, and \<open>items\<close> maps a key to such a
  pointer. The model gives every element an identity (a number) and keeps the list front first as
  pairs of identity and entry, so that the agreement of \<open>ll\<close> and \<open>items\<close> is an invariant to be
  proved and not an artefact of the representation. Every operation holds the mutex for its whole
  body, so each is one atomic step.

  Shown: the invariant (\<open>lru_ok\<close>) of every operation; a functional refinement of a recency list
  (\<open>spec_get\<close>, \<open>spec_set\<close>, \<open>spec_delete\<close>); that the eviction loop keeps the longest prefix of the
  recency order that fits; and, through the interface \<open>byte_cache\<close>, that deleting a key after
  changing the backing store keeps the cache coherent with it.
\<close>

section \<open>State\<close>

record entry =
  ekey :: string
  evalue :: bytes
  esize :: int

record lru =
  cap :: int
  used :: int
  ll :: "(nat \<times> entry) list"
  items :: "string \<rightharpoonup> nat"
  next_elem :: nat

section \<open>\<open>container/list\<close>\<close>

definition list_PushFront :: "lru \<Rightarrow> entry \<Rightarrow> nat \<times> lru" where
  "list_PushFront c e =
     (next_elem c, c\<lparr>ll := (next_elem c, e) # ll c, next_elem := Suc (next_elem c)\<rparr>)"

definition list_Remove :: "nat \<Rightarrow> (nat \<times> entry) list \<Rightarrow> (nat \<times> entry) list" where
  "list_Remove i xs = filter (\<lambda>(j, _). j \<noteq> i) xs"

definition list_MoveToFront :: "nat \<Rightarrow> (nat \<times> entry) list \<Rightarrow> (nat \<times> entry) list" where
  "list_MoveToFront i xs =
     (case map_of xs i of None \<Rightarrow> xs | Some e \<Rightarrow> (i, e) # list_Remove i xs)"

text \<open>Assigning through the pointer \<open>el.Value.(*entry)\<close>.\<close>

definition set_entry :: "nat \<Rightarrow> (entry \<Rightarrow> entry) \<Rightarrow> (nat \<times> entry) list \<Rightarrow> (nat \<times> entry) list" where
  "set_entry i f xs = map (\<lambda>(j, e). if j = i then (j, f e) else (j, e)) xs"

section \<open>Operations\<close>

definition NewLRUCache :: "int \<Rightarrow> lru" where
  "NewLRUCache n = \<lparr>cap = n, used = 0, ll = [], items = Map.empty, next_elem = 0\<rparr>"

definition removeElement :: "lru \<Rightarrow> nat \<times> entry \<Rightarrow> lru" where
  "removeElement c el = (case el of (i, e) \<Rightarrow>
     c\<lparr>ll := list_Remove i (ll c), items := (items c)(ekey e := None), used := used c - esize e\<rparr>)"

lemma list_Remove_last_shorter:
  assumes "xs \<noteq> []"
  shows "length (list_Remove (fst (last xs)) xs) < length xs"
proof -
  have "last xs \<in> set xs" using assms by simp
  moreover have "\<not> (case last xs of (j, _) \<Rightarrow> j \<noteq> fst (last xs))"
    by (simp add: case_prod_beta)
  ultimately show ?thesis unfolding list_Remove_def by (rule length_filter_less)
qed

lemma ll_removeElement: "ll (removeElement c el) = list_Remove (fst el) (ll c)"
  by (cases el) (simp add: removeElement_def)

text \<open>The loop of \<open>evict\<close> stops: each round removes the back element.\<close>

function evict :: "lru \<Rightarrow> lru" where
  "evict c =
     (if used c > cap c then
        (if ll c = [] then c else evict (removeElement c (last (ll c))))
      else c)"
  by pat_completeness auto
termination
  by (relation "measure (\<lambda>c. length (ll c))")
     (simp_all add: ll_removeElement list_Remove_last_shorter)

declare evict.simps [simp del]

definition lru_Get :: "lru \<Rightarrow> string \<Rightarrow> bytes option \<times> lru" where
  "lru_Get c key =
     (case items c key of
        None \<Rightarrow> (None, c)
      | Some i \<Rightarrow>
          (case map_of (ll c) i of
             None \<Rightarrow> (None, c)
           | Some e \<Rightarrow> (Some (evalue e), c\<lparr>ll := list_MoveToFront i (ll c)\<rparr>)))"

definition lru_Set :: "lru \<Rightarrow> string \<Rightarrow> bytes \<Rightarrow> lru" where
  "lru_Set c key val =
     (let size = int (length val) in
      if size > cap c then c
      else
        (case items c key of
           Some i \<Rightarrow>
             (case map_of (ll c) i of
                None \<Rightarrow> c
              | Some e \<Rightarrow>
                  evict (c\<lparr>used := used c - esize e + size,
                           ll := list_MoveToFront i
                             (set_entry i (\<lambda>e. e\<lparr>evalue := val, esize := size\<rparr>) (ll c))\<rparr>))
         | None \<Rightarrow>
             (let (i, c1) = list_PushFront c \<lparr>ekey = key, evalue = val, esize = size\<rparr>
              in evict (c1\<lparr>items := (items c1)(key \<mapsto> i), used := used c1 + size\<rparr>))))"

definition lru_Delete :: "lru \<Rightarrow> string \<Rightarrow> lru" where
  "lru_Delete c key =
     (case items c key of
        None \<Rightarrow> c
      | Some i \<Rightarrow>
          (case map_of (ll c) i of None \<Rightarrow> c | Some e \<Rightarrow> removeElement c (i, e)))"

section \<open>Invariant and abstraction\<close>

text \<open>What the code keeps true between operations: element identities are distinct and already
  allocated, keys are distinct, the map and the list agree, every size is the length of its value,
  and \<open>used\<close> is the sum of the sizes.\<close>

definition lru_wf :: "lru \<Rightarrow> bool" where
  "lru_wf c \<longleftrightarrow>
     distinct (map fst (ll c)) \<and> (\<forall>(i, e) \<in> set (ll c). i < next_elem c) \<and>
     distinct (map (ekey \<circ> snd) (ll c)) \<and>
     (\<forall>k i. items c k = Some i \<longleftrightarrow> (\<exists>e. (i, e) \<in> set (ll c) \<and> ekey e = k)) \<and>
     (\<forall>(i, e) \<in> set (ll c). esize e = int (length (evalue e))) \<and>
     used c = sum_list (map (esize \<circ> snd) (ll c))"

definition lru_ok :: "lru \<Rightarrow> bool" where
  "lru_ok c \<longleftrightarrow> lru_wf c \<and> used c \<le> cap c \<and> 0 \<le> cap c"

text \<open>The abstract cache: the bindings, most recently used first.\<close>

definition recency :: "lru \<Rightarrow> (string \<times> bytes) list" where
  "recency c = map (\<lambda>(i, e). (ekey e, evalue e)) (ll c)"

definition weight :: "(string \<times> bytes) list \<Rightarrow> int" where
  "weight xs = sum_list (map (int \<circ> length \<circ> snd) xs)"

definition without :: "string \<Rightarrow> (string \<times> bytes) list \<Rightarrow> (string \<times> bytes) list" where
  "without k xs = filter (\<lambda>(k', _). k' \<noteq> k) xs"

text \<open>The reference for eviction: the longest prefix whose weight is at most \<open>n\<close>.\<close>

fun fitting :: "int \<Rightarrow> (string \<times> bytes) list \<Rightarrow> (string \<times> bytes) list" where
  "fitting n [] = []"
| "fitting n ((k, v) # xs) =
     (if int (length v) \<le> n then (k, v) # fitting (n - int (length v)) xs else [])"

definition spec_get :: "string \<Rightarrow> (string \<times> bytes) list \<Rightarrow> bytes option \<times> (string \<times> bytes) list" where
  "spec_get k xs =
     (case map_of xs k of None \<Rightarrow> (None, xs) | Some v \<Rightarrow> (Some v, (k, v) # without k xs))"

definition spec_set :: "int \<Rightarrow> string \<Rightarrow> bytes \<Rightarrow> (string \<times> bytes) list \<Rightarrow> (string \<times> bytes) list" where
  "spec_set n k v xs =
     (if int (length v) > n then xs else fitting n ((k, v) # without k xs))"

section \<open>The invariant\<close>

lemma lru_wfD:
  assumes "lru_wf c"
  shows "distinct (map fst (ll c))" and "distinct (map (ekey \<circ> snd) (ll c))"
    and "items c k = Some i \<longleftrightarrow> (\<exists>e. (i, e) \<in> set (ll c) \<and> ekey e = k)"
    and "used c = sum_list (map (esize \<circ> snd) (ll c))"
    and "(i, e) \<in> set (ll c) \<Longrightarrow> esize e = int (length (evalue e))"
    and "(i, e) \<in> set (ll c) \<Longrightarrow> i < next_elem c"
  using assms unfolding lru_wf_def by auto

lemma lru_wf_same_elem:
  "lru_wf c \<Longrightarrow> (i, e) \<in> set (ll c) \<Longrightarrow> (i, e') \<in> set (ll c) \<Longrightarrow> e = e'"
  using lru_wfD(1) by (metis eq_key_imp_eq_value)

lemma lru_wf_same_key:
  assumes "lru_wf c" and "(i, e) \<in> set (ll c)" and "(j, e') \<in> set (ll c)" and "ekey e = ekey e'"
  shows "i = j \<and> e = e'"
proof -
  have "inj_on (ekey \<circ> snd) (set (ll c))"
    using lru_wfD(2) [OF assms(1)] by (simp add: distinct_map)
  with assms(2-4) have "(i, e) = (j, e')" by (intro inj_onD [of "ekey \<circ> snd"]) auto
  then show ?thesis by simp
qed

lemma lru_wf_lookup:
  "lru_wf c \<Longrightarrow> items c k = Some i \<Longrightarrow> \<exists>e. map_of (ll c) i = Some e \<and> ekey e = k \<and> (i, e) \<in> set (ll c)"
  using lru_wfD(1,3) by (metis map_of_is_SomeI)

lemma set_list_Remove: "set (list_Remove i xs) = {(j, e) \<in> set xs. j \<noteq> i}"
  by (auto simp: list_Remove_def)

lemma list_Remove_fresh: "i \<notin> fst ` set xs \<Longrightarrow> list_Remove i xs = xs"
  by (induction xs) (auto simp: list_Remove_def)

lemma sum_list_Remove:
  "distinct (map fst xs) \<Longrightarrow> (i, e) \<in> set xs \<Longrightarrow>
   sum_list (map g (list_Remove i xs)) = sum_list (map g xs) - (g (i, e) :: int)"
proof (induction xs)
  case (Cons x xs)
  show ?case
  proof (cases "fst x = i")
    case True
    with Cons.prems have ni: "i \<notin> fst ` set xs" by auto
    then have "list_Remove i xs = xs" by (rule list_Remove_fresh)
    moreover have "x = (i, e)" using Cons.prems ni by force
    ultimately show ?thesis by (simp add: list_Remove_def)
  next
    case False
    then have "(i, e) \<in> set xs" using Cons.prems by auto
    with Cons False show ?thesis by (simp add: list_Remove_def case_prod_beta)
  qed
qed simp

lemma removeElement_wf:
  assumes wf: "lru_wf c" and mem: "(i, e) \<in> set (ll c)"
  shows "lru_wf (removeElement c (i, e))"
proof -
  have "distinct (map fst (list_Remove i (ll c)))" "distinct (map (ekey \<circ> snd) (list_Remove i (ll c)))"
    using lru_wfD(1,2) [OF wf] by (simp_all add: list_Remove_def distinct_map_filter)
  moreover have "((items c)(ekey e := None)) k = Some j \<longleftrightarrow>
      (\<exists>e'. (j, e') \<in> set (list_Remove i (ll c)) \<and> ekey e' = k)" for k j
  proof (cases "k = ekey e")
    case True
    have "\<not> ((j, e') \<in> set (ll c) \<and> j \<noteq> i \<and> ekey e' = ekey e)" for e'
      using lru_wf_same_key [OF wf mem, of j e'] by auto
    with True show ?thesis by (auto simp: set_list_Remove)
  next
    case False
    have "j \<noteq> i" if "(j, e') \<in> set (ll c)" "ekey e' = k" for e'
      using that False lru_wf_same_elem [OF wf mem, of e'] by auto
    with False lru_wfD(3) [OF wf, of k j] show ?thesis by (auto simp: set_list_Remove)
  qed
  moreover have "used c - esize e = sum_list (map (esize \<circ> snd) (list_Remove i (ll c)))"
    using sum_list_Remove [OF lru_wfD(1) [OF wf] mem, of "esize \<circ> snd"] lru_wfD(4) [OF wf] by simp
  moreover have "\<forall>(j, e') \<in> set (list_Remove i (ll c)). j < next_elem c"
    "\<forall>(j, e') \<in> set (list_Remove i (ll c)). esize e' = int (length (evalue e'))"
    using lru_wfD(5,6) [OF wf] by (auto simp: set_list_Remove)
  ultimately show ?thesis
    unfolding lru_wf_def removeElement_def by simp
qed

lemma evict_ok:
  assumes "lru_wf c" and "0 \<le> cap c"
  shows "lru_ok (evict c)"
  using assms
proof (induction c rule: evict.induct)
  case (1 c)
  show ?case
  proof (cases "used c > cap c")
    case False
    with "1.prems" show ?thesis by (simp add: evict.simps [of c] lru_ok_def)
  next
    case True
    with "1.prems" have ne: "ll c \<noteq> []" by (auto simp: lru_wf_def)
    obtain i e where last: "last (ll c) = (i, e)" by fastforce
    with ne have "(i, e) \<in> set (ll c)" by (metis last_in_set)
    then have "lru_wf (removeElement c (last (ll c)))"
      using "1.prems"(1) last by (simp add: removeElement_wf)
    with True ne "1.IH" "1.prems"(2) show ?thesis
      by (simp add: evict.simps [of c]) (simp add: removeElement_def last)
  qed
qed

text \<open>Reordering the list keeps the invariant; pushing a new front element keeps it when its
  identity and key are unused.\<close>

lemma lru_wf_permute:
  assumes wf: "lru_wf c" and eq: "mset xs = mset (ll c)"
  shows "lru_wf (c\<lparr>ll := xs\<rparr>)"
proof -
  have perm: "mset (map g xs) = mset (map g (ll c))" for g :: "nat \<times> entry \<Rightarrow> 'a"
    using eq by simp
  have "distinct (map fst xs)" "distinct (map (ekey \<circ> snd) xs)"
    using lru_wfD(1,2) [OF wf] perm [of fst] perm [of "ekey \<circ> snd"]
    by (metis mset_eq_imp_distinct_iff)+
  moreover have "sum_list (map (esize \<circ> snd) xs) = used c"
    using lru_wfD(4) [OF wf] perm [of "esize \<circ> snd"] by (metis sum_mset_sum_list)
  moreover have "set xs = set (ll c)"
    using eq by (rule mset_eq_setD)
  ultimately show ?thesis
    using wf unfolding lru_wf_def by simp
qed

lemma list_MoveToFront_Some:
  "map_of xs i = Some e \<Longrightarrow> list_MoveToFront i xs = (i, e) # list_Remove i xs"
  by (simp add: list_MoveToFront_def)

lemma list_MoveToFront_set_entry:
  assumes "map_of xs i = Some e"
  shows "list_MoveToFront i (set_entry i f xs) = (i, f e) # list_Remove i xs"
proof -
  have "map_of (set_entry i f xs) i = Some (f e)"
    using assms by (induction xs) (auto simp: set_entry_def split: if_splits)
  moreover have "list_Remove i (set_entry i f xs) = list_Remove i xs"
    by (induction xs) (auto simp: set_entry_def list_Remove_def)
  ultimately show ?thesis by (simp add: list_MoveToFront_Some)
qed

lemma mset_list_MoveToFront:
  "distinct (map fst xs) \<Longrightarrow> mset (list_MoveToFront i xs) = mset xs"
proof (induction xs)
  case (Cons x xs)
  show ?case
  proof (cases "fst x = i")
    case True
    with Cons.prems have "list_Remove i xs = xs" by (intro list_Remove_fresh) auto
    with True show ?thesis
      by (cases x) (simp add: list_MoveToFront_def list_Remove_def)
  next
    case False
    with Cons show ?thesis
      by (cases x; cases "map_of xs i") (simp_all add: list_MoveToFront_def list_Remove_def)
  qed
qed (simp add: list_MoveToFront_def)

definition pushed :: "lru \<Rightarrow> nat \<Rightarrow> entry \<Rightarrow> lru" where
  "pushed c i e =
     c\<lparr>used := used c + esize e, ll := (i, e) # ll c, items := (items c)(ekey e \<mapsto> i)\<rparr>"

lemma pushed_wf:
  assumes wf: "lru_wf c" and "i < next_elem c" and new: "i \<notin> fst ` set (ll c)"
    and key: "items c (ekey e) = None" and "esize e = int (length (evalue e))"
  shows "lru_wf (pushed c i e)"
proof -
  have nokey: "ekey e \<noteq> ekey e'" if "(j, e') \<in> set (ll c)" for j e'
    using lru_wfD(3) [OF wf, of "ekey e'" j] that key by auto
  have "((items c)(ekey e \<mapsto> i)) k = Some j \<longleftrightarrow>
      (\<exists>e'. (j, e') \<in> set ((i, e) # ll c) \<and> ekey e' = k)" for k j
    using lru_wfD(3) [OF wf, of k j] nokey new by (cases "k = ekey e") force+
  moreover have "ekey e \<notin> set (map (ekey \<circ> snd) (ll c))"
    using nokey by fastforce
  ultimately show ?thesis
    using assms unfolding lru_wf_def pushed_def by simp
qed

lemma removeElement_simps [simp]:
  "cap (removeElement c el) = cap c" "next_elem (removeElement c el) = next_elem c"
  by (simp_all add: removeElement_def split: prod.splits)

lemma lru_Set_Some:
  assumes wf: "lru_wf c" and k: "items c k = Some i" and e: "map_of (ll c) i = Some e"
    and fits: "int (length v) \<le> cap c"
  shows "lru_Set c k v =
    evict (pushed (removeElement c (i, e)) i (e\<lparr>evalue := v, esize := int (length v)\<rparr>))"
proof -
  have "ekey e = k" using lru_wf_lookup [OF wf k] e by auto
  then have "(items c)(ekey e \<mapsto> i) = items c" using k by auto
  then show ?thesis
    using k e fits by (simp add: lru_Set_def Let_def list_MoveToFront_set_entry pushed_def removeElement_def)
qed

lemma lru_Set_None:
  assumes "items c k = None" and "int (length v) \<le> cap c"
  shows "lru_Set c k v =
    evict (pushed (c\<lparr>next_elem := Suc (next_elem c)\<rparr>) (next_elem c)
      \<lparr>ekey = k, evalue = v, esize = int (length v)\<rparr>)"
  using assms
  by (simp add: lru_Set_def Let_def list_PushFront_def pushed_def)
     (intro arg_cong [where f = evict] lru.equality, simp_all)

lemma lru_Set_too_big: "int (length v) > cap c \<Longrightarrow> lru_Set c k v = c"
  by (simp add: lru_Set_def)

text \<open>Every operation keeps the invariant.\<close>

lemma NewLRUCache_ok: "0 \<le> n \<Longrightarrow> lru_ok (NewLRUCache n)"
  by (simp add: lru_ok_def lru_wf_def NewLRUCache_def)

lemma lru_Get_ok: "lru_ok c \<Longrightarrow> lru_ok (snd (lru_Get c k))"
  using lru_wf_permute [OF _ mset_list_MoveToFront] lru_wfD(1)
  by (fastforce simp: lru_ok_def lru_Get_def split: option.splits)

lemma list_Remove_gone: "i \<notin> fst ` set (list_Remove i xs)"
  by (auto simp: list_Remove_def)

lemma lru_Set_ok:
  assumes ok: "lru_ok c"
  shows "lru_ok (lru_Set c k v)"
proof (cases "int (length v) > cap c")
  case True
  with ok show ?thesis by (simp add: lru_Set_too_big)
next
  case False
  from ok have wf: "lru_wf c" and cap: "0 \<le> cap c" by (simp_all add: lru_ok_def)
  show ?thesis
  proof (cases "items c k")
    case None
    have "lru_wf (c\<lparr>next_elem := Suc (next_elem c)\<rparr>)"
      using wf unfolding lru_wf_def by (fastforce intro: less_SucI)
    moreover have "next_elem c \<notin> fst ` set (ll c)"
      using lru_wfD(6) [OF wf] by fastforce
    ultimately show ?thesis
      using False None cap
      by (simp add: lru_Set_None) (intro evict_ok pushed_wf, simp_all add: pushed_def)
  next
    case (Some i)
    then obtain e where e: "map_of (ll c) i = Some e" "ekey e = k" "(i, e) \<in> set (ll c)"
      using lru_wf_lookup [OF wf] by blast
    have "lru_wf (removeElement c (i, e))" using wf e(3) by (rule removeElement_wf)
    moreover have "i \<notin> fst ` set (ll (removeElement c (i, e)))"
      by (simp add: ll_removeElement list_Remove_gone)
    moreover have "items (removeElement c (i, e)) (ekey e) = None"
      by (simp add: removeElement_def)
    moreover have "i < next_elem c" using lru_wfD(6) [OF wf] e(3) by blast
    ultimately show ?thesis
      using False cap lru_Set_Some [OF wf Some e(1)]
      by simp (intro evict_ok pushed_wf, simp_all add: pushed_def)
  qed
qed

lemma lru_Delete_ok:
  assumes ok: "lru_ok c"
  shows "lru_ok (lru_Delete c k)"
proof (cases "items c k")
  case None
  with ok show ?thesis by (simp add: lru_Delete_def)
next
  case (Some i)
  from ok have wf: "lru_wf c" by (simp add: lru_ok_def)
  then obtain e where e: "map_of (ll c) i = Some e" "(i, e) \<in> set (ll c)"
    using lru_wf_lookup Some by blast
  have "0 \<le> esize e" using lru_wfD(5) [OF wf e(2)] by simp
  then have "used (removeElement c (i, e)) \<le> used c"
    by (simp add: removeElement_def)
  with ok e Some show ?thesis
    using removeElement_wf [OF wf e(2)] by (simp add: lru_Delete_def lru_ok_def)
qed

section \<open>Refinement of the recency list\<close>

lemma used_weight: "lru_wf c \<Longrightarrow> used c = weight (recency c)"
  unfolding lru_wf_def weight_def recency_def
  by (auto simp: case_prod_beta intro!: arg_cong [where f = sum_list] map_cong)

lemma list_Remove_last: "distinct (map fst xs) \<Longrightarrow> xs \<noteq> [] \<Longrightarrow> list_Remove (fst (last xs)) xs = butlast xs"
proof (induction xs rule: rev_induct)
  case (snoc x xs)
  then show ?case
    using list_Remove_fresh [of "fst x" xs] by (auto simp: list_Remove_def)
qed simp

lemma recency_evict_round:
  "lru_wf c \<Longrightarrow> ll c \<noteq> [] \<Longrightarrow> recency (removeElement c (last (ll c))) = butlast (recency c)"
  using lru_wfD(1) by (simp add: recency_def ll_removeElement list_Remove_last map_butlast)

lemma weight_simps [simp]: "weight [] = 0" "weight ((k, v) # xs) = int (length v) + weight xs"
  by (simp_all add: weight_def)

lemma weight_nonneg: "0 \<le> weight xs"
  by (induction xs) auto

lemma fitting_butlast: "n < weight xs \<Longrightarrow> xs \<noteq> [] \<Longrightarrow> fitting n (butlast xs) = fitting n xs"
  by (induction n xs rule: fitting.induct) auto

lemma fitting_all: "weight xs \<le> n \<Longrightarrow> fitting n xs = xs"
proof (induction n xs rule: fitting.induct)
  case (2 n k v xs)
  then show ?case using weight_nonneg [of xs] by auto
qed simp

lemma recency_evict: "lru_wf c \<Longrightarrow> recency (evict c) = fitting (cap c) (recency c)"
proof (induction c rule: evict.induct)
  case (1 c)
  consider "used c \<le> cap c" | "ll c = []" | "used c > cap c" "ll c \<noteq> []" by linarith
  then show ?case
  proof cases
    case 1
    with "1.prems" show ?thesis
      by (simp add: evict.simps [of c] fitting_all used_weight)
  next
    case 2
    then show ?thesis by (simp add: evict.simps [of c] recency_def)
  next
    case 3
    note True = 3(1) and ne = 3(2)
    have mem: "(fst (last (ll c)), snd (last (ll c))) \<in> set (ll c)" using ne by simp
    have "lru_wf (removeElement c (last (ll c)))"
      using removeElement_wf [OF "1.prems" mem] by simp
    then have "recency (evict (removeElement c (last (ll c)))) = fitting (cap c) (butlast (recency c))"
      using "1.IH" [OF True ne] recency_evict_round [OF "1.prems" ne] by simp
    also have "\<dots> = fitting (cap c) (recency c)"
      using True ne "1.prems" by (intro fitting_butlast) (simp_all add: used_weight recency_def)
    finally show ?thesis using True ne by (simp add: evict.simps [of c])
  qed
qed

lemma recency_list_Remove:
  assumes wf: "lru_wf c" and mem: "(i, e) \<in> set (ll c)"
  shows "recency (c\<lparr>ll := list_Remove i (ll c)\<rparr>) = without (ekey e) (recency c)"
proof -
  have "fst x \<noteq> i \<longleftrightarrow> ekey (snd x) \<noteq> ekey e" if "x \<in> set (ll c)" for x
    using lru_wf_same_key [OF wf _ mem] lru_wf_same_elem [OF wf _ mem] that by (cases x) auto
  then have "filter (\<lambda>(j, _). j \<noteq> i) (ll c) = filter (\<lambda>x. ekey (snd x) \<noteq> ekey e) (ll c)"
    by (intro filter_cong) (auto simp: case_prod_beta)
  then show ?thesis
    by (simp add: recency_def without_def list_Remove_def filter_map o_def case_prod_beta)
qed

lemma without_absent: "lru_wf c \<Longrightarrow> items c k = None \<Longrightarrow> without k (recency c) = recency c"
  using lru_wfD(3) [of c k] unfolding without_def recency_def by (intro filter_True) fastforce

lemma map_of_recency:
  assumes wf: "lru_wf c"
  shows "map_of (recency c) k =
    (case items c k of None \<Rightarrow> None | Some i \<Rightarrow> map_option evalue (map_of (ll c) i))"
proof (cases "items c k")
  case None
  then have "k \<notin> fst ` set (recency c)"
    using lru_wfD(3) [OF wf, of k] unfolding recency_def by fastforce
  then show ?thesis using None by (simp add: map_of_eq_None_iff)
next
  case (Some i)
  then obtain e where e: "map_of (ll c) i = Some e" "ekey e = k" "(i, e) \<in> set (ll c)"
    using lru_wf_lookup [OF wf] by blast
  have "distinct (map fst (recency c))"
    using lru_wfD(2) [OF wf] by (simp add: recency_def o_def case_prod_beta)
  moreover have "(k, evalue e) \<in> set (recency c)"
    using e(2,3) unfolding recency_def by force
  ultimately show ?thesis using Some e(1) by simp
qed

lemma recency_ll_Cons:
  "recency (c\<lparr>ll := (i, e) # xs\<rparr>) = (ekey e, evalue e) # recency (c\<lparr>ll := xs\<rparr>)"
  by (simp add: recency_def)

lemma recency_Get:
  assumes ok: "lru_ok c"
  shows "(fst (lru_Get c k), recency (snd (lru_Get c k))) = spec_get k (recency c)"
proof (cases "items c k")
  case None
  then show ?thesis using ok by (simp add: lru_Get_def spec_get_def map_of_recency lru_ok_def)
next
  case (Some i)
  from ok have wf: "lru_wf c" by (simp add: lru_ok_def)
  then obtain e where e: "map_of (ll c) i = Some e" "ekey e = k" "(i, e) \<in> set (ll c)"
    using lru_wf_lookup Some by blast
  then have "map_of (recency c) k = Some (evalue e)"
    using Some by (simp add: map_of_recency [OF wf])
  then show ?thesis
    using Some e recency_list_Remove [OF wf e(3)]
    by (simp add: lru_Get_def spec_get_def list_MoveToFront_Some recency_ll_Cons)
qed

lemma recency_pushed: "recency (pushed c i e) = (ekey e, evalue e) # recency c"
  by (simp add: pushed_def recency_def)

lemma recency_removeElement:
  "lru_wf c \<Longrightarrow> (i, e) \<in> set (ll c) \<Longrightarrow> recency (removeElement c (i, e)) = without (ekey e) (recency c)"
  using recency_list_Remove by (simp add: removeElement_def recency_def)

lemma cap_evict [simp]: "cap (evict c) = cap c"
proof (induction c rule: evict.induct)
  case (1 c)
  then show ?case by (simp add: evict.simps [of c])
qed

lemma cap_ops [simp]:
  "cap (snd (lru_Get c k)) = cap c" "cap (lru_Set c k v) = cap c" "cap (lru_Delete c k) = cap c"
  by (simp_all add: lru_Get_def lru_Set_def lru_Delete_def Let_def list_PushFront_def
      split: option.splits)

lemma recency_Set:
  assumes ok: "lru_ok c"
  shows "recency (lru_Set c k v) = spec_set (cap c) k v (recency c)"
proof (cases "int (length v) > cap c")
  case True
  then show ?thesis by (simp add: lru_Set_too_big spec_set_def)
next
  case fits: False
  from ok have wf: "lru_wf c" by (simp add: lru_ok_def)
  show ?thesis
  proof (cases "items c k")
    case None
    let ?c = "c\<lparr>next_elem := Suc (next_elem c)\<rparr>"
    have "lru_wf ?c" using wf unfolding lru_wf_def by (fastforce intro: less_SucI)
    moreover have "next_elem c \<notin> fst ` set (ll c)" using lru_wfD(6) [OF wf] by fastforce
    ultimately have "lru_wf (pushed ?c (next_elem c) \<lparr>ekey = k, evalue = v, esize = int (length v)\<rparr>)"
      using None by (intro pushed_wf) simp_all
    moreover have "recency ?c = recency c" by (simp add: recency_def)
    ultimately show ?thesis
      using fits None without_absent [OF wf None]
      by (simp add: lru_Set_None recency_evict recency_pushed spec_set_def) (simp add: pushed_def)
  next
    case (Some i)
    then obtain e where e: "map_of (ll c) i = Some e" "ekey e = k" "(i, e) \<in> set (ll c)"
      using lru_wf_lookup [OF wf] by blast
    let ?e = "e\<lparr>evalue := v, esize := int (length v)\<rparr>"
    have "lru_wf (pushed (removeElement c (i, e)) i ?e)"
      using wf e removeElement_wf [OF wf e(3)] lru_wfD(6) [OF wf e(3)] list_Remove_gone
      by (intro pushed_wf) (simp_all add: ll_removeElement, simp_all add: removeElement_def)
    then show ?thesis
      using fits e recency_removeElement [OF wf e(3)] lru_Set_Some [OF wf Some e(1)]
      by (simp add: recency_evict recency_pushed spec_set_def) (simp add: pushed_def)
  qed
qed

lemma recency_Delete:
  assumes ok: "lru_ok c"
  shows "recency (lru_Delete c k) = without k (recency c)"
proof (cases "items c k")
  case None
  with ok show ?thesis by (simp add: lru_Delete_def without_absent lru_ok_def)
next
  case (Some i)
  from ok have wf: "lru_wf c" by (simp add: lru_ok_def)
  then obtain e where e: "map_of (ll c) i = Some e" "ekey e = k" "(i, e) \<in> set (ll c)"
    using lru_wf_lookup Some by blast
  with Some show ?thesis
    using recency_removeElement [OF wf e(3)] by (simp add: lru_Delete_def)
qed

section \<open>The interface the write handlers rely on\<close>

text \<open>What a cache in front of a store promises: a hit is the bound value; only the bound key gains
  a binding, all other bindings are old ones (eviction may drop some); a deleted key is unbound.\<close>

definition coherent :: "(string \<rightharpoonup> bytes) \<Rightarrow> (string \<rightharpoonup> bytes) \<Rightarrow> bool" where
  "coherent store m \<longleftrightarrow> m \<subseteq>\<^sub>m store"

locale byte_cache =
  fixes get :: "'c \<Rightarrow> string \<Rightarrow> bytes option \<times> 'c"
    and put :: "'c \<Rightarrow> string \<Rightarrow> bytes \<Rightarrow> 'c"
    and del :: "'c \<Rightarrow> string \<Rightarrow> 'c"
    and invar :: "'c \<Rightarrow> bool"
    and lookup :: "'c \<Rightarrow> string \<rightharpoonup> bytes"
  assumes get_value: "invar c \<Longrightarrow> fst (get c k) = lookup c k"
    and get_lookup: "invar c \<Longrightarrow> lookup (snd (get c k)) = lookup c"
    and put_lookup: "invar c \<Longrightarrow> lookup (put c k v) \<subseteq>\<^sub>m (lookup c)(k \<mapsto> v) \<or> put c k v = c"
    and del_lookup: "invar c \<Longrightarrow> lookup (del c k) = (lookup c)(k := None)"
    and invar_get: "invar c \<Longrightarrow> invar (snd (get c k))"
    and invar_put: "invar c \<Longrightarrow> invar (put c k v)"
    and invar_del: "invar c \<Longrightarrow> invar (del c k)"
begin

lemma hit_from_store:
  "invar c \<Longrightarrow> coherent store (lookup c) \<Longrightarrow> fst (get c k) = Some v \<Longrightarrow> store k = Some v"
  by (force simp: get_value coherent_def map_le_def)

lemma invalidate_coherent:
  "invar c \<Longrightarrow> coherent store (lookup c) \<Longrightarrow> coherent (store(k := x)) (lookup (del c k))"
  by (auto simp: del_lookup coherent_def map_le_def)

lemma fill_coherent:
  assumes "invar c" and "coherent store (lookup c)" and "store k = Some v"
  shows "coherent store (lookup (put c k v))"
proof -
  have "(lookup c)(k \<mapsto> v) \<subseteq>\<^sub>m store"
    using assms(2,3) by (auto simp: coherent_def map_le_def)
  then show ?thesis
    using put_lookup [OF assms(1), of k v] assms(2) unfolding coherent_def
    by (auto intro: map_le_trans)
qed

end

lemma fitting_prefix: "\<exists>m. fitting n xs = take m xs"
proof (induction n xs rule: fitting.induct)
  case (2 n k v xs)
  then show ?case
    by (cases "int (length v) \<le> n") (auto intro: exI [of _ "Suc _"] exI [of _ 0])
qed simp

lemma weight_fitting: "0 \<le> n \<Longrightarrow> weight (fitting n xs) \<le> n"
  by (induction n xs rule: fitting.induct) auto

lemma map_of_take_le:
  assumes "distinct (map fst xs)"
  shows "map_of (take m xs) \<subseteq>\<^sub>m map_of xs"
  unfolding map_le_def
proof
  fix k assume "k \<in> dom (map_of (take m xs))"
  then obtain v where v: "map_of (take m xs) k = Some v" by blast
  then have "(k, v) \<in> set xs" by (meson in_set_takeD map_of_SomeD)
  with assms v show "map_of (take m xs) k = map_of xs k" by simp
qed

lemma map_of_without: "map_of (without k xs) = (map_of xs)(k := None)"
  by (induction xs) (auto simp: without_def fun_eq_iff)

lemma distinct_recency: "lru_ok c \<Longrightarrow> distinct (map fst (recency c))"
  using lru_wfD(2) by (simp add: lru_ok_def recency_def o_def case_prod_beta)

lemma distinct_without: "distinct (map fst xs) \<Longrightarrow> distinct (map fst ((k, v) # without k xs))"
  by (auto simp: without_def distinct_map_filter)

lemma lookup_after_Set:
  assumes ok: "lru_ok c"
  shows "map_of (recency (lru_Set c k v)) \<subseteq>\<^sub>m (map_of (recency c))(k \<mapsto> v) \<or> lru_Set c k v = c"
proof (cases "int (length v) > cap c")
  case True
  then show ?thesis by (simp add: lru_Set_too_big)
next
  case False
  let ?xs = "(k, v) # without k (recency c)"
  obtain m where m: "fitting (cap c) ?xs = take m ?xs" using fitting_prefix by blast
  have "recency (lru_Set c k v) = take m ?xs"
    using False m recency_Set [OF ok, of k v] by (simp only: spec_set_def if_False)
  moreover have "map_of (take m ?xs) \<subseteq>\<^sub>m map_of ?xs"
    using distinct_without [OF distinct_recency [OF ok]] by (rule map_of_take_le)
  moreover have "map_of ?xs = (map_of (recency c))(k \<mapsto> v)"
    by (simp add: map_of_without)
  ultimately show ?thesis by simp
qed

lemma lookup_after_Get:
  assumes "lru_ok c"
  shows "fst (lru_Get c k) = map_of (recency c) k"
    and "map_of (recency (snd (lru_Get c k))) = map_of (recency c)"
  using recency_Get [OF assms, of k]
  by (cases "map_of (recency c) k"; simp add: spec_get_def map_of_without fun_eq_iff)+

interpretation lru: byte_cache lru_Get lru_Set lru_Delete lru_ok "\<lambda>c. map_of (recency c)"
  by unfold_locales
     (simp_all only: lookup_after_Get lookup_after_Set recency_Delete map_of_without
        lru_Get_ok lru_Set_ok lru_Delete_ok)

section \<open>Runs of operations\<close>

datatype lru_op = CGet string | CSet string bytes | CDelete string

fun lru_apply :: "lru \<Rightarrow> lru_op \<Rightarrow> lru" where
  "lru_apply c (CGet k) = snd (lru_Get c k)"
| "lru_apply c (CSet k v) = lru_Set c k v"
| "lru_apply c (CDelete k) = lru_Delete c k"

definition lru_run :: "lru \<Rightarrow> lru_op list \<Rightarrow> lru" where
  "lru_run c ops = foldl lru_apply c ops"

lemma lru_apply_ok: "lru_ok c \<Longrightarrow> lru_ok (lru_apply c op)"
  by (cases op) (simp_all add: lru.invar_get lru.invar_put lru.invar_del)

lemma lru_run_ok: "lru_ok c \<Longrightarrow> lru_ok (lru_run c ops)"
  unfolding lru_run_def by (induction ops arbitrary: c) (auto simp: lru_apply_ok)

lemma cap_lru_run [simp]: "cap (lru_run c ops) = cap c"
proof -
  have "cap (lru_apply c op) = cap c" for c op by (cases op) simp_all
  then show ?thesis unfolding lru_run_def by (induction ops arbitrary: c) auto
qed

section \<open>Properties\<close>

text \<open>Whatever sequence of \<open>Get\<close>, \<open>Set\<close> and \<open>Delete\<close> is run on a new cache of non-negative
  capacity, the list and the map of the cache agree (\<open>lru_wf\<close>: distinct keys, one element per key,
  \<open>used\<close> the sum of the lengths of the cached values) and the bytes held never exceed the
  capacity.\<close>

theorem lru_run_within_capacity:
  assumes "0 \<le> n"
  shows "lru_wf (lru_run (NewLRUCache n) ops) \<and> weight (recency (lru_run (NewLRUCache n) ops)) \<le> n"
proof -
  have ok: "lru_ok (lru_run (NewLRUCache n) ops)"
    using assms by (intro lru_run_ok NewLRUCache_ok)
  moreover have "cap (lru_run (NewLRUCache n) ops) = n" by (simp add: NewLRUCache_def)
  ultimately show ?thesis using used_weight by (metis lru_ok_def)
qed

theorem lru_run_within_capacity_witness:
  "weight (recency (lru_run (NewLRUCache 4) [CSet ''a'' ''xx'', CSet ''b'' ''yy'', CGet ''a'', CSet ''c'' ''z''])) \<le> 4"
  using lru_run_within_capacity [of 4 "[CSet ''a'' ''xx'', CSet ''b'' ''yy'', CGet ''a'', CSet ''c'' ''z'']"]
  by simp

text \<open>C28. \<open>Set\<close> refines its specification on the recency order: a value that fits goes to the front
  in place of any older binding of its key, and eviction keeps exactly the longest prefix of the
  recency order whose total size is within the capacity, so the value just stored is what
  \<open>Get\<close> returns next.\<close>

theorem lru_Set_refines:
  assumes "lru_ok c" and "int (length v) \<le> cap c"
  shows "recency (lru_Set c k v) = fitting (cap c) ((k, v) # without k (recency c)) \<and>
    fst (lru_Get (lru_Set c k v) k) = Some v"
proof -
  have "recency (lru_Set c k v) = fitting (cap c) ((k, v) # without k (recency c))"
    using assms recency_Set [OF assms(1), of k v] by (simp add: spec_set_def)
  moreover from this have "map_of (recency (lru_Set c k v)) k = Some v"
    using assms(2) by simp
  ultimately show ?thesis
    using lru.get_value [OF lru.invar_put [OF assms(1)]] by simp
qed

theorem lru_Set_refines_witness:
  "fst (lru_Get (lru_Set (lru_Set (NewLRUCache 3) ''a'' ''xx'') ''b'' ''yy'') ''b'') = Some ''yy''"
  by (rule lru_Set_refines [THEN conjunct2]) (simp_all add: lru_Set_ok NewLRUCache_ok, simp add: NewLRUCache_def)

text \<open>Invalidation keeps the cache coherent: if every cached value is the store's value, then
  after the object under \<open>k\<close> is replaced or removed and \<open>Delete\<close> is called for \<open>k\<close>, every cached
  value is again the store's value, and a later hit returns what the store holds.\<close>

theorem lru_Delete_keeps_coherent:
  assumes "lru_ok c" and "coherent store (map_of (recency c))"
  shows "coherent (store(k := x)) (map_of (recency (lru_Delete c k))) \<and>
    (\<forall>k' v. fst (lru_Get (lru_Delete c k) k') = Some v \<longrightarrow> (store(k := x)) k' = Some v)"
proof -
  have "coherent (store(k := x)) (map_of (recency (lru_Delete c k)))"
    using assms by (rule lru.invalidate_coherent)
  moreover from this have "(store(k := x)) k' = Some v"
    if "fst (lru_Get (lru_Delete c k) k') = Some v" for k' v
    using that lru.hit_from_store lru.invar_del [OF assms(1)] by blast
  ultimately show ?thesis by blast
qed

theorem lru_Delete_keeps_coherent_witness:
  "coherent (Map.empty(''a'' := Some ''new'')) (map_of (recency (lru_Delete (lru_Set (NewLRUCache 9) ''a'' ''old'') ''a'')))"
proof -
  have ok: "lru_ok (lru_Set (NewLRUCache 9) ''a'' ''old'')"
    by (simp add: lru_Set_ok NewLRUCache_ok)
  have "recency (lru_Set (NewLRUCache 9) ''a'' ''old'') = [(''a'', ''old'')]"
    using recency_Set [OF NewLRUCache_ok, of 9 "''a''" "''old''"]
    by (simp add: spec_set_def without_def recency_def NewLRUCache_def)
  then have "coherent (Map.empty(''a'' \<mapsto> ''old'')) (map_of (recency (lru_Set (NewLRUCache 9) ''a'' ''old'')))"
    by (simp add: coherent_def)
  from lru_Delete_keeps_coherent [OF ok this, of "''a''" "Some ''new''"] show ?thesis by simp
qed

section \<open>The eviction loop\<close>

text \<open>One round of the loop, while its condition holds.\<close>

definition evict_round :: "lru \<Rightarrow> lru" where
  "evict_round c = removeElement c (last (ll c))"

lemma length_evict_round: "ll c \<noteq> [] \<Longrightarrow> length (ll (evict_round c)) < length (ll c)"
  by (simp add: evict_round_def ll_removeElement list_Remove_last_shorter)

lemma evict_rounds:
  "\<exists>n \<le> length (ll c). evict c = (evict_round ^^ n) c \<and> (\<forall>m < n. used ((evict_round ^^ m) c) > cap c \<and> ll ((evict_round ^^ m) c) \<noteq> [])"
proof (induction c rule: evict.induct)
  case (1 c)
  show ?case
  proof (cases "used c > cap c \<and> ll c \<noteq> []")
    case False
    then show ?thesis by (intro exI [of _ 0]) (auto simp: evict.simps [of c])
  next
    case True
    let ?c = "evict_round c"
    have cap: "cap ?c = cap c" by (simp add: evict_round_def removeElement_def case_prod_beta)
    from "1.IH" [folded evict_round_def] True obtain n where n: "n \<le> length (ll ?c)" "evict ?c = (evict_round ^^ n) ?c"
      "\<forall>m < n. used ((evict_round ^^ m) ?c) > cap ?c \<and> ll ((evict_round ^^ m) ?c) \<noteq> []"
      by auto
    have "evict c = (evict_round ^^ Suc n) c"
      using True n(2) by (simp add: evict.simps [of c] evict_round_def [of c, symmetric] funpow_swap1)
    moreover have "used ((evict_round ^^ m) c) > cap c \<and> ll ((evict_round ^^ m) c) \<noteq> []" if "m < Suc n" for m
      using that n(3) True cap by (cases m) (auto simp: funpow_swap1)
    moreover have "Suc n \<le> length (ll c)" using n(1) length_evict_round [of c] True by linarith
    ultimately show ?thesis by blast
  qed
qed

text \<open>C29. The eviction loop ends, and does no more than it has to: from a well-formed cache it runs its body at most once per entry, each time from a state that is over the
  capacity and not empty, and stops within the capacity; if the cache was within it from the start, nothing is evicted.
\<close>

theorem evict_terminates:
  assumes "lru_wf c" "0 \<le> cap c"
  shows "\<exists>n \<le> length (ll c). evict c = (evict_round ^^ n) c \<and> used (evict c) \<le> cap c
     \<and> (\<forall>m < n. used ((evict_round ^^ m) c) > cap c \<and> ll ((evict_round ^^ m) c) \<noteq> [])"
proof -
  have "cap ((evict_round ^^ n) c) = cap c" for n
    by (induction n) (simp_all add: evict_round_def removeElement_def case_prod_beta)
  then have "used (evict c) \<le> cap c"
    using evict_ok [OF assms] evict_rounds [of c] by (metis lru_ok_def)
  with evict_rounds [of c] show ?thesis by blast
qed

definition sample_overfull :: lru where
  "sample_overfull = \<lparr>cap = 3, used = 5, ll = [(1, \<lparr>ekey = ''b'', evalue = ''xy'', esize = 2\<rparr>), (0, \<lparr>ekey = ''a'', evalue = ''xyz'', esize = 3\<rparr>)],
     items = [''a'' \<mapsto> 0, ''b'' \<mapsto> 1], next_elem = 2\<rparr>"

theorem evict_terminates_witness: "used (evict sample_overfull) \<le> 3"
proof -
  have "lru_wf sample_overfull" "0 \<le> cap sample_overfull" "cap sample_overfull = 3"
    by (auto simp: lru_wf_def sample_overfull_def split: if_splits)
  with evict_terminates [of sample_overfull] show ?thesis by auto
qed

end
