(* ===== verification/Go_Strings.thy ===== *)
theory Go_Strings
  imports Prelude
begin

text \<open>
  The string functions of Go's standard library that the handlers call, over byte strings:
  the two digit patterns (Go's \<open>regexp\<close> and Postgres's \<open>~\<close>), \<open>strings.TrimSuffix\<close>,
  \<open>strings.EqualFold\<close> and the case folding of \<open>citext\<close> (on ASCII letters), \<open>strings.SplitN\<close> with a
  limit of two, \<open>strings.TrimSpace\<close> (on ASCII white space) and \<open>strconv.ParseInt(s, 10, 64)\<close>.
\<close>

section \<open>Digits and patterns\<close>

definition is_digit :: "char \<Rightarrow> bool" where
  "is_digit c \<longleftrightarrow> 48 \<le> (of_char c :: nat) \<and> (of_char c :: nat) \<le> 57"

text \<open>\<^verbatim>\<open>issueIDPattern = ^\d{4}$\<close>: in Go's syntax \<open>\d\<close> is an ASCII digit and \<open>$\<close> without the
  \<open>m\<close> flag is the end of the text.\<close>

definition issueIDPattern_MatchString :: "string \<Rightarrow> bool" where
  "issueIDPattern_MatchString s \<longleftrightarrow> length s = 4 \<and> list_all is_digit s"

text \<open>The filter of \<open>IssuesForProject\<close>: \<^verbatim>\<open>path ~ '^[0-9]{4}\.md$'\<close>.\<close>

definition issue_path_pattern :: "string \<Rightarrow> bool" where
  "issue_path_pattern p \<longleftrightarrow> issueIDPattern_MatchString (take 4 p) \<and> drop 4 p = ''.md''"

section \<open>\<open>strings\<close>\<close>

definition HasSuffix :: "string \<Rightarrow> string \<Rightarrow> bool" where
  "HasSuffix s suf \<longleftrightarrow> length suf \<le> length s \<and> drop (length s - length suf) s = suf"

definition TrimSuffix :: "string \<Rightarrow> string \<Rightarrow> string" where
  "TrimSuffix s suf = (if HasSuffix s suf then take (length s - length suf) s else s)"

definition lower_char :: "char \<Rightarrow> char" where
  "lower_char c = (let n = (of_char c :: nat) in if 65 \<le> n \<and> n \<le> 90 then char_of (n + 32) else c)"

definition ToLower :: "string \<Rightarrow> string" where
  "ToLower s = map lower_char s"

definition EqualFold :: "string \<Rightarrow> string \<Rightarrow> bool" where
  "EqualFold a b \<longleftrightarrow> ToLower a = ToLower b"

text \<open>\<open>strings.SplitN(s, sep, 2)\<close> for a one-byte separator.\<close>

definition SplitN2 :: "string \<Rightarrow> char \<Rightarrow> string list" where
  "SplitN2 s sep =
     (if sep \<in> set s
      then [takeWhile (\<lambda>c. c \<noteq> sep) s, tl (dropWhile (\<lambda>c. c \<noteq> sep) s)]
      else [s])"

definition is_space :: "char \<Rightarrow> bool" where
  "is_space c \<longleftrightarrow> (of_char c :: nat) \<in> {9, 10, 11, 12, 13, 32}"

definition TrimSpace :: "string \<Rightarrow> string" where
  "TrimSpace s = rev (dropWhile is_space (rev (dropWhile is_space s)))"

section \<open>\<open>strconv\<close>\<close>

definition digits_value :: "string \<Rightarrow> int" where
  "digits_value s = foldl (\<lambda>a c. 10 * a + (int (of_char c) - 48)) 0 s"

definition ParseUint10 :: "string \<Rightarrow> int option" where
  "ParseUint10 s = (if s \<noteq> [] \<and> list_all is_digit s then Some (digits_value s) else None)"

text \<open>\<open>strconv.ParseInt(s, 10, 64)\<close>: an optional sign, then decimal digits; \<open>None\<close> stands for both
  \<open>ErrSyntax\<close> and \<open>ErrRange\<close>.\<close>

definition ParseInt64 :: "string \<Rightarrow> int option" where
  "ParseInt64 s =
     (let neg = (s \<noteq> [] \<and> hd s = CHR ''-'');
          rest = (if s \<noteq> [] \<and> (hd s = CHR ''-'' \<or> hd s = CHR ''+'') then tl s else s)
      in case ParseUint10 rest of
           None \<Rightarrow> None
         | Some n \<Rightarrow>
             if \<not> neg \<and> n \<ge> 2 ^ 63 then None
             else if neg \<and> n > 2 ^ 63 then None
             else Some (if neg then - n else n))"

section \<open>Facts\<close>

lemma digits_value_nonneg: "list_all is_digit s \<Longrightarrow> 0 \<le> digits_value s"
proof (induction s rule: rev_induct)
  case (snoc c s)
  have "48 \<le> (of_char c :: nat)" using snoc.prems by (simp add: is_digit_def)
  then show ?case using snoc by (simp add: digits_value_def)
qed (simp add: digits_value_def)

lemma ParseInt64_range: "ParseInt64 s = Some n \<Longrightarrow> - (2 ^ 63) \<le> n \<and> n < 2 ^ 63"
  using digits_value_nonneg
  by (fastforce simp: ParseInt64_def ParseUint10_def Let_def split: option.splits if_splits)

lemma HasSuffix_append [simp]: "HasSuffix (s @ suf) suf"
  by (simp add: HasSuffix_def)

lemma TrimSuffix_append [simp]: "TrimSuffix (s @ suf) suf = s"
  by (simp add: TrimSuffix_def)

lemma issue_path_pattern_iff:
  "issue_path_pattern p \<longleftrightarrow> (\<exists>d. issueIDPattern_MatchString d \<and> p = d @ ''.md'')"
  by (auto simp: issue_path_pattern_def issueIDPattern_MatchString_def)
     (metis append_take_drop_id length_take min.absorb2)

lemma issue_path_round_trip:
  "issueIDPattern_MatchString d \<Longrightarrow>
   issue_path_pattern (d @ ''.md'') \<and> TrimSuffix (d @ ''.md'') ''.md'' = d"
  by (auto simp: issue_path_pattern_iff)

lemma issueID_no_slash: "issueIDPattern_MatchString d \<Longrightarrow> CHR ''/'' \<notin> set d"
  by (auto simp: issueIDPattern_MatchString_def list_all_iff is_digit_def)

lemma EqualFold_refl [simp]: "EqualFold s s"
  by (simp add: EqualFold_def)

lemma EqualFold_sym: "EqualFold a b \<longleftrightarrow> EqualFold b a"
  by (auto simp: EqualFold_def)

lemma SplitN2_join: "SplitN2 s c = [a, b] \<Longrightarrow> s = a @ c # b"
proof -
  assume eq: "SplitN2 s c = [a, b]"
  then have "c \<in> set s" by (auto simp: SplitN2_def split: if_splits)
  then have "dropWhile (\<lambda>x. x \<noteq> c) s \<noteq> []" "hd (dropWhile (\<lambda>x. x \<noteq> c) s) = c"
    using hd_dropWhile [of "\<lambda>x. x \<noteq> c" s] by auto
  then have "c # tl (dropWhile (\<lambda>x. x \<noteq> c) s) = dropWhile (\<lambda>x. x \<noteq> c) s"
    by (metis list.collapse)
  with eq \<open>c \<in> set s\<close> show ?thesis
    by (auto simp: SplitN2_def)
qed

end
