(* ===== verification/Wire.thy ===== *)
theory Wire
  imports Go_Strings
begin

text \<open>
  The wire protocol: the structs of \<^verbatim>\<open>internal/wire/types.go\<close>, the JSON values they are marshalled
  to by \<open>encoding/json\<close> (field names and \<open>omitempty\<close> from the struct tags), and the decoding of the
  two client messages the server reads (\<open>postIssueRequest\<close> in api/v1/write.go and \<open>incomingMsg\<close> in
  ws/handler.go).

  JSON documents are values of the type \<open>json\<close>; the text they are written as is not modelled
  (an \<open>events.payload\<close> is \<open>jsonb\<close>, so what is kept of a document is its value). Decoding follows
  \<open>json.Unmarshal\<close>: members are assigned in order, keys match up to the case of ASCII letters,
  unknown members are skipped, \<open>null\<close> leaves a field as it is, a value of another kind is an error. The replacement of
  invalid UTF-8 in strings, which \<open>json.Marshal\<close> makes, is left out.

  Shown: \<open>wire.SubscribeMsg\<close>, which declares \<open>since\<close> as a number,
  is not accepted by the server once \<open>since\<close> is set.
\<close>

section \<open>JSON values\<close>

datatype json =
    JNull
  | JBool bool
  | JNum int
  | JStr string
  | JArr "json list"
  | JObj "(string \<times> json) list"

text \<open>A pointer field with \<open>omitempty\<close>: left out when nil.\<close>

definition omitempty :: "string \<Rightarrow> ('a \<Rightarrow> json) \<Rightarrow> 'a option \<Rightarrow> (string \<times> json) list" where
  "omitempty name f v = (case v of None \<Rightarrow> [] | Some x \<Rightarrow> [(name, f x)])"

section \<open>Structs and their encodings\<close>

record HostInfo =
  hi_displayName :: string
  hi_folderCount :: int

record FolderInfo =
  fi_id :: string
  fi_slug :: string
  fi_displayName :: string
  fi_repoUrl :: string

record IssueMetadata =
  im_id :: string
  im_etag :: "string option"

record SubscribeMsg =
  sm_folderId :: string
  sm_since :: "int option"

record IssueChangedEvent =
  ic_folderId :: string
  ic_issueId :: string
  ic_op :: string
  ic_etag :: "string option"
  ic_actor :: string
  ic_ts :: string

record AttachmentChangedEvent =
  ac_folderId :: string
  ac_issueId :: string
  ac_name :: string
  ac_op :: string
  ac_etag :: "string option"
  ac_actor :: string
  ac_ts :: string

record ProjectMetaChangedEvent =
  pm_folderId :: string
  pm_etag :: "string option"
  pm_actor :: string
  pm_ts :: string

record AccessRevokedEvent =
  ar_folderId :: string

definition enc_HostInfo :: "HostInfo \<Rightarrow> json" where
  "enc_HostInfo h = JObj [(''displayName'', JStr (hi_displayName h)), (''folderCount'', JNum (hi_folderCount h))]"

definition enc_FolderInfo :: "FolderInfo \<Rightarrow> json" where
  "enc_FolderInfo f =
     JObj [(''id'', JStr (fi_id f)), (''slug'', JStr (fi_slug f)),
           (''displayName'', JStr (fi_displayName f)), (''repoUrl'', JStr (fi_repoUrl f))]"

definition enc_IssueMetadata :: "IssueMetadata \<Rightarrow> json" where
  "enc_IssueMetadata m = JObj ((''id'', JStr (im_id m)) # omitempty ''etag'' JStr (im_etag m))"

definition enc_SubscribeMsg :: "SubscribeMsg \<Rightarrow> json" where
  "enc_SubscribeMsg m =
     JObj ([(''type'', JStr ''subscribe''), (''folderId'', JStr (sm_folderId m))]
           @ omitempty ''since'' JNum (sm_since m))"

definition enc_IssueChangedEvent :: "IssueChangedEvent \<Rightarrow> json" where
  "enc_IssueChangedEvent e =
     JObj ([(''type'', JStr ''issueChanged''), (''folderId'', JStr (ic_folderId e)),
            (''issueId'', JStr (ic_issueId e)), (''op'', JStr (ic_op e))]
           @ omitempty ''etag'' JStr (ic_etag e)
           @ [(''actor'', JStr (ic_actor e)), (''ts'', JStr (ic_ts e))])"

definition enc_AttachmentChangedEvent :: "AttachmentChangedEvent \<Rightarrow> json" where
  "enc_AttachmentChangedEvent e =
     JObj ([(''type'', JStr ''attachmentChanged''), (''folderId'', JStr (ac_folderId e)),
            (''issueId'', JStr (ac_issueId e)), (''name'', JStr (ac_name e)), (''op'', JStr (ac_op e))]
           @ omitempty ''etag'' JStr (ac_etag e)
           @ [(''actor'', JStr (ac_actor e)), (''ts'', JStr (ac_ts e))])"

definition enc_ProjectMetaChangedEvent :: "ProjectMetaChangedEvent \<Rightarrow> json" where
  "enc_ProjectMetaChangedEvent e =
     JObj ([(''type'', JStr ''projectMetaChanged''), (''folderId'', JStr (pm_folderId e))]
           @ omitempty ''etag'' JStr (pm_etag e)
           @ [(''actor'', JStr (pm_actor e)), (''ts'', JStr (pm_ts e))])"

definition enc_AccessRevokedEvent :: "AccessRevokedEvent \<Rightarrow> json" where
  "enc_AccessRevokedEvent e =
     JObj [(''type'', JStr ''accessRevoked''), (''folderId'', JStr (ar_folderId e))]"

text \<open>The two messages built from a \<open>map[string]string\<close> (keys in sorted order).\<close>

definition msg_subscribed :: "string \<Rightarrow> json" where
  "msg_subscribed folder = JObj [(''folderId'', JStr folder), (''type'', JStr ''subscribed'')]"

definition msg_resyncRequired :: "string \<Rightarrow> json" where
  "msg_resyncRequired folder = JObj [(''folderId'', JStr folder), (''type'', JStr ''resyncRequired'')]"

section \<open>Decoding\<close>

fun assign_string :: "string option \<Rightarrow> json \<Rightarrow> string option" where
  "assign_string None _ = None"
| "assign_string (Some cur) (JStr s) = Some s"
| "assign_string (Some cur) JNull = Some cur"
| "assign_string (Some cur) _ = None"

fun assign_string_ptr :: "string option option \<Rightarrow> json \<Rightarrow> string option option" where
  "assign_string_ptr None _ = None"
| "assign_string_ptr (Some cur) (JStr s) = Some (Some s)"
| "assign_string_ptr (Some cur) JNull = Some None"
| "assign_string_ptr (Some cur) _ = None"

definition field_values :: "string \<Rightarrow> (string \<times> json) list \<Rightarrow> json list" where
  "field_values name kvs = map snd (filter (\<lambda>(k, _). EqualFold k name) kvs)"

definition dec_string :: "string \<Rightarrow> (string \<times> json) list \<Rightarrow> string option" where
  "dec_string name kvs = foldl assign_string (Some '''') (field_values name kvs)"

definition dec_string_ptr :: "string \<Rightarrow> (string \<times> json) list \<Rightarrow> string option option" where
  "dec_string_ptr name kvs = foldl assign_string_ptr (Some None) (field_values name kvs)"

record postIssueRequest =
  pr_id :: string
  pr_body :: string

definition dec_postIssueRequest :: "json \<Rightarrow> postIssueRequest option" where
  "dec_postIssueRequest j =
     (case j of
        JObj kvs \<Rightarrow>
          (case (dec_string ''id'' kvs, dec_string ''body'' kvs) of
             (Some i, Some b) \<Rightarrow> Some \<lparr>pr_id = i, pr_body = b\<rparr>
           | _ \<Rightarrow> None)
      | JNull \<Rightarrow> Some \<lparr>pr_id = '''', pr_body = ''''\<rparr>
      | _ \<Rightarrow> None)"

record incomingMsg =
  in_type :: string
  in_folderId :: string
  in_since :: "string option"

definition dec_incomingMsg :: "json \<Rightarrow> incomingMsg option" where
  "dec_incomingMsg j =
     (case j of
        JObj kvs \<Rightarrow>
          (case (dec_string ''type'' kvs, dec_string ''folderId'' kvs, dec_string_ptr ''since'' kvs) of
             (Some t, Some f, Some s) \<Rightarrow> Some \<lparr>in_type = t, in_folderId = f, in_since = s\<rparr>
           | _ \<Rightarrow> None)
      | JNull \<Rightarrow> Some \<lparr>in_type = '''', in_folderId = '''', in_since = None\<rparr>
      | _ \<Rightarrow> None)"

lemmas wire_enc =
  enc_IssueChangedEvent_def enc_AttachmentChangedEvent_def enc_ProjectMetaChangedEvent_def
  enc_AccessRevokedEvent_def enc_SubscribeMsg_def msg_subscribed_def msg_resyncRequired_def

lemmas wire_dec = dec_string_def dec_string_ptr_def field_values_def EqualFold_def ToLower_def
  lower_char_def omitempty_def Let_def

section \<open>Properties\<close>

text \<open>The declared client message and the accepted one differ: the encoding of
  \<open>wire.SubscribeMsg\<close> is decoded by the read loop exactly when it carries no \<open>since\<close>, because
  \<open>incomingMsg.Since\<close> is a string and \<open>SubscribeMsg.Since\<close> a number.\<close>

theorem SubscribeMsg_decoded_iff_no_since:
  "dec_incomingMsg (enc_SubscribeMsg m) =
     (if sm_since m = None
      then Some \<lparr>in_type = ''subscribe'', in_folderId = sm_folderId m, in_since = None\<rparr>
      else None)"
  by (cases "sm_since m") (simp_all add: dec_incomingMsg_def enc_SubscribeMsg_def wire_dec)

end
