(* ===== verification/Hub.thy ===== *)
theory Hub
  imports Wire
begin

text \<open>
  The WebSocket hub: \<^verbatim>\<open>internal/ws/hub.go\<close> (the \<open>Hub\<close>, its event loop \<open>Run\<close>, \<open>Broadcast\<close>,
  \<open>BroadcastAccessRevoked\<close>) and the per-connection loops of \<^verbatim>\<open>internal/ws/handler.go\<close>.

  A client object lives on the heap under a number, whether or not it is registered. A Go channel
  is its buffer (oldest first) with its capacity; a send inside \<open>select\<close> with a \<open>default\<close> is
  \<open>try_send\<close>, which panics on a closed channel. A blocking send on a full channel completes when
  the only receiver, the event loop, takes the oldest element; that is how \<open>Broadcast\<close> is defined.
  The iteration order of \<open>range h.clients\<close> is that of the list \<open>h_clients\<close>; a theorem shows that
  it does not matter. The goroutines interleave in the step relation \<open>hub_step\<close>.

  Shown: the invariant of every reachable state (registered channels are open, every buffer is
  within its capacity, an open registered client is never closed twice); the exact effect of one
  fan-out on every client; independence of the iteration order; and two defects of the
  interleaving (a send on a closed channel, a dead client that stays registered).
\<close>

section \<open>State\<close>

record client =
  c_userID :: string
  c_send :: "json list"
  c_closed :: bool
  c_subs :: "string set"
  c_out :: "json list"
  c_reading :: bool

record hub =
  h_heap :: "nat \<Rightarrow> client"
  h_next :: nat
  h_clients :: "nat list"
  h_register :: "nat list"
  h_unregister :: "nat list"
  h_broadcast :: "(string \<times> json) list"
  h_pending :: "(nat \<times> string \<times> int) list"
  h_replays :: "(nat \<times> json list) list"
  h_crashed :: bool

definition sendBufSize :: nat where "sendBufSize = 256"

definition broadcastBufSize :: nat where "broadcastBufSize = 256"

definition registerBufSize :: nat where "registerBufSize = 64"

definition new_client :: "string \<Rightarrow> client" where
  "new_client uid =
     \<lparr>c_userID = uid, c_send = [], c_closed = False, c_subs = {}, c_out = [], c_reading = True\<rparr>"

definition NewHub :: hub where
  "NewHub =
     \<lparr>h_heap = (\<lambda>_. new_client ''''), h_next = 0, h_clients = [], h_register = [],
      h_unregister = [], h_broadcast = [], h_pending = [], h_replays = [], h_crashed = False\<rparr>"

definition upd_client :: "nat \<Rightarrow> (client \<Rightarrow> client) \<Rightarrow> hub \<Rightarrow> hub" where
  "upd_client i f h = h\<lparr>h_heap := (h_heap h)(i := f (h_heap h i))\<rparr>"

section \<open>Channels\<close>

datatype send_result = Sent | Full | Panicked

text \<open>\<^verbatim>\<open>select { case c.send <- p: ... default: ... }\<close>\<close>

definition try_send :: "hub \<Rightarrow> nat \<Rightarrow> json \<Rightarrow> send_result \<times> hub" where
  "try_send h i p =
     (if c_closed (h_heap h i) then (Panicked, h)
      else if length (c_send (h_heap h i)) < sendBufSize
           then (Sent, upd_client i (\<lambda>c. c\<lparr>c_send := c_send c @ [p]\<rparr>) h)
           else (Full, h))"

section \<open>The event loop\<close>

text \<open>\<^verbatim>\<open>case c := <-h.register\<close>\<close>

definition run_register :: "hub \<Rightarrow> hub" where
  "run_register h =
     (case h_register h of
        [] \<Rightarrow> h
      | i # is \<Rightarrow> h\<lparr>h_register := is, h_clients := List.insert i (h_clients h)\<rparr>)"

text \<open>\<^verbatim>\<open>if _, ok := h.clients[c]; ok { delete(h.clients, c); close(c.send) }\<close>\<close>

definition drop_client :: "nat \<Rightarrow> hub \<Rightarrow> hub" where
  "drop_client i h =
     (if i \<in> set (h_clients h)
      then upd_client i (\<lambda>c. c\<lparr>c_closed := True\<rparr>) (h\<lparr>h_clients := removeAll i (h_clients h)\<rparr>)
      else h)"

text \<open>\<^verbatim>\<open>case c := <-h.unregister\<close>\<close>

definition run_unregister :: "hub \<Rightarrow> hub" where
  "run_unregister h =
     (case h_unregister h of
        [] \<Rightarrow> h
      | i # is \<Rightarrow> drop_client i (h\<lparr>h_unregister := is\<rparr>))"

text \<open>One round of the loop over the clients in \<^verbatim>\<open>case ev := <-h.broadcast\<close>.\<close>

definition deliver :: "string \<Rightarrow> json \<Rightarrow> nat \<Rightarrow> hub \<Rightarrow> hub" where
  "deliver pid p i h =
     (if pid \<in> c_subs (h_heap h i) then
        (case try_send h i p of
           (Sent, h1) \<Rightarrow> h1
         | (Full, h1) \<Rightarrow> drop_client i h1
         | (Panicked, h1) \<Rightarrow> h1\<lparr>h_crashed := True\<rparr>)
      else h)"

definition run_broadcast :: "hub \<Rightarrow> hub" where
  "run_broadcast h =
     (case h_broadcast h of
        [] \<Rightarrow> h
      | (pid, p) # evs \<Rightarrow> fold (deliver pid p) (h_clients h) (h\<lparr>h_broadcast := evs\<rparr>))"

definition hub_Broadcast :: "hub \<Rightarrow> string \<Rightarrow> json \<Rightarrow> hub" where
  "hub_Broadcast h pid p =
     (let h1 = (if length (h_broadcast h) < broadcastBufSize then h else run_broadcast h)
      in h1\<lparr>h_broadcast := h_broadcast h1 @ [(pid, p)]\<rparr>)"

definition notify_revoked :: "string \<Rightarrow> string \<Rightarrow> nat \<Rightarrow> hub \<Rightarrow> hub" where
  "notify_revoked pid uid i h =
     (if pid \<in> c_subs (h_heap h i) \<and> c_userID (h_heap h i) = uid then
        (case try_send h i (enc_AccessRevokedEvent \<lparr>ar_folderId = pid\<rparr>) of
           (Panicked, h1) \<Rightarrow> h1\<lparr>h_crashed := True\<rparr>
         | (_, h1) \<Rightarrow> h1)
      else h)"

definition BroadcastAccessRevoked :: "hub \<Rightarrow> string \<Rightarrow> string \<Rightarrow> hub" where
  "BroadcastAccessRevoked h pid uid = fold (notify_revoked pid uid) (h_clients h) h"

section \<open>The connection loops\<close>

text \<open>The part of \<open>Handler\<close> after the upgrade: allocate the client and send it to the register
  channel, waiting for the event loop when that is full.\<close>

definition ws_connect :: "hub \<Rightarrow> string \<Rightarrow> hub" where
  "ws_connect h uid =
     (let i = h_next h;
          h1 = h\<lparr>h_heap := (h_heap h)(i := new_client uid), h_next := Suc i\<rparr>;
          h2 = (if length (h_register h1) < registerBufSize then h1 else run_register h1)
      in h2\<lparr>h_register := h_register h2 @ [i]\<rparr>)"

text \<open>The deferred function of \<open>readLoop\<close>.\<close>

definition readLoop_exit :: "hub \<Rightarrow> nat \<Rightarrow> hub" where
  "readLoop_exit h i =
     (let h1 = upd_client i (\<lambda>c. c\<lparr>c_reading := False\<rparr>) h;
          h2 = (if length (h_unregister h1) < registerBufSize then h1 else run_unregister h1)
      in h2\<lparr>h_unregister := h_unregister h2 @ [i]\<rparr>)"

text \<open>The body of \<open>readLoop\<close> for one message that \<open>ReadMessage\<close> returned, already parsed as JSON
  (\<open>None\<close> when it is not JSON). The replay goroutine it starts is queued in \<open>h_pending\<close> until its
  query returns. A panic in the body unwinds through the deferred function; \<open>net/http\<close> recovers
  it.\<close>

definition readLoop_msg :: "hub \<Rightarrow> nat \<Rightarrow> json option \<Rightarrow> hub" where
  "readLoop_msg h i msg =
     (case Option.bind msg dec_incomingMsg of
        None \<Rightarrow> h
      | Some m \<Rightarrow>
          if in_type m = ''subscribe'' then
            (let h1 = upd_client i (\<lambda>c. c\<lparr>c_subs := insert (in_folderId m) (c_subs c)\<rparr>) h in
             case try_send h1 i (msg_subscribed (in_folderId m)) of
               (Panicked, h2) \<Rightarrow> readLoop_exit h2 i
             | (_, h2) \<Rightarrow>
                 (case Option.bind (in_since m) ParseInt64 of
                    None \<Rightarrow> h2
                  | Some n \<Rightarrow> h2\<lparr>h_pending := h_pending h2 @ [(i, in_folderId m, n)]\<rparr>))
          else if in_type m = ''unsubscribe'' then
            upd_client i (\<lambda>c. c\<lparr>c_subs := c_subs c - {in_folderId m}\<rparr>) h
          else h)"

text \<open>One round of \<open>writeLoop\<close> that receives a payload.\<close>

definition writeLoop_step :: "hub \<Rightarrow> nat \<Rightarrow> hub" where
  "writeLoop_step h i =
     (case c_send (h_heap h i) of
        [] \<Rightarrow> h
      | p # ps \<Rightarrow> upd_client i (\<lambda>c. c\<lparr>c_send := ps, c_out := c_out c @ [p]\<rparr>) h)"

text \<open>One send of a replay goroutine; a panic there is not recovered and ends the process.\<close>

definition replay_step :: "hub \<Rightarrow> nat \<Rightarrow> hub" where
  "replay_step h n =
     (if n < length (h_replays h) then
        (case h_replays h ! n of
           (i, []) \<Rightarrow> h
         | (i, p # ps) \<Rightarrow>
             (case try_send h i p of
                (Panicked, h1) \<Rightarrow> h1\<lparr>h_crashed := True\<rparr>
              | (_, h1) \<Rightarrow> h1\<lparr>h_replays := (h_replays h1)[n := (i, ps)]\<rparr>))
      else h)"

section \<open>Interleaving\<close>

text \<open>One atomic step of the system: the event loop takes one case of its \<open>select\<close>, a connection
  is accepted, its read loop handles a message or ends, its write loop sends a frame, a request
  handler broadcasts, the admin console revokes, a replay goroutine that a subscription
  started gets its rows (\<open>ps\<close>, any payloads here; the query is in the theory \<open>Replay\<close>) or sends. Nothing happens after a crash.\<close>

inductive hub_step :: "hub \<Rightarrow> hub \<Rightarrow> bool" where
  register: "\<not> h_crashed h \<Longrightarrow> hub_step h (run_register h)"
| unregister: "\<not> h_crashed h \<Longrightarrow> hub_step h (run_unregister h)"
| broadcast: "\<not> h_crashed h \<Longrightarrow> hub_step h (run_broadcast h)"
| connect: "\<not> h_crashed h \<Longrightarrow> hub_step h (ws_connect h uid)"
| message: "\<not> h_crashed h \<Longrightarrow> i < h_next h \<Longrightarrow> c_reading (h_heap h i) \<Longrightarrow>
    hub_step h (readLoop_msg h i msg)"
| disconnect: "\<not> h_crashed h \<Longrightarrow> i < h_next h \<Longrightarrow> c_reading (h_heap h i) \<Longrightarrow>
    hub_step h (readLoop_exit h i)"
| write_frame: "\<not> h_crashed h \<Longrightarrow> i < h_next h \<Longrightarrow> hub_step h (writeLoop_step h i)"
| publish: "\<not> h_crashed h \<Longrightarrow> hub_step h (hub_Broadcast h pid p)"
| revoke: "\<not> h_crashed h \<Longrightarrow> hub_step h (BroadcastAccessRevoked h pid uid)"
| replay_start: "\<not> h_crashed h \<Longrightarrow> (i, f, n) \<in> set (h_pending h) \<Longrightarrow>
    hub_step h (h\<lparr>h_pending := remove1 (i, f, n) (h_pending h), h_replays := h_replays h @ [(i, ps)]\<rparr>)"
| replay: "\<not> h_crashed h \<Longrightarrow> hub_step h (replay_step h n)"

inductive hub_reachable :: "hub \<Rightarrow> bool" where
  start: "hub_reachable NewHub"
| step: "hub_reachable h \<Longrightarrow> hub_step h h' \<Longrightarrow> hub_reachable h'"

lemmas reach_by =
  hub_reachable.step [OF _ hub_step.register] hub_reachable.step [OF _ hub_step.unregister]
  hub_reachable.step [OF _ hub_step.broadcast] hub_reachable.step [OF _ hub_step.connect]
  hub_reachable.step [OF _ hub_step.message] hub_reachable.step [OF _ hub_step.disconnect]
  hub_reachable.step [OF _ hub_step.publish] hub_reachable.step [OF _ hub_step.replay_start]
  hub_reachable.step [OF _ hub_step.replay] hub_reachable.start

section \<open>Closed form of the fan-out\<close>

text \<open>What one event does to one registered client.\<close>

definition slow :: "string \<Rightarrow> client \<Rightarrow> bool" where
  "slow pid c \<longleftrightarrow> pid \<in> c_subs c \<and> length (c_send c) \<ge> sendBufSize"

definition fan_out :: "string \<Rightarrow> json \<Rightarrow> client \<Rightarrow> client" where
  "fan_out pid p c =
     (if pid \<notin> c_subs c then c
      else if slow pid c then c\<lparr>c_closed := True\<rparr>
      else c\<lparr>c_send := c_send c @ [p]\<rparr>)"

definition fan_hub :: "string \<Rightarrow> json \<Rightarrow> nat list \<Rightarrow> hub \<Rightarrow> hub" where
  "fan_hub pid p xs h =
     h\<lparr>h_heap := (\<lambda>i. if i \<in> set xs then fan_out pid p (h_heap h i) else h_heap h i),
       h_clients := filter (\<lambda>i. \<not> (i \<in> set xs \<and> slow pid (h_heap h i))) (h_clients h)\<rparr>"

definition open_registered :: "hub \<Rightarrow> bool" where
  "open_registered h \<longleftrightarrow> (\<forall>i \<in> set (h_clients h). \<not> c_closed (h_heap h i))"

lemma deliver_registered:
  assumes "i \<in> set (h_clients h)" and "\<not> c_closed (h_heap h i)"
  shows "deliver pid p i h = fan_hub pid p [i] h"
proof (cases "slow pid (h_heap h i)")
  case True
  then have "removeAll i (h_clients h) = filter (\<lambda>j. \<not> (j = i \<and> slow pid (h_heap h j))) (h_clients h)"
    by (simp add: removeAll_filter_not_eq) (auto intro: filter_cong)
  with True assms show ?thesis
    by (intro hub.equality)
       (auto simp: deliver_def try_send_def drop_client_def upd_client_def fan_hub_def fan_out_def
          slow_def fun_eq_iff)
next
  case False
  then have "filter (\<lambda>j. \<not> (j = i \<and> slow pid (h_heap h j))) (h_clients h) = h_clients h"
    by (intro filter_True) auto
  with False assms show ?thesis
    by (intro hub.equality)
       (auto simp: deliver_def try_send_def upd_client_def fan_hub_def fan_out_def slow_def fun_eq_iff)
qed

lemma fan_hub_Cons:
  "x \<notin> set xs \<Longrightarrow> fan_hub pid p xs (fan_hub pid p [x] h) = fan_hub pid p (x # xs) h"
  by (intro hub.equality) (auto simp: fan_hub_def fun_eq_iff intro!: filter_cong)

lemma fold_deliver:
  "distinct xs \<Longrightarrow> set xs \<subseteq> set (h_clients h) \<Longrightarrow> open_registered h \<Longrightarrow>
   fold (deliver pid p) xs h = fan_hub pid p xs h"
proof (induction xs arbitrary: h)
  case Nil
  show ?case by (intro hub.equality) (simp_all add: fan_hub_def)
next
  case (Cons x xs)
  have x: "deliver pid p x h = fan_hub pid p [x] h"
    using Cons.prems by (intro deliver_registered) (auto simp: open_registered_def)
  have "set xs \<subseteq> set (h_clients (fan_hub pid p [x] h))"
    using Cons.prems(1,2) by (auto simp: fan_hub_def)
  moreover have "open_registered (fan_hub pid p [x] h)"
    using Cons.prems(3) by (auto simp: open_registered_def fan_hub_def fan_out_def)
  ultimately have "fold (deliver pid p) xs (fan_hub pid p [x] h) = fan_hub pid p xs (fan_hub pid p [x] h)"
    using Cons.prems(1) by (intro Cons.IH) simp
  then show ?case using Cons.prems(1) x by (simp add: fan_hub_Cons)
qed

text \<open>The same for the revocation notice: nothing but the buffers of the named user changes.\<close>

definition revoke_note :: "string \<Rightarrow> string \<Rightarrow> client \<Rightarrow> client" where
  "revoke_note pid uid c =
     (if pid \<in> c_subs c \<and> c_userID c = uid \<and> length (c_send c) < sendBufSize
      then c\<lparr>c_send := c_send c @ [enc_AccessRevokedEvent \<lparr>ar_folderId = pid\<rparr>]\<rparr> else c)"

definition revoke_hub :: "string \<Rightarrow> string \<Rightarrow> nat list \<Rightarrow> hub \<Rightarrow> hub" where
  "revoke_hub pid uid xs h =
     h\<lparr>h_heap := (\<lambda>i. if i \<in> set xs then revoke_note pid uid (h_heap h i) else h_heap h i)\<rparr>"

lemma fold_notify:
  "distinct xs \<Longrightarrow> (\<forall>i \<in> set xs. \<not> c_closed (h_heap h i)) \<Longrightarrow>
   fold (notify_revoked pid uid) xs h = revoke_hub pid uid xs h"
proof (induction xs arbitrary: h)
  case Nil
  show ?case by (intro hub.equality) (simp_all add: revoke_hub_def)
next
  case (Cons x xs)
  have x: "notify_revoked pid uid x h = revoke_hub pid uid [x] h"
    using Cons.prems
    by (intro hub.equality)
       (auto simp: notify_revoked_def try_send_def upd_client_def revoke_hub_def revoke_note_def fun_eq_iff)
  have "\<forall>i \<in> set xs. \<not> c_closed (h_heap (revoke_hub pid uid [x] h) i)"
    using Cons.prems by (auto simp: revoke_hub_def)
  then have "fold (notify_revoked pid uid) xs (revoke_hub pid uid [x] h)
      = revoke_hub pid uid xs (revoke_hub pid uid [x] h)"
    using Cons.prems(1) by (intro Cons.IH) simp_all
  also have "\<dots> = revoke_hub pid uid (x # xs) h"
    using Cons.prems(1) by (intro hub.equality) (auto simp: revoke_hub_def fun_eq_iff)
  finally show ?case by (simp add: x)
qed

section \<open>Invariant\<close>

definition hub_inv :: "hub \<Rightarrow> bool" where
  "hub_inv h \<longleftrightarrow>
     distinct (h_register h @ h_clients h) \<and>
     (\<forall>i \<in> set (h_register h @ h_clients h). i < h_next h \<and> \<not> c_closed (h_heap h i)) \<and>
     (\<forall>i. length (c_send (h_heap h i)) \<le> sendBufSize) \<and>
     length (h_broadcast h) \<le> broadcastBufSize \<and>
     length (h_register h) \<le> registerBufSize \<and> length (h_unregister h) \<le> registerBufSize"

lemma hub_inv_NewHub: "hub_inv NewHub"
  by (simp add: hub_inv_def NewHub_def new_client_def)

lemma hub_inv_open: "hub_inv h \<Longrightarrow> open_registered h"
  by (simp add: hub_inv_def open_registered_def)

lemma hub_inv_register: "hub_inv h \<Longrightarrow> hub_inv (run_register h)"
  by (auto simp: hub_inv_def run_register_def split: list.splits)

lemma hub_inv_drop: "hub_inv h \<Longrightarrow> hub_inv (drop_client i h)"
  by (auto simp: hub_inv_def drop_client_def upd_client_def distinct_removeAll)

lemma hub_inv_unregister: "hub_inv h \<Longrightarrow> hub_inv (run_unregister h)"
  by (auto simp: run_unregister_def split: list.splits intro!: hub_inv_drop)
     (auto simp: hub_inv_def)

lemma hub_inv_send: "hub_inv h \<Longrightarrow> hub_inv (snd (try_send h i p))"
  by (auto simp: hub_inv_def try_send_def upd_client_def)

lemma hub_inv_fan: "hub_inv h \<Longrightarrow> xs = h_clients h \<Longrightarrow> hub_inv (fan_hub pid p xs h)"
  by (auto simp: hub_inv_def fan_hub_def fan_out_def slow_def not_le Suc_le_eq)

lemma run_broadcast_closed:
  assumes "hub_inv h"
  shows "run_broadcast h =
    (case h_broadcast h of [] \<Rightarrow> h | (pid, p) # evs \<Rightarrow> fan_hub pid p (h_clients h) (h\<lparr>h_broadcast := evs\<rparr>))"
proof -
  have "open_registered (h\<lparr>h_broadcast := evs\<rparr>)" for evs
    using hub_inv_open [OF assms] by (simp add: open_registered_def)
  then show ?thesis
    using assms by (auto simp: run_broadcast_def fold_deliver hub_inv_def split: list.splits)
qed

lemma hub_inv_broadcast: "hub_inv h \<Longrightarrow> hub_inv (run_broadcast h)"
  by (auto simp: run_broadcast_closed split: list.splits intro!: hub_inv_fan) (auto simp: hub_inv_def)

lemma length_run_broadcast:
  "hub_inv h \<Longrightarrow> length (h_broadcast (run_broadcast h)) = length (h_broadcast h) - 1"
  by (auto simp: run_broadcast_closed fan_hub_def split: list.splits)

lemma hub_inv_publish:
  assumes inv: "hub_inv h"
  shows "hub_inv (hub_Broadcast h pid p)"
proof -
  let ?h = "if length (h_broadcast h) < broadcastBufSize then h else run_broadcast h"
  have "hub_inv ?h" using inv by (simp add: hub_inv_broadcast)
  moreover have "length (h_broadcast ?h) < broadcastBufSize"
    using inv length_run_broadcast [OF inv] by (auto simp: hub_inv_def broadcastBufSize_def)
  ultimately show ?thesis by (simp add: hub_Broadcast_def hub_inv_def Let_def)
qed

lemma hub_inv_connect:
  assumes inv: "hub_inv h"
  shows "hub_inv (ws_connect h uid)"
proof -
  let ?h1 = "h\<lparr>h_heap := (h_heap h)(h_next h := new_client uid), h_next := Suc (h_next h)\<rparr>"
  let ?h2 = "if length (h_register ?h1) < registerBufSize then ?h1 else run_register ?h1"
  have 1: "hub_inv ?h1" using inv by (auto simp: hub_inv_def new_client_def intro: less_SucI)
  have 2: "hub_inv ?h2" using hub_inv_register [OF 1] 1 by simp
  have new: "h_next h \<notin> set (h_register h @ h_clients h)" using inv by (auto simp: hub_inv_def)
  have "h_next h \<notin> set (h_register ?h2 @ h_clients ?h2)"
    using new inv by (auto simp: run_register_def registerBufSize_def split: list.splits)
  moreover have "length (h_register ?h2) < registerBufSize"
    using inv by (auto simp: run_register_def hub_inv_def registerBufSize_def split: list.splits)
  moreover have "\<not> c_closed (h_heap ?h2 (h_next h))" "h_next ?h2 = Suc (h_next h)"
    by (auto simp: run_register_def new_client_def split: list.splits)
  ultimately show ?thesis
    using 2 unfolding ws_connect_def hub_inv_def Let_def by simp
qed

lemma hub_inv_exit:
  assumes inv: "hub_inv h"
  shows "hub_inv (readLoop_exit h i)"
proof -
  let ?h1 = "upd_client i (\<lambda>c. c\<lparr>c_reading := False\<rparr>) h"
  let ?h2 = "if length (h_unregister ?h1) < registerBufSize then ?h1 else run_unregister ?h1"
  have 1: "hub_inv ?h1" using inv by (auto simp: hub_inv_def upd_client_def)
  have 2: "hub_inv ?h2" using hub_inv_unregister [OF 1] 1 by simp
  have "length (h_unregister ?h2) < registerBufSize"
    using 1 by (auto simp: run_unregister_def drop_client_def upd_client_def hub_inv_def
        registerBufSize_def split: list.splits)
  with 2 show ?thesis unfolding readLoop_exit_def hub_inv_def Let_def by simp
qed

lemma hub_inv_subs: "hub_inv h \<Longrightarrow> hub_inv (upd_client i (\<lambda>c. c\<lparr>c_subs := f c\<rparr>) h)"
  by (auto simp: hub_inv_def upd_client_def)

lemma hub_inv_pending: "hub_inv (h\<lparr>h_pending := ps\<rparr>) = hub_inv h"
  by (simp add: hub_inv_def)

lemma hub_inv_message:
  assumes inv: "hub_inv h"
  shows "hub_inv (readLoop_msg h i msg)"
proof -
  let ?sub = "\<lambda>f. upd_client i (\<lambda>c. c\<lparr>c_subs := insert f (c_subs c)\<rparr>) h"
  have "hub_inv (snd (try_send (?sub f) i p))" for f p
    using inv by (intro hub_inv_send hub_inv_subs)
  then have *: "try_send (?sub f) i p = (r, h2) \<Longrightarrow> hub_inv h2" for f p r h2
    by (metis snd_conv)
  show ?thesis
    using inv unfolding readLoop_msg_def
    by (auto simp: Let_def hub_inv_subs hub_inv_pending split: option.splits prod.splits send_result.splits
        intro: * hub_inv_exit)
qed

lemma hub_inv_write: "hub_inv h \<Longrightarrow> hub_inv (writeLoop_step h i)"
  unfolding writeLoop_step_def hub_inv_def upd_client_def
  by (auto split: list.splits dest: spec [of _ i])

lemma revoke_note_keeps [simp]:
  "c_closed (revoke_note pid uid c) = c_closed c" "c_subs (revoke_note pid uid c) = c_subs c"
  "length (c_send c) \<le> sendBufSize \<Longrightarrow> length (c_send (revoke_note pid uid c)) \<le> sendBufSize"
  by (auto simp: revoke_note_def)

lemma BroadcastAccessRevoked_closed:
  "hub_inv h \<Longrightarrow> BroadcastAccessRevoked h pid uid = revoke_hub pid uid (h_clients h) h"
  unfolding BroadcastAccessRevoked_def by (rule fold_notify) (auto simp: hub_inv_def)

lemma hub_inv_revoke: "hub_inv h \<Longrightarrow> hub_inv (BroadcastAccessRevoked h pid uid)"
  by (simp only: BroadcastAccessRevoked_closed) (auto simp: hub_inv_def revoke_hub_def)

lemma hub_inv_replay:
  assumes inv: "hub_inv h"
  shows "hub_inv (replay_step h n)"
proof -
  have "try_send h i p = (r, h1) \<Longrightarrow> hub_inv h1" for i p r h1
    using hub_inv_send [OF inv] by (metis snd_conv)
  moreover have "hub_inv h1 \<Longrightarrow> hub_inv (h1\<lparr>h_crashed := b\<rparr>)" "hub_inv h1 \<Longrightarrow> hub_inv (h1\<lparr>h_replays := rs\<rparr>)"
    for h1 b rs by (simp_all add: hub_inv_def)
  ultimately show ?thesis
    using inv unfolding replay_step_def
    by (auto split: prod.splits list.splits send_result.splits)
qed

lemma hub_step_inv: "hub_step h h' \<Longrightarrow> hub_inv h \<Longrightarrow> hub_inv h'"
proof (induction rule: hub_step.induct)
  case (replay_start h i f n ps)
  then show ?case by (simp add: hub_inv_def)
qed (simp_all add: hub_inv_register hub_inv_unregister hub_inv_broadcast hub_inv_connect
      hub_inv_message hub_inv_exit hub_inv_write hub_inv_publish hub_inv_revoke hub_inv_replay)

lemma hub_reachable_inv: "hub_reachable h \<Longrightarrow> hub_inv h"
  by (induction rule: hub_reachable.induct) (auto simp: hub_inv_NewHub intro: hub_step_inv)

section \<open>Draining the channels\<close>

text \<open>The event loop takes everything from the broadcast channel; the write loop of a client writes everything that is buffered for it.\<close>

definition broadcast_all :: "hub \<Rightarrow> hub" where
  "broadcast_all h = (run_broadcast ^^ length (h_broadcast h)) h"

definition write_all :: "nat \<Rightarrow> hub \<Rightarrow> hub" where
  "write_all i h = ((\<lambda>h. writeLoop_step h i) ^^ length (c_send (h_heap h i))) h"

text \<open>The payloads of some events that are meant for a client.\<close>

definition meant_for :: "client \<Rightarrow> (string \<times> json) list \<Rightarrow> json list" where
  "meant_for c evs = map snd (filter (\<lambda>(pid, _). pid \<in> c_subs c) evs)"

lemma meant_for_simps [simp]:
  "meant_for c [] = []" "meant_for c ((pid, p) # evs) = (if pid \<in> c_subs c then p # meant_for c evs else meant_for c evs)"
  "meant_for c (evs @ evs') = meant_for c evs @ meant_for c evs'"
  by (simp_all add: meant_for_def)

lemma meant_for_subs: "c_subs c' = c_subs c \<Longrightarrow> meant_for c' = meant_for c"
  by (simp add: meant_for_def fun_eq_iff)

text \<open>A registered client with room for all of them gets each of them, in order, and stays registered.\<close>

lemma broadcast_all_reaches:
  assumes "hub_inv h" and "i \<in> set (h_clients h)" and "length (c_send (h_heap h i)) + length (h_broadcast h) \<le> sendBufSize"
  shows "h_heap (broadcast_all h) i = (h_heap h i)\<lparr>c_send := c_send (h_heap h i) @ meant_for (h_heap h i) (h_broadcast h)\<rparr>"
proof -
  have "h_heap ((run_broadcast ^^ n) h) i = (h_heap h i)\<lparr>c_send := c_send (h_heap h i) @ meant_for (h_heap h i) (h_broadcast h)\<rparr>"
    if "n = length (h_broadcast h)" for n
    using assms that
  proof (induction n arbitrary: h)
    case 0
    then show ?case by (intro client.equality) simp_all
  next
    case (Suc n)
    then obtain pid p evs where ev: "h_broadcast h = (pid, p) # evs" by (cases "h_broadcast h") auto
    let ?h1 = "run_broadcast h"
    have h1: "?h1 = fan_hub pid p (h_clients h) (h\<lparr>h_broadcast := evs\<rparr>)" using run_broadcast_closed [OF Suc.prems(1)] ev by simp
    have fast: "\<not> slow pid (h_heap h i)" using Suc.prems(3) ev by (simp add: slow_def)
    have c: "h_heap ?h1 i = fan_out pid p (h_heap h i)" "h_broadcast ?h1 = evs" "i \<in> set (h_clients ?h1)"
      unfolding h1 using Suc.prems(2) fast by (simp_all add: fan_hub_def)
    have len: "length (c_send (h_heap ?h1 i)) + length (h_broadcast ?h1) \<le> sendBufSize"
      unfolding c using Suc.prems(3) ev fast by (simp add: fan_out_def)
    have "h_heap ((run_broadcast ^^ n) ?h1) i =
        (h_heap ?h1 i)\<lparr>c_send := c_send (h_heap ?h1 i) @ meant_for (h_heap ?h1 i) evs\<rparr>"
      using Suc.IH [OF hub_inv_broadcast [OF Suc.prems(1)] c(3) len] Suc.prems(4) ev c(2) by simp
    then show ?case
      unfolding funpow_Suc_right o_apply c(1) using ev fast
      by (simp add: fan_out_def meant_for_subs [of "h_heap h i\<lparr>c_send := _\<rparr>" "h_heap h i"])
  qed
  then show ?thesis by (simp add: broadcast_all_def)
qed

lemma writeLoop_times:
  "n \<le> length (c_send (h_heap h i)) \<Longrightarrow> h_heap (((\<lambda>h. writeLoop_step h i) ^^ n) h) i =
     (h_heap h i)\<lparr>c_send := drop n (c_send (h_heap h i)), c_out := c_out (h_heap h i) @ take n (c_send (h_heap h i))\<rparr>"
proof (induction n arbitrary: h)
  case 0
  then show ?case by (intro client.equality) simp_all
next
  case (Suc n)
  then obtain p ps where ps: "c_send (h_heap h i) = p # ps" by (cases "c_send (h_heap h i)") auto
  then show ?case
    using Suc.IH [of "writeLoop_step h i"] Suc.prems unfolding funpow_Suc_right o_apply
    by (simp add: writeLoop_step_def upd_client_def)
qed

lemma write_all_writes:
  "h_heap (write_all i h) i = (h_heap h i)\<lparr>c_send := [], c_out := c_out (h_heap h i) @ c_send (h_heap h i)\<rparr>"
  by (simp add: write_all_def writeLoop_times)

section \<open>What a client has been sent\<close>

text \<open>The frames of a client in order: those written to the connection, then those buffered.\<close>

definition received :: "hub \<Rightarrow> nat \<Rightarrow> json list" where
  "received h i = c_out (h_heap h i) @ c_send (h_heap h i)"

definition extends :: "'a list \<Rightarrow> 'a list \<Rightarrow> bool" where
  "extends ys xs \<longleftrightarrow> take (length xs) ys = xs"

lemma extends_append [simp]: "extends (xs @ ys) xs"
  by (simp add: extends_def)

lemma extends_refl [simp]: "extends xs xs"
  by (simp add: extends_def)

lemma received_send: "try_send h i p = (r, h1) \<Longrightarrow> extends (received h1 j) (received h j)"
  by (auto simp: try_send_def received_def upd_client_def simp flip: append_assoc split: if_splits)

lemma received_fan: "extends (received (fan_hub pid p xs h) j) (received h j)"
  by (auto simp: fan_hub_def received_def fan_out_def simp flip: append_assoc)

lemma received_same [simp]:
  "received (h\<lparr>h_broadcast := b\<rparr>) j = received h j" "received (h\<lparr>h_replays := r\<rparr>) j = received h j"
  "received (h\<lparr>h_pending := q\<rparr>) j = received h j"
  "received (h\<lparr>h_crashed := c\<rparr>) j = received h j" "received (h\<lparr>h_register := l\<rparr>) j = received h j"
  "received (h\<lparr>h_unregister := l\<rparr>) j = received h j" "received (h\<lparr>h_clients := l\<rparr>) j = received h j"
  "received (upd_client i (\<lambda>c. c\<lparr>c_subs := f c\<rparr>) h) j = received h j"
  "received (upd_client i (\<lambda>c. c\<lparr>c_reading := g c\<rparr>) h) j = received h j"
  "received (upd_client i (\<lambda>c. c\<lparr>c_closed := g c\<rparr>) h) j = received h j"
  by (auto simp: received_def upd_client_def)

lemma received_register [simp]: "received (run_register h) j = received h j"
  by (auto simp: run_register_def received_def split: list.splits)

lemma received_unregister [simp]: "received (run_unregister h) j = received h j"
  by (auto simp: run_unregister_def drop_client_def split: list.splits)

lemma received_broadcast: "hub_inv h \<Longrightarrow> extends (received (run_broadcast h) j) (received h j)"
  using received_fan [of _ _ _ "h\<lparr>h_broadcast := _\<rparr>" j]
  by (auto simp: run_broadcast_closed split: list.splits)

lemma received_exit [simp]: "received (readLoop_exit h i) j = received h j"
  by (simp add: readLoop_exit_def Let_def)

lemma received_message: "extends (received (readLoop_msg h i m) j) (received h j)"
proof -
  let ?sub = "\<lambda>f. upd_client i (\<lambda>c. c\<lparr>c_subs := insert f (c_subs c)\<rparr>) h"
  have "try_send (?sub f) i p = (r, h2) \<Longrightarrow> extends (received h2 j) (received h j)" for f p r h2
    using received_send [of "?sub f" i p r h2 j] by simp
  then show ?thesis
    unfolding readLoop_msg_def
    by (auto simp: Let_def split: option.splits prod.splits send_result.splits)
qed

lemma received_replay: "extends (received (replay_step h n) j) (received h j)"
  using received_send [of h]
  by (auto simp: replay_step_def split: prod.splits list.splits send_result.splits)

lemma received_step:
  assumes "hub_step h h'" and inv: "hub_inv h" and j: "j < h_next h"
  shows "extends (received h' j) (received h j)"
  using assms(1)
proof cases
  case (connect uid)
  then show ?thesis
    using j by (simp add: ws_connect_def Let_def) (simp add: received_def)
next
  case (write_frame i)
  then show ?thesis
    by (auto simp: writeLoop_step_def received_def upd_client_def split: list.splits)
next
  case (publish pid p)
  then show ?thesis
    using received_broadcast [OF inv] by (auto simp: hub_Broadcast_def Let_def)
next
  case (revoke pid uid)
  then show ?thesis
    using inv by (auto simp: BroadcastAccessRevoked_closed revoke_hub_def received_def revoke_note_def
        simp flip: append_assoc)
qed (simp_all add: received_broadcast inv received_message received_replay)

section \<open>Properties\<close>

text \<open>C9. In every reachable state of the hub, under any interleaving of the event loop, the
  connections, the request handlers and the replays: a registered client's channel is open, no
  client is registered twice, every client buffer holds at most 256 payloads, the broadcast
  channel at most 256 events and the two registration channels at most 64 clients.\<close>

theorem hub_reachable_safe:
  assumes "hub_reachable h"
  shows "distinct (h_clients h) \<and> (\<forall>i \<in> set (h_clients h). \<not> c_closed (h_heap h i)) \<and>
    (\<forall>i. length (c_send (h_heap h i)) \<le> 256) \<and> length (h_broadcast h) \<le> 256 \<and>
    length (h_register h) \<le> 64 \<and> length (h_unregister h) \<le> 64"
  using hub_reachable_inv [OF assms]
  by (simp add: hub_inv_def sendBufSize_def broadcastBufSize_def registerBufSize_def)

lemma reach_connected: "hub_reachable (run_register (ws_connect NewHub uid))"
  by (intro reach_by) (simp_all add: NewHub_def ws_connect_def Let_def registerBufSize_def)

theorem hub_reachable_safe_witness:
  "h_clients (run_register (ws_connect NewHub ''u'')) = [0] \<and>
   \<not> c_closed (h_heap (run_register (ws_connect NewHub ''u'')) 0)"
proof -
  have "h_clients (run_register (ws_connect NewHub ''u'')) = [0]"
    by (simp add: NewHub_def ws_connect_def run_register_def Let_def registerBufSize_def)
  with hub_reachable_safe [OF reach_connected [of "''u''"]] show ?thesis by simp
qed

text \<open>C15. The exact effect of one fan-out in a reachable state: the event leaves the channel; every
  registered client subscribed to its project with room in its buffer gets the payload as its
  newest one; a registered subscriber whose buffer is full is unregistered and its channel closed;
  every other client is untouched, and the event loop itself never panics.\<close>

theorem run_broadcast_effect:
  assumes "hub_reachable h" and "h_broadcast h = (pid, p) # evs"
  shows "h_broadcast (run_broadcast h) = evs \<and> h_crashed (run_broadcast h) = h_crashed h \<and>
    set (h_clients (run_broadcast h)) = {i \<in> set (h_clients h). \<not> slow pid (h_heap h i)} \<and>
    (\<forall>i. h_heap (run_broadcast h) i =
       (if i \<notin> set (h_clients h) \<or> pid \<notin> c_subs (h_heap h i) then h_heap h i
        else if length (c_send (h_heap h i)) < 256
             then (h_heap h i)\<lparr>c_send := c_send (h_heap h i) @ [p]\<rparr>
             else (h_heap h i)\<lparr>c_closed := True\<rparr>))"
proof -
  have "run_broadcast h = fan_hub pid p (h_clients h) (h\<lparr>h_broadcast := evs\<rparr>)"
    using run_broadcast_closed [OF hub_reachable_inv [OF assms(1)]] assms(2) by simp
  then show ?thesis
    by (auto simp: fan_hub_def fan_out_def slow_def sendBufSize_def)
qed

lemma reach_published:
  "hub_reachable (hub_Broadcast (run_register (ws_connect NewHub uid)) pid p)"
  by (intro reach_by(7) reach_connected)
     (simp add: NewHub_def ws_connect_def run_register_def Let_def registerBufSize_def)

theorem run_broadcast_effect_witness:
  "h_broadcast (run_broadcast (hub_Broadcast (run_register (ws_connect NewHub ''u'')) ''p'' JNull)) = []"
  by (rule run_broadcast_effect [OF reach_published, THEN conjunct1])
     (simp add: hub_Broadcast_def NewHub_def ws_connect_def run_register_def Let_def
        registerBufSize_def broadcastBufSize_def)

text \<open>Go visits a map in an arbitrary order; the outcome of a fan-out does not depend on it.\<close>

theorem fan_out_order_irrelevant:
  assumes "hub_reachable h" and "mset xs = mset (h_clients h)"
  shows "fold (deliver pid p) xs h = fold (deliver pid p) (h_clients h) h"
proof -
  have inv: "hub_inv h" using assms(1) by (rule hub_reachable_inv)
  then have d: "distinct (h_clients h)" by (simp add: hub_inv_def)
  have s: "set xs = set (h_clients h)" using assms(2) by (rule mset_eq_setD)
  have "distinct xs" using d assms(2) by (metis mset_eq_imp_distinct_iff)
  with d s inv show ?thesis
    by (simp add: fold_deliver hub_inv_open) (simp add: fan_hub_def)
qed

theorem fan_out_order_irrelevant_witness:
  "fold (deliver ''p'' JNull) [0] (run_register (ws_connect NewHub ''u'')) =
   fold (deliver ''p'' JNull) (h_clients (run_register (ws_connect NewHub ''u'')))
     (run_register (ws_connect NewHub ''u''))"
  by (rule fan_out_order_irrelevant [OF reach_connected])
     (simp add: NewHub_def ws_connect_def run_register_def Let_def registerBufSize_def)

text \<open>No step takes back or reorders a payload: what an allocated client has received (written
  frames, then the buffer) after any step of any goroutine extends what it had received before.\<close>

theorem hub_step_only_appends:
  assumes "hub_reachable h" and "hub_step h h'" and "i < h_next h"
  shows "extends (received h' i) (received h i)"
  using assms(2) hub_reachable_inv [OF assms(1)] assms(3) by (rule received_step)

theorem hub_step_only_appends_witness:
  "extends (received (run_broadcast (hub_Broadcast (run_register (ws_connect NewHub ''u'')) ''p'' JNull)) 0)
     (received (hub_Broadcast (run_register (ws_connect NewHub ''u'')) ''p'' JNull) 0)"
  by (rule hub_step_only_appends [OF reach_published hub_step.broadcast])
     (simp_all add: hub_Broadcast_def NewHub_def ws_connect_def run_register_def Let_def
        registerBufSize_def broadcastBufSize_def)

text \<open>Revocation does not unsubscribe: after \<open>BroadcastAccessRevoked\<close> for a registered client's
  user and folder the subscription is still there, so the next event of the folder is queued for
  that client whenever its buffer has room.\<close>

theorem revoked_client_still_receives:
  assumes "hub_reachable h" and "i \<in> set (h_clients h)" and "pid \<in> c_subs (h_heap h i)"
    and "length (c_send (h_heap h i)) + 1 < 256"
  shows "last (c_send (h_heap
    (fold (deliver pid p) (h_clients h) (BroadcastAccessRevoked h pid (c_userID (h_heap h i)))) i)) = p"
proof -
  let ?h = "BroadcastAccessRevoked h pid (c_userID (h_heap h i))"
  have inv: "hub_inv h" using assms(1) by (rule hub_reachable_inv)
  then have "h_clients ?h = h_clients h" "hub_inv ?h"
    using hub_inv_revoke [OF inv] by (simp_all add: BroadcastAccessRevoked_closed) (simp add: revoke_hub_def)
  then have "fold (deliver pid p) (h_clients h) ?h = fan_hub pid p (h_clients h) ?h"
    by (intro fold_deliver) (auto simp: hub_inv_open, simp add: hub_inv_def)
  then show ?thesis
    using assms inv
    by (simp add: BroadcastAccessRevoked_closed)
       (simp add: revoke_hub_def fan_hub_def fan_out_def slow_def sendBufSize_def, simp add: revoke_note_def)
qed

text \<open>A concrete run for the remaining statements: one client that subscribes to \<open>''p''\<close>.\<close>

definition subscribe_to :: "string \<Rightarrow> json option" where
  "subscribe_to f = Some (JObj [(''type'', JStr ''subscribe''), (''folderId'', JStr f), (''since'', JStr ''0'')])"

lemmas hub_eval = NewHub_def ws_connect_def run_register_def run_unregister_def drop_client_def
  readLoop_msg_def readLoop_exit_def replay_step_def try_send_def upd_client_def new_client_def Let_def
  registerBufSize_def sendBufSize_def broadcastBufSize_def subscribe_to_def dec_incomingMsg_def wire_dec
  hub_Broadcast_def ParseInt64_def ParseUint10_def is_digit_def digits_value_def

theorem revoked_client_still_receives_witness:
  "\<exists>h. hub_reachable h \<and> last (c_send (h_heap
     (fold (deliver ''p'' JNull) (h_clients h) (BroadcastAccessRevoked h ''p'' (c_userID (h_heap h 0)))) 0)) = JNull"
proof -
  let ?h = "readLoop_msg (run_register (ws_connect NewHub ''u'')) 0 (subscribe_to ''p'')"
  have r: "hub_reachable ?h"
    by (intro reach_by(5) reach_connected) (simp_all add: hub_eval)
  have "0 \<in> set (h_clients ?h)" "''p'' \<in> c_subs (h_heap ?h 0)" "length (c_send (h_heap ?h 0)) + 1 < 256"
    by (simp_all add: hub_eval)
  from revoked_client_still_receives [OF r this, of JNull] r show ?thesis by blast
qed

text \<open>Subscribing is not authorised: a registered client, whoever its user is, that sends
  \<open>subscribe\<close> for any folder is subscribed to it, and the folder's next event is queued for it
  (given room for the acknowledgement and the event).\<close>

theorem any_client_may_subscribe:
  assumes "hub_reachable h" and "i \<in> set (h_clients h)" and "length (c_send (h_heap h i)) + 1 < 256"
  shows "c_send (h_heap (fold (deliver f p) (h_clients h) (readLoop_msg h i (subscribe_to f))) i) =
    c_send (h_heap h i) @ [msg_subscribed f, p]"
proof -
  let ?h = "readLoop_msg h i (subscribe_to f)"
  have inv: "hub_inv h" using assms(1) by (rule hub_reachable_inv)
  have op: "\<not> c_closed (h_heap h i)" using inv assms(2) by (auto simp: hub_inv_def)
  have h: "?h = upd_client i (\<lambda>c. c\<lparr>c_subs := insert f (c_subs c), c_send := c_send c @ [msg_subscribed f]\<rparr>)
      (h\<lparr>h_pending := h_pending h @ [(i, f, 0)]\<rparr>)"
    using op assms(3) by (simp add: hub_eval)
  have "hub_inv ?h" using inv by (rule hub_inv_message)
  moreover have "h_clients ?h = h_clients h" by (simp only: h) (simp add: upd_client_def)
  ultimately have "fold (deliver f p) (h_clients h) ?h = fan_hub f p (h_clients h) ?h"
    by (intro fold_deliver) (auto simp: hub_inv_open, simp add: hub_inv_def)
  then show ?thesis
    using assms(2,3) by (simp only: h) (simp add: fan_hub_def fan_out_def slow_def upd_client_def sendBufSize_def)
qed

theorem any_client_may_subscribe_witness:
  "c_send (h_heap (fold (deliver ''p'' JNull) [0]
     (readLoop_msg (run_register (ws_connect NewHub ''u'')) 0 (subscribe_to ''p''))) 0) =
   [msg_subscribed ''p'', JNull]"
  using any_client_may_subscribe [OF reach_connected, of 0 "''u''" "''p''" JNull] by (simp add: hub_eval)

text \<open>Taking everything from the channel of departures closes the channels of those registered.\<close>

lemma run_unregister_frame [simp]:
  "h_replays (run_unregister h) = h_replays h" "h_crashed (run_unregister h) = h_crashed h"
  "h_unregister (run_unregister h) = tl (h_unregister h)"
  by (auto simp: run_unregister_def drop_client_def upd_client_def split: list.splits)

lemma run_unregister_closed:
  assumes "i \<in> set (h_clients h) \<or> c_closed (h_heap h i)"
  shows "i \<in> set (h_clients (run_unregister h)) \<or> c_closed (h_heap (run_unregister h) i)"
    and "h_unregister h = i # is \<Longrightarrow> c_closed (h_heap (run_unregister h) i)"
  using assms by (auto simp: run_unregister_def drop_client_def upd_client_def split: list.splits)

lemma run_unregister_stays_closed: "c_closed (h_heap h i) \<Longrightarrow> c_closed (h_heap (run_unregister h) i)"
  by (auto simp: run_unregister_def drop_client_def upd_client_def split: list.splits)

definition unregister_all :: "hub \<Rightarrow> hub" where
  "unregister_all h = (run_unregister ^^ length (h_unregister h)) h"

lemma unregister_times:
  "(c_closed (h_heap h i) \<longrightarrow> c_closed (h_heap ((run_unregister ^^ n) h) i)) \<and>
   h_replays ((run_unregister ^^ n) h) = h_replays h \<and> h_crashed ((run_unregister ^^ n) h) = h_crashed h"
  by (induction n) (auto simp: run_unregister_stays_closed)

lemma unregister_all_closes:
  assumes "i \<in> set (h_clients h) \<or> c_closed (h_heap h i)" and "i \<in> set (h_unregister h)"
  shows "c_closed (h_heap (unregister_all h) i)"
proof -
  have "c_closed (h_heap ((run_unregister ^^ n) h) i)" if "n = length (h_unregister h)" for n
    using assms that
  proof (induction n arbitrary: h)
    case (Suc n)
    then obtain j "js" where js: "h_unregister h = j # js" by (cases "h_unregister h") auto
    show ?case
    proof (cases "j = i")
      case True
      have "c_closed (h_heap (run_unregister h) i)" using run_unregister_closed(2)[OF Suc.prems(1)] js True by simp
      then show ?thesis using unregister_times unfolding funpow_Suc_right o_apply by blast
    next
      case False
      then show ?thesis
        using Suc.IH [of "run_unregister h"] run_unregister_closed(1)[OF Suc.prems(1)] Suc.prems js
        unfolding funpow_Suc_right o_apply by simp
    qed
  qed simp
  then show ?thesis by (simp add: unregister_all_def)
qed

lemma reach_unregister_all:
  assumes "hub_reachable h" and "\<not> h_crashed h"
  shows "hub_reachable (unregister_all h)"
proof -
  have "hub_reachable ((run_unregister ^^ n) h)" for n
    using assms unregister_times [of h _ n] by (induction n) (auto intro: reach_by simp: unregister_times)
  then show ?thesis by (simp add: unregister_all_def)
qed

lemma exit_queued:
  assumes "i \<in> set (h_clients h)"
  shows "i \<in> set (h_unregister (readLoop_exit h i))" "h_replays (readLoop_exit h i) = h_replays h"
    "h_crashed (readLoop_exit h i) = h_crashed h"
    "i \<in> set (h_clients (readLoop_exit h i)) \<or> c_closed (h_heap (readLoop_exit h i) i)"
  using assms by (auto simp: readLoop_exit_def Let_def upd_client_def run_unregister_def drop_client_def split: list.splits)

text \<open>C32. A client that disconnects while its replay is still sending brings the process down: in every reachable state with a registered client
  whose replay has payloads left, if the client's read loop ends and the event loop takes the departures from its channel before the
  replay goes on, the hub closes the client's channel and the next send of the replay panics, which nothing recovers.\<close>

theorem replay_to_departed_client_crashes:
  assumes "hub_reachable h" and "\<not> h_crashed h" and "i \<in> set (h_clients h)" and "c_reading (h_heap h i)"
    and "n < length (h_replays h)" and "h_replays h ! n = (i, p # ps)"
  shows "hub_step h (readLoop_exit h i) \<and> hub_reachable (unregister_all (readLoop_exit h i)) \<and>
    \<not> h_crashed (unregister_all (readLoop_exit h i)) \<and>
    \<not> c_closed (h_heap h i) \<and> c_closed (h_heap (unregister_all (readLoop_exit h i)) i) \<and>
    h_crashed (replay_step (unregister_all (readLoop_exit h i)) n) \<and>
    hub_reachable (replay_step (unregister_all (readLoop_exit h i)) n)"
proof -
  let ?h1 = "readLoop_exit h i" and ?h2 = "unregister_all (readLoop_exit h i)"
  have inv: "hub_inv h" using assms(1) by (rule hub_reachable_inv)
  then have i: "i < h_next h" "\<not> c_closed (h_heap h i)" using assms(3) by (auto simp: hub_inv_def)
  have step: "hub_step h ?h1" using assms(2,4) i(1) by (intro hub_step.disconnect)
  have q: "\<not> h_crashed ?h1" "h_replays ?h2 = h_replays h" "\<not> h_crashed ?h2"
    using assms(2) exit_queued [OF assms(3)] unregister_times by (simp_all add: unregister_all_def)
  have r2: "hub_reachable ?h2" using hub_reachable.step [OF assms(1) step] q(1) by (rule reach_unregister_all)
  have cl: "c_closed (h_heap ?h2 i)" using exit_queued [OF assms(3)] by (intro unregister_all_closes)
  have "h_crashed (replay_step ?h2 n)" using assms(5,6) q(2) cl by (simp add: replay_step_def try_send_def)
  moreover have "hub_reachable (replay_step ?h2 n)" using r2 q(3) by (intro reach_by(9))
  ultimately show ?thesis using step r2 q(3) i(2) cl by blast
qed

theorem replay_to_departed_client_crashes_witness:
  "\<exists>h. hub_reachable h \<and> \<not> h_crashed h \<and> h_clients h = [0] \<and> hub_reachable (replay_step (unregister_all (readLoop_exit h 0)) 0) \<and>
     h_crashed (replay_step (unregister_all (readLoop_exit h 0)) 0)"
proof -
  let ?h0 = "readLoop_msg (run_register (ws_connect NewHub ''u'')) 0 (subscribe_to ''p'')"
  let ?h1 = "?h0\<lparr>h_pending := remove1 (0, ''p'', 0) (h_pending ?h0), h_replays := h_replays ?h0 @ [(0, [JNull])]\<rparr>"
  have "hub_reachable ?h0" by (intro reach_by(5) reach_connected) (simp_all add: hub_eval)
  then have r: "hub_reachable ?h1" by (intro reach_by(8)) (simp_all add: hub_eval)
  have h: "\<not> h_crashed ?h1" "h_clients ?h1 = [0]" "c_reading (h_heap ?h1 0)" "0 < length (h_replays ?h1)" "h_replays ?h1 ! 0 = (0, [JNull])"
    by (simp_all add: hub_eval)
  have "0 \<in> set (h_clients ?h1)" by (simp add: h(2))
  from replay_to_departed_client_crashes [OF r h(1) this h(3-5)] r h(1,2) show ?thesis by blast
qed

text \<open>A connection that ends before the event loop has seen its registration stays registered:
  there is a reachable state in which a client whose read loop has ended is in \<open>clients\<close> and
  nothing is pending that would remove it.\<close>

theorem departed_client_stays_registered:
  "\<exists>h i. hub_reachable h \<and> i \<in> set (h_clients h) \<and> \<not> c_reading (h_heap h i) \<and> h_unregister h = []"
proof -
  let ?h = "run_register (run_unregister (readLoop_exit (ws_connect NewHub ''u'') 0))"
  have "hub_reachable ?h"
    by (intro reach_by(1,2,6) reach_by(4) hub_reachable.start) (simp_all add: hub_eval)
  moreover have "0 \<in> set (h_clients ?h)" "\<not> c_reading (h_heap ?h 0)" "h_unregister ?h = []"
    by (simp_all add: hub_eval)
  ultimately show ?thesis by blast
qed

end
