(* ===== verification/World.thy ===== *)
theory World
  imports Sha256 Lru_Cache Hub
begin

text \<open>
  The state the handlers share and the calls that leave the process.

  \<^item> The database: one record per table of \<^verbatim>\<open>internal/db/migrations/001_initial.sql\<close> (the columns
    are those of the row structs of \<^verbatim>\<open>internal/storage/types.go\<close> and of the schema), each table a
    list of rows. Column checks, NOT NULL, unique and foreign keys are checked by the statements
    that can violate them (theories \<open>Queries\<close> and \<open>Sessions\<close>).
  \<^item> The bucket: a map from object keys to objects.
  \<^item> The process: the LRU cache and the hub, either of which may be nil in \<open>Deps\<close>.
  \<^item> The environment: the clock, and the fate of every call to the database or the bucket. A call
    is \<open>Done\<close>, or has \<open>Failed\<close> without effect (a refused connection, a timeout, an encoding error),
    or is \<open>Unacked\<close>: it took effect but the caller sees an error. The list \<open>fates\<close> is consumed one
    entry per call and stands for \<open>Done\<close> when it is empty, so a theorem over all worlds is a
    theorem over all patterns of failure.

  Third-party code is the record \<open>lib\<close> of functions: \<open>uuid.Parse\<close> and \<open>UUID.String\<close>
  (google/uuid), the input functions of \<open>uuid\<close> and \<open>inet\<close>, the printed form of an \<open>inet\<close> and the
  collation of Postgres, whether Postgres prepares a statement that uses one parameter at two given column types, the tag that the object store reports
  for an object and the number of bytes it delivers before a stream breaks, the token functions of
  golang-jwt, and Go's content sniffing and JSON tokeniser, whose results the handlers only
  pass on. What is assumed of them is stated where it is used.
\<close>

section \<open>Third-party functions\<close>

record jwt_claims =
  jc_sub :: "json option"
  jc_iat :: int
  jc_exp :: int

record invite_claims =
  ij_jti :: string
  ij_iat :: int
  ij_exp :: int
  ij_email :: string
  ij_role :: string
  ij_project_ids :: "string list"

record object =
  o_body :: bytes
  o_content_type :: string
  o_meta_etag :: string

record lib =
  uuid_Parse :: "string \<Rightarrow> uuid option"
  uuid_String :: "uuid \<Rightarrow> string"
  pg_uuid :: "string \<Rightarrow> uuid option"
  inet_cast :: "string \<Rightarrow> bool"
  inet_text :: "string \<Rightarrow> string"
  one_param_two_types :: "string \<Rightarrow> string \<Rightarrow> bool"
  collate :: "string \<Rightarrow> nat list"
  s3_ETag :: "object \<Rightarrow> string option"
  read_prefix :: "bytes \<Rightarrow> nat"
  DetectContentType :: "bytes \<Rightarrow> string"
  json_tokenise :: "bytes \<Rightarrow> json option"
  format_ts :: "time \<Rightarrow> string"
  jwt_SignedString :: "bytes \<Rightarrow> jwt_claims \<Rightarrow> string option"
  jwt_Parse :: "bytes \<Rightarrow> time \<Rightarrow> string \<Rightarrow> jwt_claims option"
  invite_SignedString :: "bytes \<Rightarrow> invite_claims \<Rightarrow> string option"
  invite_Parse :: "bytes \<Rightarrow> time \<Rightarrow> string \<Rightarrow> invite_claims option"

text \<open>google/uuid and Postgres: the printed form parses back, and the empty string is not a uuid.\<close>

definition uuid_laws :: "lib \<Rightarrow> bool" where
  "uuid_laws L \<longleftrightarrow> (\<forall>u. uuid_Parse L (uuid_String L u) = Some u \<and> pg_uuid L (uuid_String L u) = Some u) \<and>
     uuid_Parse L '''' = None"

text \<open>golang-jwt: a token that was signed with a key and carries a subject parses back to its claims under that
  key until the second of its expiry, and is refused from then on (dates are whole seconds of 64 bits).\<close>

definition seconds :: "time \<Rightarrow> int" where
  "seconds t = t div 1000000"

definition jwt_laws :: "lib \<Rightarrow> bool" where
  "jwt_laws L \<longleftrightarrow>
     (\<forall>key sub iat exp tok t. 0 \<le> iat \<and> iat < 2 ^ 63 \<and> 0 \<le> exp \<and> exp < 2 ^ 63 \<and>
        jwt_SignedString L key \<lparr>jc_sub = Some (JStr sub), jc_iat = iat, jc_exp = exp\<rparr> = Some tok \<longrightarrow>
        jwt_Parse L key t tok =
          (if seconds t < exp then Some \<lparr>jc_sub = Some (JStr sub), jc_iat = iat, jc_exp = exp\<rparr> else None))"

lemma uuid_String_inj: "uuid_laws L \<Longrightarrow> uuid_String L u = uuid_String L v \<longleftrightarrow> u = v"
  unfolding uuid_laws_def by (metis option.inject)

section \<open>Tables\<close>

record user_row =
  u_id :: uuid
  u_email :: string
  u_display_name :: string
  u_global_role :: string
  u_status :: string
  u_created_at :: time
  u_updated_at :: time

record passkey_row =
  pk_id :: uuid
  pk_user_id :: uuid
  pk_credential_id :: bytes
  pk_public_key :: bytes
  pk_sign_count :: int
  pk_transports :: "string list"
  pk_label :: string
  pk_last_used_at :: "time option"
  pk_created_at :: time

record invite_row =
  iv_id :: uuid
  iv_email :: string
  iv_role :: string
  iv_project_ids :: "uuid list"
  iv_token_hash :: bytes
  iv_created_by :: uuid
  iv_expires_at :: time
  iv_used_at :: "time option"

record session_row =
  s_id :: uuid
  s_user_id :: uuid
  s_kind :: string
  s_refresh_token_hash :: bytes
  s_client_label :: string
  s_created_at :: time
  s_last_seen_at :: time
  s_expires_at :: time
  s_revoked_at :: "time option"

record project_row =
  p_id :: uuid
  p_slug :: string
  p_display_name :: string
  p_repo_url :: string
  p_created_by :: uuid
  p_created_at :: time
  p_archived_at :: "time option"

record member_row =
  m_project_id :: uuid
  m_user_id :: uuid
  m_role :: string

record file_row =
  f_project_id :: uuid
  f_path :: string
  f_etag :: string
  f_size :: int
  f_content_type :: string
  f_modified_at :: time
  f_modified_by :: uuid

record event_row =
  ev_id :: int
  ev_project_id :: uuid
  ev_payload :: json
  ev_actor :: uuid
  ev_created_at :: time

record audit_row =
  a_id :: int
  a_actor :: uuid
  a_action :: string
  a_project_id :: "uuid option"
  a_path :: string
  a_etag_before :: "string option"
  a_etag_after :: "string option"
  a_ip :: "string option"
  a_user_agent :: string
  a_created_at :: time

record db =
  users :: "user_row list"
  passkeys :: "passkey_row list"
  invites :: "invite_row list"
  sessions :: "session_row list"
  projects :: "project_row list"
  project_members :: "member_row list"
  files :: "file_row list"
  events :: "event_row list"
  audit_log :: "audit_row list"
  events_seq :: int
  audit_seq :: int

definition file_key :: "file_row \<Rightarrow> uuid \<times> string" where
  "file_key r = (f_project_id r, f_path r)"

definition member_key :: "member_row \<Rightarrow> uuid \<times> uuid" where
  "member_key r = (m_project_id r, m_user_id r)"

text \<open>The constraints of the schema, table by table, as predicates on the database.\<close>

definition user_ids :: "db \<Rightarrow> uuid set" where
  "user_ids d = u_id ` set (users d)"

definition project_ids :: "db \<Rightarrow> uuid set" where
  "project_ids d = p_id ` set (projects d)"

definition users_ok :: "db \<Rightarrow> bool" where
  "users_ok d \<longleftrightarrow> unique_on u_id (users d) \<and> unique_on (ToLower \<circ> u_email) (users d) \<and>
     (\<forall>r \<in> set (users d). u_global_role r \<in> {''admin'', ''member''} \<and> u_status r \<in> {''active'', ''disabled''})"

definition auth_ok :: "db \<Rightarrow> bool" where
  "auth_ok d \<longleftrightarrow>
     unique_on pk_id (passkeys d) \<and> unique_on pk_credential_id (passkeys d) \<and> pk_user_id ` set (passkeys d) \<subseteq> user_ids d \<and>
     unique_on iv_id (invites d) \<and> unique_on iv_token_hash (invites d) \<and> iv_created_by ` set (invites d) \<subseteq> user_ids d \<and>
     unique_on s_id (sessions d) \<and> unique_on s_refresh_token_hash (sessions d) \<and> s_user_id ` set (sessions d) \<subseteq> user_ids d \<and>
     s_kind ` set (sessions d) \<subseteq> {''web'', ''native''}"

definition projects_ok :: "db \<Rightarrow> bool" where
  "projects_ok d \<longleftrightarrow> unique_on p_id (projects d) \<and> unique_on p_slug (projects d) \<and>
     p_created_by ` set (projects d) \<subseteq> user_ids d"

definition members_ok :: "db \<Rightarrow> bool" where
  "members_ok d \<longleftrightarrow> unique_on member_key (project_members d) \<and>
     m_project_id ` set (project_members d) \<subseteq> project_ids d \<and> m_user_id ` set (project_members d) \<subseteq> user_ids d \<and>
     m_role ` set (project_members d) \<subseteq> {''admin'', ''editor'', ''viewer''}"

definition files_ok :: "db \<Rightarrow> bool" where
  "files_ok d \<longleftrightarrow> unique_on file_key (files d) \<and>
     f_project_id ` set (files d) \<subseteq> project_ids d \<and> f_modified_by ` set (files d) \<subseteq> user_ids d"

text \<open>Rows of \<open>events\<close> and \<open>audit_log\<close> stand in the order of their serial numbers, all of them
  below the next number of the sequence.\<close>

definition events_ok :: "db \<Rightarrow> bool" where
  "events_ok d \<longleftrightarrow> sorted_wrt (<) (map ev_id (events d)) \<and> (\<forall>r \<in> set (events d). ev_id r < events_seq d) \<and>
     ev_project_id ` set (events d) \<subseteq> project_ids d \<and> ev_actor ` set (events d) \<subseteq> user_ids d"

definition audit_ok :: "db \<Rightarrow> bool" where
  "audit_ok d \<longleftrightarrow> sorted_wrt (<) (map a_id (audit_log d)) \<and> (\<forall>r \<in> set (audit_log d). a_id r < audit_seq d) \<and>
     a_actor ` set (audit_log d) \<subseteq> user_ids d \<and>
     (\<forall>r \<in> set (audit_log d). set_option (a_project_id r) \<subseteq> project_ids d)"

definition db_ok :: "db \<Rightarrow> bool" where
  "db_ok d \<longleftrightarrow> users_ok d \<and> auth_ok d \<and> projects_ok d \<and> members_ok d \<and> files_ok d \<and> events_ok d \<and> audit_ok d"

lemmas schema_defs = user_ids_def project_ids_def users_ok_def auth_ok_def projects_ok_def members_ok_def
  files_ok_def events_ok_def audit_ok_def

text \<open>A statement keeps the constraints when it keeps those of the tables it writes.\<close>

definition keeps_ok :: "(time \<Rightarrow> db \<Rightarrow> 'r \<times> db) \<Rightarrow> bool" where
  "keeps_ok st \<longleftrightarrow> (\<forall>t d. db_ok d \<longrightarrow> db_ok (snd (st t d)))"

lemma db_ok_files:
  "db_ok d \<Longrightarrow> unique_on file_key fs \<Longrightarrow> f_project_id ` set fs \<subseteq> project_ids d \<Longrightarrow>
   f_modified_by ` set fs \<subseteq> user_ids d \<Longrightarrow> db_ok (d\<lparr>files := fs\<rparr>)"
  by (simp add: db_ok_def schema_defs)

lemma db_ok_event:
  "db_ok d \<Longrightarrow> ev_id r = events_seq d \<Longrightarrow> ev_project_id r \<in> project_ids d \<Longrightarrow> ev_actor r \<in> user_ids d \<Longrightarrow>
   db_ok (d\<lparr>events := events d @ [r], events_seq := events_seq d + 1\<rparr>)"
  unfolding db_ok_def schema_defs by (auto simp: sorted_wrt_append intro: less_trans[OF _ less_add_one])

lemma db_ok_events_seq: "db_ok d \<Longrightarrow> db_ok (d\<lparr>events_seq := events_seq d + 1\<rparr>)"
  unfolding db_ok_def schema_defs by (auto intro: less_trans[OF _ less_add_one])

lemma db_ok_audit:
  "db_ok d \<Longrightarrow> a_id r = audit_seq d \<Longrightarrow> a_actor r \<in> user_ids d \<Longrightarrow> (\<And>p. a_project_id r = Some p \<Longrightarrow> p \<in> project_ids d) \<Longrightarrow>
   db_ok (d\<lparr>audit_log := audit_log d @ [r], audit_seq := audit_seq d + 1\<rparr>)"
  unfolding db_ok_def schema_defs by (auto simp: sorted_wrt_append intro: less_trans[OF _ less_add_one])

lemma db_ok_audit_seq: "db_ok d \<Longrightarrow> db_ok (d\<lparr>audit_seq := audit_seq d + 1\<rparr>)"
  unfolding db_ok_def schema_defs by (auto intro: less_trans[OF _ less_add_one])

definition empty_db :: db where
  "empty_db = \<lparr>users = [], passkeys = [], invites = [], sessions = [], projects = [],
     project_members = [], files = [], events = [], audit_log = [], events_seq = 1, audit_seq = 1\<rparr>"

section \<open>The world\<close>

datatype fate = Done | Failed | Unacked

record world =
  db :: db
  s3 :: "string \<rightharpoonup> object"
  cache :: "lru option"
  the_hub :: "hub option"
  clock :: time
  fates :: "fate list"

section \<open>Errors and calls\<close>

text \<open>The errors the code tells apart: \<open>pgx.ErrNoRows\<close>, \<open>storage.ErrETagConflict\<close>,
  \<open>ErrForbidden\<close>, a violated constraint, any other failure of a call.\<close>

datatype err = ErrNoRows | ErrETagConflict | ErrForbidden | ErrConstraint | ErrIO

definition next_fate :: "world \<Rightarrow> fate \<times> world" where
  "next_fate w = (case fates w of [] \<Rightarrow> (Done, w) | f # fs \<Rightarrow> (f, w\<lparr>fates := fs\<rparr>))"

text \<open>A statement: a function of the statement's time and the database.\<close>

type_synonym 'a stmt = "time \<Rightarrow> db \<Rightarrow> (err + 'a) \<times> db"

definition db_call :: "'a stmt \<Rightarrow> world \<Rightarrow> (err + 'a) \<times> world" where
  "db_call st w =
     (case next_fate w of
        (Done, w1) \<Rightarrow> (case st (clock w1) (db w1) of (r, d) \<Rightarrow> (r, w1\<lparr>db := d\<rparr>))
      | (Failed, w1) \<Rightarrow> (Inl ErrIO, w1)
      | (Unacked, w1) \<Rightarrow> (Inl ErrIO, w1\<lparr>db := snd (st (clock w1) (db w1))\<rparr>))"

text \<open>A query: no effect on the database.\<close>

definition query :: "(db \<Rightarrow> err + 'a) \<Rightarrow> 'a stmt" where
  "query f t d = (f d, d)"

definition one_row :: "'a option \<Rightarrow> err + 'a" where
  "one_row r = (case r of None \<Rightarrow> Inl ErrNoRows | Some x \<Rightarrow> Inr x)"

definition s3_call :: "((string \<rightharpoonup> object) \<Rightarrow> (err + 'a) \<times> (string \<rightharpoonup> object)) \<Rightarrow> world \<Rightarrow> (err + 'a) \<times> world" where
  "s3_call f w =
     (case next_fate w of
        (Done, w1) \<Rightarrow> (case f (s3 w1) of (r, b) \<Rightarrow> (r, w1\<lparr>s3 := b\<rparr>))
      | (Failed, w1) \<Rightarrow> (Inl ErrIO, w1)
      | (Unacked, w1) \<Rightarrow> (Inl ErrIO, w1\<lparr>s3 := snd (f (s3 w1))\<rparr>))"

lemma one_row_simps [simp]: "one_row None = Inl ErrNoRows" "one_row (Some x) = Inr x"
  by (simp_all add: one_row_def)

lemma next_fate_keeps:
  "next_fate w = (f, w1) \<Longrightarrow> db w1 = db w" "next_fate w = (f, w1) \<Longrightarrow> s3 w1 = s3 w"
  "next_fate w = (f, w1) \<Longrightarrow> cache w1 = cache w" "next_fate w = (f, w1) \<Longrightarrow> the_hub w1 = the_hub w"
  "next_fate w = (f, w1) \<Longrightarrow> clock w1 = clock w"
  by (auto simp: next_fate_def split: list.splits)

text \<open>A call that succeeds ran its statement; a call to the database leaves everything else alone.\<close>

lemma db_call_Inr [io]:
  "db_call st w = (Inr x, w') \<Longrightarrow> st (clock w) (db w) = (Inr x, db w')"
  by (auto simp: db_call_def next_fate_keeps split: prod.splits fate.splits)

lemma db_call_db [io]: "db (snd (db_call st w)) \<in> {db w, snd (st (clock w) (db w))}"
  by (auto simp: db_call_def next_fate_keeps split: prod.splits fate.splits)

lemma db_call_frame [frame]:
  "s3 (snd (db_call st w)) = s3 w" "cache (snd (db_call st w)) = cache w"
  "the_hub (snd (db_call st w)) = the_hub w" "clock (snd (db_call st w)) = clock w"
  by (auto simp: db_call_def next_fate_keeps split: prod.splits fate.splits)

lemma db_call_query [io]: "db (snd (db_call (query f) w)) = db w"
  by (auto simp: db_call_def query_def next_fate_keeps split: prod.splits fate.splits)

lemma db_call_query_Inr [io]: "db_call (query f) w = (Inr x, w') \<Longrightarrow> f (db w) = Inr x"
  by (auto dest!: db_call_Inr simp: query_def)

lemma s3_call_Inr [io]: "s3_call f w = (Inr x, w') \<Longrightarrow> f (s3 w) = (Inr x, s3 w')"
  by (auto simp: s3_call_def next_fate_keeps split: prod.splits fate.splits)

lemma s3_call_frame [frame]:
  "db (snd (s3_call f w)) = db w" "cache (snd (s3_call f w)) = cache w"
  "the_hub (snd (s3_call f w)) = the_hub w" "clock (snd (s3_call f w)) = clock w"
  by (auto simp: s3_call_def next_fate_keeps split: prod.splits fate.splits)

lemma s3_call_s3 [io]: "s3 (snd (s3_call f w)) \<in> {s3 w, snd (f (s3 w))}"
  by (auto simp: s3_call_def next_fate_keeps split: prod.splits fate.splits)

lemma db_call_keeps_ok: "keeps_ok st \<Longrightarrow> db_ok (db w) \<Longrightarrow> db_ok (db (snd (db_call st w)))"
  using db_call_db [of st w] by (auto simp: keeps_ok_def)

lemma keeps_ok_query [simp]: "keeps_ok (query f)"
  by (simp add: keeps_ok_def query_def)

text \<open>Without failures a call is its statement.\<close>

lemma db_call_Done: "fates w = [] \<Longrightarrow>
  db_call st w = (fst (st (clock w) (db w)), w\<lparr>db := snd (st (clock w) (db w))\<rparr>)"
  by (simp add: db_call_def next_fate_def split: prod.splits)

lemma s3_call_Done: "fates w = [] \<Longrightarrow> s3_call f w = (fst (f (s3 w)), w\<lparr>s3 := snd (f (s3 w))\<rparr>)"
  by (simp add: s3_call_def next_fate_def split: prod.splits)

lemma db_call_fates [frame]: "fates w = [] \<Longrightarrow> fates (snd (db_call st w)) = []"
  by (simp add: db_call_Done)

lemma s3_call_fates [frame]: "fates w = [] \<Longrightarrow> fates (snd (s3_call f w)) = []"
  by (simp add: s3_call_Done)

section \<open>HTTP\<close>

text \<open>A request as the handlers see it: \<open>r.Header.Get\<close>, \<open>r.PathValue\<close>, the user the middleware put
  in the context, the peer address, the body as a stream of bytes that ends in end-of-file or
  in a read error, whether \<open>r.ParseForm\<close> succeeds, \<open>r.FormValue\<close>, \<open>r.URL.Query().Get\<close>, and \<open>r.Cookie\<close>
  (\<open>None\<close> for a cookie that is not sent).\<close>

record request =
  rq_header :: "string \<Rightarrow> string"
  rq_path :: "string \<Rightarrow> string"
  rq_user :: "string option"
  rq_remote :: string
  rq_body :: bytes
  rq_body_eof :: bool
  rq_form_ok :: bool
  rq_form :: "string \<Rightarrow> string"
  rq_query :: "string \<Rightarrow> string"
  rq_cookie :: "string \<Rightarrow> string option"

datatype content = NoContent | JsonBody json | RawBody bytes

record response =
  rs_status :: nat
  rs_headers :: "(string \<times> string) list"
  rs_content :: content

definition quoted :: "string \<Rightarrow> string" where
  "quoted s = CHR 0x22 # s @ [CHR 0x22]"

end
