(* ===== verification/Sample.thy ===== *)
theory Sample
  imports World
begin

text \<open>
  A small concrete instance on which the theorems of the other theories are evaluated: a library
  record that satisfies what is assumed of third-party code (a uuid is printed as its 128 bits),
  and a world with three users (a global admin, an editor of project 7 and an outsider), one
  project, no files, an empty bucket and a hub without clients.
\<close>

definition sample_uuid_String :: "uuid \<Rightarrow> string" where
  "sample_uuid_String u = map (\<lambda>i. if bit u i then CHR ''1'' else CHR ''0'') [0..<128]"

definition sample_uuid_Parse :: "string \<Rightarrow> uuid option" where
  "sample_uuid_Parse s =
     (if length s = 128 then Some (horner_sum of_bool 2 (map (\<lambda>c. c = CHR ''1'') s)) else None)"

text \<open>A date is printed as 64 bits, a token as its two dates and its subject.\<close>

definition sample_enc64 :: "int \<Rightarrow> string" where
  "sample_enc64 n = map (\<lambda>i. if bit n i then CHR ''1'' else CHR ''0'') [0..<64]"

definition sample_dec64 :: "string \<Rightarrow> int" where
  "sample_dec64 s = horner_sum of_bool 2 (map (\<lambda>c. c = CHR ''1'') s)"

definition sample_jwt_SignedString :: "bytes \<Rightarrow> jwt_claims \<Rightarrow> string option" where
  "sample_jwt_SignedString key c =
     (case jc_sub c of Some (JStr s) \<Rightarrow> Some (sample_enc64 (jc_iat c) @ sample_enc64 (jc_exp c) @ s) | _ \<Rightarrow> None)"

definition sample_jwt_Parse :: "bytes \<Rightarrow> time \<Rightarrow> string \<Rightarrow> jwt_claims option" where
  "sample_jwt_Parse key t s =
     (let c = \<lparr>jc_sub = Some (JStr (drop 128 s)), jc_iat = sample_dec64 (take 64 s), jc_exp = sample_dec64 (take 64 (drop 64 s))\<rparr>
      in if seconds t < jc_exp c then Some c else None)"

definition sample_lib :: lib where
  "sample_lib = \<lparr>uuid_Parse = sample_uuid_Parse, uuid_String = sample_uuid_String,
     pg_uuid = sample_uuid_Parse, inet_cast = (\<lambda>s. s = ''10.0.0.1''),
     inet_text = (\<lambda>s. s @ ''/32''), one_param_two_types = (=), collate = map of_char,
     s3_ETag = (\<lambda>ob. Some (quoted (o_meta_etag ob))), read_prefix = (\<lambda>b. 0),
     DetectContentType = (\<lambda>b. ''application/octet-stream''),
     json_tokenise = (\<lambda>b. Some (JObj [(''id'', JStr ''0002''), (''body'', JStr b)])),
     format_ts = (\<lambda>t. ''2026-01-01T00:00:00.000Z''),
     jwt_SignedString = sample_jwt_SignedString, jwt_Parse = sample_jwt_Parse,
     invite_SignedString = (\<lambda>k c. Some (sample_enc64 (ij_exp c) @ ij_email c)),
     invite_Parse = (\<lambda>k t s. if seconds t < sample_dec64 (take 64 s)
        then Some \<lparr>ij_jti = ''j'', ij_iat = 0, ij_exp = sample_dec64 (take 64 s), ij_email = drop 64 s,
                    ij_role = ''member'', ij_project_ids = []\<rparr> else None)\<rparr>"

lemma sample_uuid_round_trip [simp]: "sample_uuid_Parse (sample_uuid_String u) = Some u"
proof -
  have bits: "map (\<lambda>c. c = CHR ''1'') (sample_uuid_String u) = map (bit u) [0..<128]"
    by (simp add: sample_uuid_String_def)
  have len: "length (sample_uuid_String u) = 128"
    by (simp add: sample_uuid_String_def)
  have all: "take_bit 128 u = u"
    using take_bit_word_eq_self [of 128 u] by simp
  show ?thesis
    by (simp only: sample_uuid_Parse_def bits len horner_sum_bit_eq_take_bit all refl if_True)
qed

lemma sample_uuid_String_nonempty [simp]: "sample_uuid_String u \<noteq> []"
  by (simp add: sample_uuid_String_def)

lemma sample_lib_laws: "uuid_laws sample_lib"
  by (simp add: uuid_laws_def sample_lib_def sample_uuid_Parse_def [of "''''"])

lemma sample_enc64_len [simp]: "length (sample_enc64 n) = 64"
  by (simp add: sample_enc64_def)

lemma sample_dec64_enc64: "0 \<le> n \<Longrightarrow> n < 2 ^ 63 \<Longrightarrow> sample_dec64 (sample_enc64 n) = n"
proof -
  assume n: "0 \<le> n" "n < 2 ^ 63"
  have "map (\<lambda>c. c = CHR ''1'') (sample_enc64 n) = map (bit n) [0..<64]"
    by (simp add: sample_enc64_def)
  then have "sample_dec64 (sample_enc64 n) = take_bit 64 n"
    by (simp only: sample_dec64_def horner_sum_bit_eq_take_bit)
  also have "\<dots> = n" using n by (intro take_bit_int_eq_self) auto
  finally show ?thesis .
qed

lemma sample_jwt_laws: "jwt_laws sample_lib"
  by (auto simp: jwt_laws_def sample_lib_def sample_jwt_SignedString_def sample_jwt_Parse_def Let_def sample_dec64_enc64)

definition sample_user :: "uuid \<Rightarrow> string \<Rightarrow> string \<Rightarrow> user_row" where
  "sample_user i mail role = \<lparr>u_id = i, u_email = mail, u_display_name = mail, u_global_role = role,
     u_status = ''active'', u_created_at = 0, u_updated_at = 0\<rparr>"

definition sample_db :: db where
  "sample_db = empty_db\<lparr>
     users := [sample_user 1 ''a@x'' ''admin'', sample_user 2 ''e@x'' ''member'', sample_user 3 ''o@x'' ''member''],
     projects := [\<lparr>p_id = 7, p_slug = ''demo'', p_display_name = ''Demo'', p_repo_url = ''git'', p_created_by = 1,
                   p_created_at = 0, p_archived_at = None\<rparr>],
     project_members := [\<lparr>m_project_id = 7, m_user_id = 2, m_role = ''editor''\<rparr>]\<rparr>"

definition sample_world :: world where
  "sample_world = \<lparr>db = sample_db, s3 = Map.empty, cache = Some (NewLRUCache 1000), the_hub = Some NewHub,
     clock = 100, fates = []\<rparr>"

lemmas sample_defs = sample_world_def sample_db_def sample_user_def empty_db_def

lemma sample_db_ok [simp]: "db_ok sample_db"
  by (simp add: db_ok_def schema_defs sample_db_def sample_user_def empty_db_def member_key_def ToLower_def lower_char_def)

lemma sample_world_simps [simp]:
  "db sample_world = sample_db" "fates sample_world = []" "clock sample_world = 100"
  "s3 sample_world = Map.empty" "the_hub sample_world = Some NewHub"
  by (simp_all add: sample_world_def)

lemma sample_db_simps [simp]:
  "files sample_db = []" "events sample_db = []" "audit_log sample_db = []"
  "user_ids sample_db = {1, 2, 3}" "project_ids sample_db = {7}"
  by (auto simp: sample_db_def empty_db_def sample_user_def user_ids_def project_ids_def)

definition sample_request :: "uuid \<Rightarrow> string \<Rightarrow> (string \<times> string) list \<Rightarrow> bytes \<Rightarrow> request" where
  "sample_request usr issue hs body =
     \<lparr>rq_header = (\<lambda>h. case map_of hs h of None \<Rightarrow> '''' | Some v \<Rightarrow> v),
      rq_path = (\<lambda>p. if p = ''folderId'' then sample_uuid_String 7 else if p = ''id'' then issue
                     else if p = ''name'' then ''a.png'' else ''''),
      rq_user = Some (sample_uuid_String usr), rq_remote = ''10.0.0.1'', rq_body = body, rq_body_eof = True,
      rq_form_ok = True, rq_form = (\<lambda>_. ''''), rq_query = (\<lambda>_. ''''), rq_cookie = (\<lambda>_. None)\<rparr>"

lemma sample_request_simps [simp]:
  "rq_header (sample_request usr issue hs body) h = (case map_of hs h of None \<Rightarrow> '''' | Some v \<Rightarrow> v)"
  "rq_path (sample_request usr issue hs body) ''folderId'' = sample_uuid_String 7"
  "rq_path (sample_request usr issue hs body) ''id'' = issue"
  "rq_path (sample_request usr issue hs body) ''name'' = ''a.png''"
  "rq_user (sample_request usr issue hs body) = Some (sample_uuid_String usr)"
  "rq_body (sample_request usr issue hs body) = body" "rq_body_eof (sample_request usr issue hs body)"
  "rq_remote (sample_request usr issue hs body) = ''10.0.0.1''" "rq_form_ok (sample_request usr issue hs body)"
  by (simp_all add: sample_request_def)

lemma sample_lib_simps [simp]:
  "uuid_Parse sample_lib = sample_uuid_Parse" "uuid_String sample_lib = sample_uuid_String"
  "pg_uuid sample_lib = sample_uuid_Parse"
  "inet_cast sample_lib s = (s = ''10.0.0.1'')"
  "jwt_SignedString sample_lib = sample_jwt_SignedString" "jwt_Parse sample_lib = sample_jwt_Parse"
  "json_tokenise sample_lib b = Some (JObj [(''id'', JStr ''0002''), (''body'', JStr b)])"
  by (simp_all add: sample_lib_def)

end
