(* ===== verification/Versioned_Store.thy ===== *)
theory Versioned_Store
  imports Prelude
begin

text \<open>
  The contract behind optimistic concurrency, as an interface: a store whose entries carry version
  tags (no tag for an entry that is not there), and operations that each read and write one entry.
  An operation names the tag it is conditioned on and the tag it leaves. It is atomic; it may report
  failure although it took effect (the answer was lost), but it takes effect only when its
  condition held.

  The client's lemmas hold for every sequence of operations, so for every interleaving of the
  requests that issue them. The interface is interpreted on the statements of the
  \<open>files\<close> table (theory \<open>Queries\<close>) and on the write handlers (theory \<open>Write_Api\<close>).
\<close>

fun run_ops :: "('o \<Rightarrow> 's \<Rightarrow> bool \<times> 's) \<Rightarrow> 'o list \<Rightarrow> 's \<Rightarrow> bool list \<times> 's" where
  "run_ops ex [] s = ([], s)"
| "run_ops ex (oper # ops) s =
     (case ex oper s of (b, s1) \<Rightarrow> case run_ops ex ops s1 of (bs, s2) \<Rightarrow> (b # bs, s2))"

lemma run_ops_append:
  "run_ops ex (xs @ ys) s =
     (case run_ops ex xs s of (bs, s1) \<Rightarrow> case run_ops ex ys s1 of (cs, s2) \<Rightarrow> (bs @ cs, s2))"
  by (induction xs arbitrary: s) (auto split: prod.splits)

lemma run_ops_length: "run_ops ex ops s = (bs, s') \<Longrightarrow> length bs = length ops"
  by (induction ops arbitrary: s bs s') (auto split: prod.splits)

lemma run_ops_nth:
  assumes "run_ops ex ops s = (bs, s')" and "i < length ops"
  obtains s1 s2 where "run_ops ex (take i ops) s = (take i bs, s1)" "ex (ops ! i) s1 = (bs ! i, s2)"
    "run_ops ex (drop (Suc i) ops) s2 = (drop (Suc i) bs, s')"
proof -
  have "\<exists>s1 s2. run_ops ex (take i ops) s = (take i bs, s1) \<and> ex (ops ! i) s1 = (bs ! i, s2) \<and>
      run_ops ex (drop (Suc i) ops) s2 = (drop (Suc i) bs, s')"
    using assms
  proof (induction ops arbitrary: s bs i)
    case (Cons oper ops)
    then show ?case by (cases i) (fastforce split: prod.splits)+
  qed simp
  then show thesis using that by blast
qed

locale versioned_store =
  fixes inv :: "'s \<Rightarrow> bool"
    and tag :: "'s \<Rightarrow> 'k \<Rightarrow> 't option"
    and ex :: "'o \<Rightarrow> 's \<Rightarrow> bool \<times> 's"
    and key :: "'o \<Rightarrow> 'k"
    and guard :: "'o \<Rightarrow> 't option \<Rightarrow> bool"
    and writes :: "'o \<Rightarrow> 't option"
  assumes keeps: "inv s \<Longrightarrow> inv (snd (ex oper s))"
    and accepted: "inv s \<Longrightarrow> ex oper s = (True, s') \<Longrightarrow>
      guard oper (tag s (key oper)) \<and> tag s' = (tag s)(key oper := writes oper)"
    and refused: "inv s \<Longrightarrow> ex oper s = (False, s') \<Longrightarrow>
      tag s' = tag s \<or> guard oper (tag s (key oper)) \<and> tag s' = (tag s)(key oper := writes oper)"
begin

lemma run_keeps: "inv s \<Longrightarrow> run_ops ex ops s = (bs, s') \<Longrightarrow> inv s'"
proof (induction ops arbitrary: s bs s')
  case (Cons oper ops)
  obtain b s1 where 1: "ex oper s = (b, s1)" by fastforce
  with keeps [OF Cons.prems(1), of oper] have "inv s1" by simp
  with Cons 1 show ?case by (auto split: prod.splits)
qed simp

text \<open>An operation moves the tags by at most its own write.\<close>

lemma step_tag: "inv s \<Longrightarrow> ex oper s = (b, s') \<Longrightarrow> tag s' = tag s \<or> tag s' = (tag s)(key oper := writes oper)"
  using accepted [of s oper s'] refused [of s oper s'] by (cases b) auto

text \<open>A tag that is not there and that nobody writes does not appear.\<close>

lemma run_no_tag:
  "inv s \<Longrightarrow> run_ops ex ops s = (bs, s') \<Longrightarrow> tag s k \<noteq> e \<Longrightarrow>
   (\<And>oper. oper \<in> set ops \<Longrightarrow> key oper = k \<Longrightarrow> writes oper \<noteq> e) \<Longrightarrow> tag s' k \<noteq> e"
proof (induction ops arbitrary: s bs)
  case (Cons oper ops)
  obtain b s1 where 1: "ex oper s = (b, s1)" by fastforce
  obtain cs where 2: "run_ops ex ops s1 = (cs, s')"
    using Cons.prems(2) 1 by (auto split: prod.splits)
  have "inv s1" using keeps [OF Cons.prems(1), of oper] 1 by simp
  moreover have "tag s1 k \<noteq> e"
    using step_tag [OF Cons.prems(1) 1] Cons.prems(3) Cons.prems(4)[of oper]
    by (auto split: if_splits)
  ultimately show ?case using Cons.IH 2 Cons.prems(4) by simp
qed simp

text \<open>No lost update: after an accepted write of another tag, an operation that insists on the tag
  \<open>e\<close> is accepted only if \<open>e\<close> was written again in between.\<close>

lemma no_lost_update:
  assumes s: "inv s" and run: "run_ops ex ops s = (bs, s')"
    and ij: "i < j" "j < length ops" and acc: "bs ! i" "bs ! j"
    and same: "key (ops ! i) = key (ops ! j)"
    and insists: "\<And>t. guard (ops ! j) t \<Longrightarrow> t = e"
    and other: "writes (ops ! i) \<noteq> e"
  shows "\<exists>m. i < m \<and> m < j \<and> key (ops ! m) = key (ops ! i) \<and> writes (ops ! m) = e"
proof (rule ccontr)
  assume none: "\<not> ?thesis"
  let ?n = "j - Suc i"
  define mid where "mid = take ?n (drop (Suc i) ops)"
  obtain s1 s2 where 1: "run_ops ex (take i ops) s = (take i bs, s1)" "ex (ops ! i) s1 = (bs ! i, s2)"
      "run_ops ex (drop (Suc i) ops) s2 = (drop (Suc i) bs, s')"
    by (rule run_ops_nth [OF run, of i]) (use ij in simp)
  obtain s3 s4 where 2: "run_ops ex mid s2 = (take ?n (drop (Suc i) bs), s3)"
      "ex (drop (Suc i) ops ! ?n) s3 = (drop (Suc i) bs ! ?n, s4)"
    unfolding mid_def by (rule run_ops_nth [OF 1(3), of ?n]) (use ij in simp)
  have inv: "inv s1" "inv s2" "inv s3"
    using run_keeps [OF s 1(1)] keeps [of s1 "ops ! i"] 1(2) run_keeps [OF _ 2(1)] by auto
  have acc_j: "ex (ops ! j) s3 = (True, s4)"
    using 2(2) ij acc(2) run_ops_length [OF run] by simp
  have "tag s2 (key (ops ! j)) \<noteq> e"
    using accepted [OF inv(1)] 1(2) acc(1) other same by simp
  moreover have "writes oper \<noteq> e" if mem: "oper \<in> set mid" and k: "key oper = key (ops ! j)" for oper
  proof -
    obtain m where "m < ?n" "oper = ops ! (Suc i + m)"
      using mem ij unfolding mid_def in_set_conv_nth by fastforce
    with none k same show ?thesis by (auto dest!: spec [of _ "Suc i + m"])
  qed
  ultimately have "tag s3 (key (ops ! j)) \<noteq> e"
    using run_no_tag [OF inv(2) 2(1)] by blast
  then show False using accepted [OF inv(3) acc_j] insists by blast
qed

end

end
