(* ===== verification/Queries.thy ===== *)
theory Queries
  imports Sample Versioned_Store
begin

text \<open>
  The statements of \<^verbatim>\<open>internal/storage/queries.go\<close>, one definition per function. Each database call of
  the source is one \<open>db_call\<close>, with the statement's WHERE clause, its constraints and the
  row count or row it returns written out; errors wrapped with \<open>%w\<close> keep their identity.

  ORDER BY is a stable sort by the collation key of the column, which fixes one of the orders the
  database may choose between equal keys.

  Shown: the schema's constraints are kept by every statement, whatever fails; the
  \<open>files\<close> table is a versioned store (locale \<open>versioned_store\<close>, interpreted below on
  \<open>UpsertFile\<close> and \<open>DeleteFile\<close>), so that two accepted writes conditioned on the same tag have a
  write of that tag between them; events are numbered in the order they are appended.
\<close>

section \<open>Reads\<close>

definition folderInfo :: "lib \<Rightarrow> project_row \<Rightarrow> FolderInfo" where
  "folderInfo L p = \<lparr>fi_id = uuid_String L (p_id p), fi_slug = p_slug p,
     fi_displayName = p_display_name p, fi_repoUrl = p_repo_url p\<rparr>"

text \<open>\<^verbatim>\<open>projects p JOIN project_members pm ON pm.project_id = p.id\<close>, for one user.\<close>

definition joined_projects :: "uuid \<Rightarrow> db \<Rightarrow> project_row list" where
  "joined_projects userID d =
     concat (map (\<lambda>p. map (\<lambda>m. p) (filter (\<lambda>m. m_project_id m = p_id p \<and> m_user_id m = userID)
                                      (project_members d)))
       (projects d))"

definition visible_projects :: "uuid \<Rightarrow> bool \<Rightarrow> db \<Rightarrow> project_row list" where
  "visible_projects userID isAdmin d =
     filter (\<lambda>p. p_archived_at p = None) (if isAdmin then projects d else joined_projects userID d)"

definition ProjectsForUser :: "lib \<Rightarrow> uuid \<Rightarrow> bool \<Rightarrow> world \<Rightarrow> (err + FolderInfo list) \<times> world" where
  "ProjectsForUser L userID isAdmin =
     db_call (query (\<lambda>d. Inr (map (folderInfo L)
       (sort_key (\<lambda>p. collate L (p_display_name p)) (visible_projects userID isAdmin d)))))"

definition ProjectByID :: "lib \<Rightarrow> uuid \<Rightarrow> bool \<Rightarrow> uuid \<Rightarrow> world \<Rightarrow> (err + FolderInfo) \<times> world" where
  "ProjectByID L userID isAdmin projectID =
     db_call (query (\<lambda>d. one_row (map_option (folderInfo L)
       (lookup_by p_id projectID (visible_projects userID isAdmin d)))))"

definition IssuesForProject :: "lib \<Rightarrow> uuid \<Rightarrow> world \<Rightarrow> (err + IssueMetadata list) \<times> world" where
  "IssuesForProject L projectID =
     db_call (query (\<lambda>d. Inr (map (\<lambda>r. \<lparr>im_id = TrimSuffix (f_path r) ''.md'', im_etag = Some (f_etag r)\<rparr>)
       (sort_key (\<lambda>r. collate L (f_path r))
         (filter (\<lambda>r. f_project_id r = projectID \<and> issue_path_pattern (f_path r)) (files d))))))"

definition issue_key :: "lib \<Rightarrow> uuid \<Rightarrow> string \<Rightarrow> string" where
  "issue_key L projectID issueID = ''projects/'' @ uuid_String L projectID @ ''/issues/'' @ issueID @ ''.md''"

definition attachment_key :: "lib \<Rightarrow> uuid \<Rightarrow> string \<Rightarrow> string \<Rightarrow> string" where
  "attachment_key L projectID issueID name =
     ''projects/'' @ uuid_String L projectID @ ''/issues/'' @ issueID @ ''/'' @ name"

definition file_of :: "db \<Rightarrow> uuid \<Rightarrow> string \<Rightarrow> file_row option" where
  "file_of d projectID path = lookup_by file_key (projectID, path) (files d)"

definition IssueByID :: "lib \<Rightarrow> uuid \<Rightarrow> string \<Rightarrow> world \<Rightarrow> (err + (string \<times> string)) \<times> world" where
  "IssueByID L projectID issueID w =
     (case db_call (query (\<lambda>d. one_row (map_option f_etag (file_of d projectID (issueID @ ''.md''))))) w of
        (Inl e, w1) \<Rightarrow> (Inl e, w1)
      | (Inr etag, w1) \<Rightarrow> (Inr (issue_key L projectID issueID, etag), w1))"

definition AttachmentByPath :: "lib \<Rightarrow> uuid \<Rightarrow> string \<Rightarrow> string \<Rightarrow> world \<Rightarrow> (err + (string \<times> string)) \<times> world" where
  "AttachmentByPath L projectID issueID name w =
     (case db_call (query (\<lambda>d. one_row (map_option f_content_type (file_of d projectID (issueID @ ''/'' @ name))))) w of
        (Inl e, w1) \<Rightarrow> (Inl e, w1)
      | (Inr ct, w1) \<Rightarrow> (Inr (attachment_key L projectID issueID name, ct), w1))"

definition UserByID :: "uuid \<Rightarrow> world \<Rightarrow> (err + string) \<times> world" where
  "UserByID userID = db_call (query (\<lambda>d. one_row (map_option u_global_role (lookup_by u_id userID (users d)))))"

definition storage_ProjectRole :: "uuid \<Rightarrow> uuid \<Rightarrow> world \<Rightarrow> (err + string) \<times> world" where
  "storage_ProjectRole userID projectID w =
     (case db_call (query (\<lambda>d. one_row (map_option u_global_role (lookup_by u_id userID (users d))))) w of
        (Inl e, w1) \<Rightarrow> (Inl e, w1)
      | (Inr globalRole, w1) \<Rightarrow>
          if globalRole = ''admin'' then (Inr ''admin'', w1)
          else db_call (query (\<lambda>d. one_row (map_option m_role
                 (lookup_by member_key (projectID, userID) (project_members d))))) w1)"

section \<open>Writes\<close>

definition update_file :: "uuid \<Rightarrow> string \<Rightarrow> string \<Rightarrow> int \<Rightarrow> string \<Rightarrow> uuid \<Rightarrow> string \<Rightarrow> nat stmt" where
  "update_file projectID path etag sz contentType modifiedBy ifMatch t d =
     (let hit = (\<lambda>r. file_key r = (projectID, path) \<and> f_etag r = ifMatch);
          n = rows_affected hit (files d)
      in if n \<noteq> 0 \<and> modifiedBy \<notin> user_ids d then (Inl ErrConstraint, d)
         else (Inr n, d\<lparr>files := update_where hit
                (\<lambda>r. r\<lparr>f_etag := etag, f_size := sz, f_content_type := contentType,
                       f_modified_at := t, f_modified_by := modifiedBy\<rparr>) (files d)\<rparr>))"

definition insert_file :: "uuid \<Rightarrow> string \<Rightarrow> string \<Rightarrow> int \<Rightarrow> string \<Rightarrow> uuid \<Rightarrow> nat stmt" where
  "insert_file projectID path etag sz contentType modifiedBy t d =
     (if file_of d projectID path \<noteq> None then (Inr 0, d)
      else if projectID \<notin> project_ids d \<or> modifiedBy \<notin> user_ids d then (Inl ErrConstraint, d)
      else (Inr 1, d\<lparr>files := files d @
             [\<lparr>f_project_id = projectID, f_path = path, f_etag = etag, f_size = sz,
               f_content_type = contentType, f_modified_at = t, f_modified_by = modifiedBy\<rparr>]\<rparr>))"

definition UpsertFile ::
  "uuid \<Rightarrow> string \<Rightarrow> string \<Rightarrow> int \<Rightarrow> string \<Rightarrow> uuid \<Rightarrow> string \<Rightarrow> world \<Rightarrow> (err + unit) \<times> world" where
  "UpsertFile projectID path etag sz contentType modifiedBy ifMatchEtag w =
     (if ifMatchEtag \<noteq> '''' then
        (case db_call (update_file projectID path etag sz contentType modifiedBy ifMatchEtag) w of
           (Inl e, w1) \<Rightarrow> (Inl e, w1)
         | (Inr n, w1) \<Rightarrow> if n = 0 then (Inl ErrETagConflict, w1) else (Inr (), w1))
      else
        (case db_call (insert_file projectID path etag sz contentType modifiedBy) w of
           (Inl e, w1) \<Rightarrow> (Inl e, w1)
         | (Inr n, w1) \<Rightarrow> if n = 0 then (Inl ErrETagConflict, w1) else (Inr (), w1)))"

definition delete_file :: "uuid \<Rightarrow> string \<Rightarrow> string \<Rightarrow> nat stmt" where
  "delete_file projectID path ifMatch t d =
     (let hit = (\<lambda>r. file_key r = (projectID, path) \<and> f_etag r = ifMatch)
      in (Inr (rows_affected hit (files d)), d\<lparr>files := delete_where hit (files d)\<rparr>))"

text \<open>The error of the second query is dropped, which leaves \<open>exists\<close> false.\<close>

definition DeleteFile :: "uuid \<Rightarrow> string \<Rightarrow> string \<Rightarrow> world \<Rightarrow> (err + unit) \<times> world" where
  "DeleteFile projectID path ifMatchEtag w =
     (case db_call (delete_file projectID path ifMatchEtag) w of
        (Inl e, w1) \<Rightarrow> (Inl e, w1)
      | (Inr n, w1) \<Rightarrow>
          if n = 0 then
            (case db_call (query (\<lambda>d. Inr (file_of d projectID path \<noteq> None))) w1 of
               (Inl _, w2) \<Rightarrow> (Inl ErrNoRows, w2)
             | (Inr ex, w2) \<Rightarrow> (if \<not> ex then (Inl ErrNoRows, w2) else (Inl ErrETagConflict, w2)))
          else (Inr (), w1))"

definition FileExists :: "uuid \<Rightarrow> string \<Rightarrow> world \<Rightarrow> (err + (string \<times> bool)) \<times> world" where
  "FileExists projectID path w =
     (case db_call (query (\<lambda>d. one_row (map_option f_etag (file_of d projectID path)))) w of
        (Inl ErrNoRows, w1) \<Rightarrow> (Inr ('''', False), w1)
      | (Inl e, w1) \<Rightarrow> (Inl e, w1)
      | (Inr etag, w1) \<Rightarrow> (Inr (etag, True), w1))"

text \<open>The bare DELETE in \<open>DeleteAttachmentHandler\<close>.\<close>

definition delete_file_any :: "uuid \<Rightarrow> string \<Rightarrow> nat stmt" where
  "delete_file_any projectID path t d =
     (let hit = (\<lambda>r. file_key r = (projectID, path))
      in (Inr (rows_affected hit (files d)), d\<lparr>files := delete_where hit (files d)\<rparr>))"

definition nullStr :: "string \<Rightarrow> string option" where
  "nullStr s = (if s = '''' then None else Some s)"

definition insert_audit ::
  "lib \<Rightarrow> uuid \<Rightarrow> string \<Rightarrow> uuid option \<Rightarrow> string \<Rightarrow> string option \<Rightarrow> string option \<Rightarrow> string option \<Rightarrow> string \<Rightarrow> unit stmt" where
  "insert_audit L actor action projID path etagBefore etagAfter ip userAgent t d =
     (if (case ip of None \<Rightarrow> False | Some s \<Rightarrow> \<not> inet_cast L s) then (Inl ErrIO, d)
      else if actor \<notin> user_ids d \<or> (case projID of None \<Rightarrow> False | Some p \<Rightarrow> p \<notin> project_ids d)
        then (Inl ErrConstraint, d\<lparr>audit_seq := audit_seq d + 1\<rparr>)
      else (Inr (), d\<lparr>audit_log := audit_log d @
             [\<lparr>a_id = audit_seq d, a_actor = actor, a_action = action, a_project_id = projID, a_path = path,
               a_etag_before = etagBefore, a_etag_after = etagAfter, a_ip = ip, a_user_agent = userAgent,
               a_created_at = t\<rparr>],
             audit_seq := audit_seq d + 1\<rparr>))"

definition WriteAuditLog ::
  "lib \<Rightarrow> uuid \<Rightarrow> string \<Rightarrow> string \<Rightarrow> string \<Rightarrow> string \<Rightarrow> string \<Rightarrow> string \<Rightarrow> string \<Rightarrow> world \<Rightarrow> (err + unit) \<times> world" where
  "WriteAuditLog L actor action projectID path etagBefore etagAfter ip userAgent =
     (let projID = (if projectID \<noteq> '''' then uuid_Parse L projectID else None)
      in db_call (insert_audit L actor action projID path (nullStr etagBefore) (nullStr etagAfter) (nullStr ip) userAgent))"

definition insert_event :: "uuid \<Rightarrow> uuid \<Rightarrow> json \<Rightarrow> int stmt" where
  "insert_event projectID actor payload t d =
     (if projectID \<notin> project_ids d \<or> actor \<notin> user_ids d
      then (Inl ErrConstraint, d\<lparr>events_seq := events_seq d + 1\<rparr>)
      else (Inr (events_seq d), d\<lparr>events := events d @
             [\<lparr>ev_id = events_seq d, ev_project_id = projectID, ev_payload = payload, ev_actor = actor,
               ev_created_at = t\<rparr>],
             events_seq := events_seq d + 1\<rparr>))"

definition AppendEvent :: "uuid \<Rightarrow> uuid \<Rightarrow> json \<Rightarrow> world \<Rightarrow> (err + int) \<times> world" where
  "AppendEvent projectID actor payload = db_call (insert_event projectID actor payload)"

section \<open>The constraints of the schema are kept\<close>

lemma db_ok_filesD:
  "db_ok d \<Longrightarrow> unique_on file_key (files d)"
  "db_ok d \<Longrightarrow> f_project_id ` set (files d) \<subseteq> project_ids d"
  "db_ok d \<Longrightarrow> f_modified_by ` set (files d) \<subseteq> user_ids d"
  by (simp_all add: db_ok_def files_ok_def)

lemma keeps_ok_update_file: "keeps_ok (update_file pid path etag sz ct by ifm)"
  unfolding keeps_ok_def update_file_def Let_def
proof (intro allI impI)
  fix t d assume ok: "db_ok d"
  let ?hit = "\<lambda>r. file_key r = (pid, path) \<and> f_etag r = ifm"
  let ?upd = "\<lambda>r. r\<lparr>f_etag := etag, f_size := sz, f_content_type := ct, f_modified_at := t, f_modified_by := by\<rparr>"
  have uniq: "unique_on file_key (update_where ?hit ?upd (files d))"
    using db_ok_filesD(1)[OF ok] by (subst unique_on_update) (simp_all add: file_key_def)
  have "db_ok (d\<lparr>files := update_where ?hit ?upd (files d)\<rparr>)"
    if "\<not> (rows_affected ?hit (files d) \<noteq> 0 \<and> by \<notin> user_ids d)"
    using that db_ok_filesD(2,3)[OF ok]
    by (intro db_ok_files ok uniq) (auto simp: update_where_def rows_affected_0)
  with ok show "db_ok (snd (if rows_affected ?hit (files d) \<noteq> 0 \<and> by \<notin> user_ids d then (Inl ErrConstraint, d)
      else (Inr (rows_affected ?hit (files d)), d\<lparr>files := update_where ?hit ?upd (files d)\<rparr>)))"
    by simp
qed

lemma keeps_ok_insert_file: "keeps_ok (insert_file pid path etag sz ct by)"
  by (auto simp: keeps_ok_def insert_file_def file_of_def lookup_by_None unique_on_snoc file_key_def image_iff
        dest: db_ok_filesD(1) db_ok_filesD(2,3)[THEN subsetD, OF _ imageI] intro!: db_ok_files)

lemma files_ok_delete: "db_ok d \<Longrightarrow> db_ok (d\<lparr>files := delete_where p (files d)\<rparr>)"
  using db_ok_filesD[of d] by (intro db_ok_files unique_on_delete) (auto simp: delete_where_def)

lemma keeps_ok_delete_file: "keeps_ok (delete_file pid path ifm)"
  by (simp add: keeps_ok_def delete_file_def Let_def files_ok_delete)

lemma keeps_ok_delete_file_any: "keeps_ok (delete_file_any pid path)"
  by (simp add: keeps_ok_def delete_file_any_def Let_def files_ok_delete)

lemma keeps_ok_insert_audit: "keeps_ok (insert_audit L actor act proj path eb ea ip ua)"
  by (auto simp: keeps_ok_def insert_audit_def intro!: db_ok_audit db_ok_audit_seq split: option.splits)

lemma keeps_ok_insert_event: "keeps_ok (insert_event pid actor payload)"
  by (auto simp: keeps_ok_def insert_event_def intro!: db_ok_event db_ok_events_seq)

lemmas keeps_ok_stmts = keeps_ok_update_file keeps_ok_insert_file keeps_ok_delete_file
  keeps_ok_delete_file_any keeps_ok_insert_audit keeps_ok_insert_event

section \<open>What the statements do to the files\<close>

lemma file_of_update_file:
  assumes ok: "db_ok d" and run: "update_file pid path etag sz ct by ifm t d = (r, d')"
  shows "r = (case file_of d pid path of
             None \<Rightarrow> Inr 0
           | Some f \<Rightarrow> if f_etag f \<noteq> ifm then Inr 0 else if by \<in> user_ids d then Inr 1 else Inl ErrConstraint)"
    and "file_of d' p q = (if r = Inr 1 \<and> (p, q) = (pid, path)
           then map_option (\<lambda>f. f\<lparr>f_etag := etag, f_size := sz, f_content_type := ct,
                                    f_modified_at := t, f_modified_by := by\<rparr>) (file_of d pid path)
           else file_of d p q)"
proof -
  let ?hit = "\<lambda>r. file_key r = (pid, path) \<and> f_etag r = ifm"
  have n: "rows_affected ?hit (files d) = (case file_of d pid path of None \<Rightarrow> 0 | Some f \<Rightarrow> if f_etag f = ifm then 1 else 0)"
    unfolding file_of_def by (rule rows_affected_unique [OF db_ok_filesD(1)[OF ok]])
  show r: "r = (case file_of d pid path of
             None \<Rightarrow> Inr 0
           | Some f \<Rightarrow> if f_etag f \<noteq> ifm then Inr 0 else if by \<in> user_ids d then Inr 1 else Inl ErrConstraint)"
    using run n by (auto simp: update_file_def Let_def split: option.splits if_splits)
  have at: "file_of (d\<lparr>files := update_where ?hit (\<lambda>r. r\<lparr>f_etag := etag, f_size := sz, f_content_type := ct,
      f_modified_at := t, f_modified_by := by\<rparr>) (files d)\<rparr>) p q =
    map_option (\<lambda>f. if ?hit f then f\<lparr>f_etag := etag, f_size := sz, f_content_type := ct,
      f_modified_at := t, f_modified_by := by\<rparr> else f) (file_of d p q)"
    by (simp add: file_of_def lookup_by_update file_key_def)
  have key: "file_of d p q = Some f \<Longrightarrow> file_key f = (p, q)" for f p q
    by (auto simp: file_of_def dest: lookup_by_Some)
  show "file_of d' p q = (if r = Inr 1 \<and> (p, q) = (pid, path)
           then map_option (\<lambda>f. f\<lparr>f_etag := etag, f_size := sz, f_content_type := ct,
                                    f_modified_at := t, f_modified_by := by\<rparr>) (file_of d pid path)
           else file_of d p q)"
    using run n at key [of p q] r
    by (cases "file_of d p q"; cases "file_of d pid path")
       (auto simp: update_file_def Let_def split: if_splits)
qed

lemma file_of_insert_file:
  assumes run: "insert_file pid path etag sz ct by t d = (r, d')"
  shows "r = (if file_of d pid path \<noteq> None then Inr 0
              else if pid \<in> project_ids d \<and> by \<in> user_ids d then Inr 1 else Inl ErrConstraint)"
    and "file_of d' p q = (if r = Inr 1 \<and> (p, q) = (pid, path)
           then Some \<lparr>f_project_id = pid, f_path = path, f_etag = etag, f_size = sz, f_content_type = ct,
                      f_modified_at = t, f_modified_by = by\<rparr>
           else file_of d p q)"
  using run
  by (auto simp: insert_file_def file_of_def lookup_by_append file_key_def split: if_splits option.splits)

lemma file_of_key: "file_of d p q = Some f \<Longrightarrow> file_key f = (p, q)"
  by (auto simp: file_of_def dest: lookup_by_Some)

lemma file_of_delete_where:
  "db_ok d \<Longrightarrow> file_of (d\<lparr>files := delete_where h (files d)\<rparr>) p q =
     (case file_of d p q of None \<Rightarrow> None | Some f \<Rightarrow> if h f then None else Some f)"
  by (simp add: file_of_def lookup_by_delete db_ok_filesD)

lemma file_of_delete_file:
  assumes ok: "db_ok d" and run: "delete_file pid path ifm t d = (r, d')"
  shows "r = Inr (if map_option f_etag (file_of d pid path) = Some ifm then 1 else 0)"
    and "file_of d' p q = (if r = Inr 1 \<and> (p, q) = (pid, path) then None else file_of d p q)"
proof -
  show r: "r = Inr (if map_option f_etag (file_of d pid path) = Some ifm then 1 else 0)"
    using run by (auto simp: delete_file_def Let_def file_of_def rows_affected_unique[OF db_ok_filesD(1)[OF ok]]
        split: option.splits)
  show "file_of d' p q = (if r = Inr 1 \<and> (p, q) = (pid, path) then None else file_of d p q)"
    using run file_of_key [of d p q] file_of_key [of d pid path] unfolding r
    by (cases "file_of d p q") (auto simp: delete_file_def Let_def file_of_delete_where[OF ok])
qed

lemma file_of_delete_file_any:
  assumes ok: "db_ok d" and run: "delete_file_any pid path t d = (r, d')"
  shows "file_of d' p q = (if (p, q) = (pid, path) then None else file_of d p q)"
  using run file_of_key [of d p q]
  by (cases "file_of d p q") (auto simp: delete_file_any_def Let_def file_of_delete_where[OF ok])

text \<open>The tag of a path, and the four operations on it.\<close>

definition tag_of :: "db \<Rightarrow> uuid \<times> string \<Rightarrow> string option" where
  "tag_of d k = map_option f_etag (file_of d (fst k) (snd k))"

definition expected_tag :: "string \<Rightarrow> string option" where
  "expected_tag ifMatchEtag = (if ifMatchEtag = '''' then None else Some ifMatchEtag)"

text \<open>The statement that \<open>UpsertFile\<close> chooses.\<close>

definition upsert_stmt :: "uuid \<Rightarrow> string \<Rightarrow> string \<Rightarrow> int \<Rightarrow> string \<Rightarrow> uuid \<Rightarrow> string \<Rightarrow> nat stmt" where
  "upsert_stmt pid path etag sz ct by ifm =
     (if ifm \<noteq> '''' then update_file pid path etag sz ct by ifm else insert_file pid path etag sz ct by)"

lemma UpsertFile_upsert_stmt:
  "UpsertFile pid path etag sz ct by ifm w =
     (case db_call (upsert_stmt pid path etag sz ct by ifm) w of (Inl e, w1) \<Rightarrow> (Inl e, w1)
      | (Inr n, w1) \<Rightarrow> if n = 0 then (Inl ErrETagConflict, w1) else (Inr (), w1))"
  by (simp add: UpsertFile_def upsert_stmt_def)

lemma keeps_ok_upsert_stmt: "keeps_ok (upsert_stmt pid path etag sz ct by ifm)"
  by (simp add: upsert_stmt_def keeps_ok_stmts)

lemma upsert_stmt_effect:
  assumes "db_ok d" and "upsert_stmt pid path etag sz ct by ifm t d = (r, d')"
  shows "if r = Inr 1
     then tag_of d (pid, path) = expected_tag ifm \<and> tag_of d' = (tag_of d)((pid, path) := Some etag) \<and>
       (\<exists>f. file_of d' pid path = Some f \<and> f_etag f = etag \<and> f_size f = sz \<and> f_content_type f = ct \<and>
            f_modified_at f = t \<and> f_modified_by f = by)
     else tag_of d' = tag_of d \<and> (r = Inr 0 \<and> tag_of d (pid, path) \<noteq> expected_tag ifm \<or> r = Inl ErrConstraint)"
proof (cases "ifm = ''''")
  case True
  with assms have "insert_file pid path etag sz ct by t d = (r, d')" by (simp add: upsert_stmt_def)
  from file_of_insert_file [OF this] True show ?thesis
    by (auto simp: tag_of_def expected_tag_def fun_eq_iff)
next
  case False
  with assms have "update_file pid path etag sz ct by ifm t d = (r, d')" by (simp add: upsert_stmt_def)
  from file_of_update_file [OF assms(1) this] False show ?thesis
    by (auto simp: tag_of_def expected_tag_def fun_eq_iff split: option.splits if_splits)
qed

lemma upsert_stmt_files: "\<exists>fs. snd (upsert_stmt pid path etag sz ct by ifm t d) = d\<lparr>files := fs\<rparr>"
  by (auto simp: upsert_stmt_def update_file_def insert_file_def Let_def intro: exI [of _ "files d"])

lemma UpsertFile_result:
  assumes ok: "db_ok (db w)" and run: "UpsertFile pid path etag sz ct by ifm w = (r, w')"
  shows "db_ok (db w')"
    and "r = Inr () \<Longrightarrow> tag_of (db w) (pid, path) = expected_tag ifm \<and>
           tag_of (db w') = (tag_of (db w))((pid, path) := Some etag) \<and>
           (\<exists>f. file_of (db w') pid path = Some f \<and> f_etag f = etag \<and> f_size f = sz \<and> f_content_type f = ct \<and>
                f_modified_at f = clock w \<and> f_modified_by f = by)"
    and "r = Inl ErrETagConflict \<Longrightarrow> tag_of (db w) (pid, path) \<noteq> expected_tag ifm \<and> tag_of (db w') = tag_of (db w)"
    and "r = Inl e \<Longrightarrow> tag_of (db w') = tag_of (db w) \<or>
           tag_of (db w) (pid, path) = expected_tag ifm \<and> tag_of (db w') = (tag_of (db w))((pid, path) := Some etag)"
    and "\<exists>fs. db w' = (db w)\<lparr>files := fs\<rparr>"
    and "s3 w' = s3 w" "cache w' = cache w" "the_hub w' = the_hub w" "clock w' = clock w"
proof -
  let ?st = "upsert_stmt pid path etag sz ct by ifm"
  note st = UpsertFile_upsert_stmt [of pid path etag sz ct "by" ifm w]
  note keep = keeps_ok_upsert_stmt [of pid path etag sz ct "by" ifm]
  note only = upsert_stmt_files [of pid path etag sz ct "by" ifm]
  obtain q where call: "db_call ?st w = (q, w')"
    using run st by (cases "db_call ?st w") (auto split: sum.splits if_splits)
  obtain r0 d0 where stmt: "?st (clock w) (db w) = (r0, d0)" by fastforce
  have dbw: "db w' = db w \<or> db w' = d0" and frames: "s3 w' = s3 w" "cache w' = cache w"
      "the_hub w' = the_hub w" "clock w' = clock w"
    using db_call_db [of ?st w] db_call_frame [of ?st w] call stmt by auto
  have inr: "q = Inr n \<Longrightarrow> r0 = Inr n \<and> db w' = d0" for n
    using db_call_Inr [of ?st w] call stmt by auto
  have inl: "q = Inl e \<Longrightarrow> e = ErrIO \<or> r0 = Inl e \<and> db w' = d0" for e
    using call stmt by (auto simp: db_call_def next_fate_keeps split: prod.splits fate.splits)
  note eff0 = upsert_stmt_effect [OF ok stmt]
  show "db_ok (db w')" using db_call_keeps_ok [OF keep ok] call by (metis snd_conv)
  show "\<exists>fs. db w' = (db w)\<lparr>files := fs\<rparr>"
    using dbw only [of "clock w" "db w"] stmt by (auto intro: exI [of _ "files (db w)"])
  show "r = Inr () \<Longrightarrow> tag_of (db w) (pid, path) = expected_tag ifm \<and>
           tag_of (db w') = (tag_of (db w))((pid, path) := Some etag) \<and>
           (\<exists>f. file_of (db w') pid path = Some f \<and> f_etag f = etag \<and> f_size f = sz \<and> f_content_type f = ct \<and>
                f_modified_at f = clock w \<and> f_modified_by f = by)"
    using run st call inr eff0 by (auto split: sum.splits if_splits)
  show "r = Inl ErrETagConflict \<Longrightarrow> tag_of (db w) (pid, path) \<noteq> expected_tag ifm \<and> tag_of (db w') = tag_of (db w)"
    using run st call inr inl eff0 by (auto split: sum.splits if_splits)
  show "r = Inl e \<Longrightarrow> tag_of (db w') = tag_of (db w) \<or>
           tag_of (db w) (pid, path) = expected_tag ifm \<and> tag_of (db w') = (tag_of (db w))((pid, path) := Some etag)"
    using dbw eff0 by (auto split: if_splits)
  show "s3 w' = s3 w" "cache w' = cache w" "the_hub w' = the_hub w" "clock w' = clock w" by (fact frames)+
qed

lemma DeleteFile_result:
  assumes ok: "db_ok (db w)" and run: "DeleteFile pid path ifm w = (r, w')"
  shows "db_ok (db w')"
    and "r = Inr () \<Longrightarrow> tag_of (db w) (pid, path) = Some ifm \<and> tag_of (db w') = (tag_of (db w))((pid, path) := None)"
    and "r = Inl e \<Longrightarrow> tag_of (db w') = tag_of (db w) \<or>
           tag_of (db w) (pid, path) = Some ifm \<and> tag_of (db w') = (tag_of (db w))((pid, path) := None)"
    and "\<exists>fs. db w' = (db w)\<lparr>files := fs\<rparr>"
    and "s3 w' = s3 w" "cache w' = cache w" "the_hub w' = the_hub w" "clock w' = clock w"
proof -
  obtain q w1 where call: "db_call (delete_file pid path ifm) w = (q, w1)" by fastforce
  obtain r0 d0 where stmt: "delete_file pid path ifm (clock w) (db w) = (r0, d0)" by fastforce
  have same: "db w' = db w1" "s3 w' = s3 w1" "cache w' = cache w1" "the_hub w' = the_hub w1" "clock w' = clock w1"
    using run call db_call_query [of "\<lambda>d. Inr (file_of d pid path \<noteq> None)" w1]
      db_call_frame [of "query (\<lambda>d. Inr (file_of d pid path \<noteq> None))" w1]
    by (auto simp: DeleteFile_def split: sum.splits prod.splits if_splits)
  have dbw: "db w1 = db w \<or> db w1 = d0"
    and frames: "s3 w1 = s3 w" "cache w1 = cache w" "the_hub w1 = the_hub w" "clock w1 = clock w"
    using db_call_db [of "delete_file pid path ifm" w] db_call_frame [of "delete_file pid path ifm" w] call stmt by auto
  have inr: "q = Inr n \<Longrightarrow> r0 = Inr n \<and> db w1 = d0" for n
    using db_call_Inr [of "delete_file pid path ifm" w] call stmt by auto
  have r0: "r0 = Inr (if tag_of (db w) (pid, path) = Some ifm then 1 else 0)"
    using file_of_delete_file(1)[OF ok stmt] by (simp add: tag_of_def)
  have d0: "tag_of d0 = (if tag_of (db w) (pid, path) = Some ifm then (tag_of (db w))((pid, path) := None) else tag_of (db w))"
    using file_of_delete_file(2)[OF ok stmt] r0 by (auto simp: tag_of_def fun_eq_iff)
  show "db_ok (db w')"
    using db_call_keeps_ok [OF keeps_ok_delete_file ok] call same(1) by (metis snd_conv)
  show "\<exists>fs. db w' = (db w)\<lparr>files := fs\<rparr>"
    using dbw same(1) stmt by (auto simp: delete_file_def Let_def intro: exI [of _ "files (db w)"])
  show "r = Inr () \<Longrightarrow> tag_of (db w) (pid, path) = Some ifm \<and> tag_of (db w') = (tag_of (db w))((pid, path) := None)"
    using run call inr r0 d0 same(1) by (auto simp: DeleteFile_def split: sum.splits prod.splits if_splits)
  show "r = Inl e \<Longrightarrow> tag_of (db w') = tag_of (db w) \<or>
           tag_of (db w) (pid, path) = Some ifm \<and> tag_of (db w') = (tag_of (db w))((pid, path) := None)"
    using dbw d0 same(1) by (auto split: if_splits)
  show "s3 w' = s3 w" "cache w' = cache w" "the_hub w' = the_hub w" "clock w' = clock w"
    using frames same by simp_all
qed

section \<open>The files table is a versioned store\<close>

text \<open>The three statements that change \<open>files\<close>: the conditional upsert and removal, and the
  unconditional removal of \<open>DeleteAttachmentHandler\<close>.\<close>

datatype file_op =
    Upsert uuid string string int string uuid string
  | Remove uuid string string
  | RemoveAny uuid string

fun file_op_exec :: "file_op \<Rightarrow> world \<Rightarrow> bool \<times> world" where
  "file_op_exec (Upsert pid path etag sz ct by ifm) w =
     (case UpsertFile pid path etag sz ct by ifm w of (r, w1) \<Rightarrow> (\<not> isl r, w1))"
| "file_op_exec (Remove pid path ifm) w = (case DeleteFile pid path ifm w of (r, w1) \<Rightarrow> (\<not> isl r, w1))"
| "file_op_exec (RemoveAny pid path) w =
     (case db_call (delete_file_any pid path) w of (r, w1) \<Rightarrow> (\<not> isl r, w1))"

fun file_op_key :: "file_op \<Rightarrow> uuid \<times> string" where
  "file_op_key (Upsert pid path _ _ _ _ _) = (pid, path)"
| "file_op_key (Remove pid path _) = (pid, path)"
| "file_op_key (RemoveAny pid path) = (pid, path)"

fun file_op_guard :: "file_op \<Rightarrow> string option \<Rightarrow> bool" where
  "file_op_guard (Upsert _ _ _ _ _ _ ifm) t \<longleftrightarrow> t = expected_tag ifm"
| "file_op_guard (Remove _ _ ifm) t \<longleftrightarrow> t = Some ifm"
| "file_op_guard (RemoveAny _ _) t \<longleftrightarrow> True"

fun file_op_writes :: "file_op \<Rightarrow> string option" where
  "file_op_writes (Upsert _ _ etag _ _ _ _) = Some etag"
| "file_op_writes (Remove _ _ _) = None"
| "file_op_writes (RemoveAny _ _) = None"

lemma isr_unit: "\<not> isl r \<longleftrightarrow> r = Inr ()"
  by (cases r) auto

lemma delete_any_tags:
  assumes "db_ok (db w)" and "db_call (delete_file_any pid path) w = (r, w')"
  shows "db_ok (db w')"
    and "\<not> isl r \<Longrightarrow> tag_of (db w') = (tag_of (db w))((pid, path) := None)"
    and "tag_of (db w') = tag_of (db w) \<or> tag_of (db w') = (tag_of (db w))((pid, path) := None)"
    and "\<exists>fs. db w' = (db w)\<lparr>files := fs\<rparr>"
proof -
  obtain r0 d0 where stmt: "delete_file_any pid path (clock w) (db w) = (r0, d0)" by fastforce
  have t: "tag_of d0 = (tag_of (db w))((pid, path) := None)"
    using file_of_delete_file_any [OF assms(1) stmt] by (auto simp: tag_of_def fun_eq_iff)
  have dbw: "db w' = db w \<or> db w' = d0"
    using db_call_db [of "delete_file_any pid path" w] assms(2) stmt by auto
  show "db_ok (db w')"
    using db_call_keeps_ok [OF keeps_ok_delete_file_any assms(1)] assms(2) by (metis snd_conv)
  show "\<not> isl r \<Longrightarrow> tag_of (db w') = (tag_of (db w))((pid, path) := None)"
    using db_call_Inr [of "delete_file_any pid path" w] assms(2) stmt t by (cases r) auto
  show "tag_of (db w') = tag_of (db w) \<or> tag_of (db w') = (tag_of (db w))((pid, path) := None)"
    using dbw t by auto
  show "\<exists>fs. db w' = (db w)\<lparr>files := fs\<rparr>"
    using dbw stmt by (auto simp: delete_file_any_def Let_def intro: exI [of _ "files (db w)"])
qed

interpretation fstore: versioned_store "\<lambda>w :: world. db_ok (db w)" "\<lambda>w. tag_of (db w)"
  file_op_exec file_op_key file_op_guard file_op_writes
proof
  fix w :: world and oper assume "db_ok (db w)"
  then show "db_ok (db (snd (file_op_exec oper w)))"
    by (cases oper) (auto split: prod.splits dest: UpsertFile_result(1) DeleteFile_result(1) delete_any_tags(1))
next
  fix w oper w' assume "db_ok (db w)" "file_op_exec oper w = (True, w')"
  then show "file_op_guard oper (tag_of (db w) (file_op_key oper)) \<and>
      tag_of (db w') = (tag_of (db w))(file_op_key oper := file_op_writes oper)"
    by (cases oper) (auto simp: isr_unit split: prod.splits
        dest: UpsertFile_result(2) DeleteFile_result(2) delete_any_tags(2))
next
  fix w oper w' assume "db_ok (db w)" "file_op_exec oper w = (False, w')"
  then show "tag_of (db w') = tag_of (db w) \<or> file_op_guard oper (tag_of (db w) (file_op_key oper)) \<and>
      tag_of (db w') = (tag_of (db w))(file_op_key oper := file_op_writes oper)"
    by (cases oper) (auto simp: isl_def split: prod.splits
        dest: UpsertFile_result(4) DeleteFile_result(3) delete_any_tags(3))
qed

section \<open>Properties\<close>

text \<open>Three writers in turn: the third expects what the second wrote, not what the first wrote.\<close>

definition sample_ops :: "file_op list" where
  "sample_ops = [Upsert 7 ''0001.md'' ''aa'' 1 ''t'' 2 '''', Upsert 7 ''0001.md'' ''bb'' 2 ''t'' 2 ''aa'',
     Upsert 7 ''0001.md'' ''cc'' 3 ''t'' 2 ''bb'']"

lemmas queries_eval = UpsertFile_def update_file_def insert_file_def DeleteFile_def delete_file_def file_of_def
  file_key_def db_call_def next_fate_def query_def user_ids_def project_ids_def expected_tag_def tag_of_def

lemma sample_ops_run: "fst (run_ops file_op_exec sample_ops sample_world) = [True, True, True]"
  by (simp add: sample_ops_def queries_eval sample_defs)

text \<open>No lost update on the \<open>files\<close> table: in any sequence of the three statements, issued by any
  number of interleaved requests and with any pattern of failed and unacknowledged calls, if the
  upsert at position \<open>i\<close> succeeded with the new tag \<open>etag\<close>, a later upsert of the same path that expects
  another tag (or, with an empty If-Match, no row) succeeds only after some statement in between
  has put exactly that state back.\<close>

theorem files_no_lost_update:
  assumes "db_ok (db w)" and "run_ops file_op_exec ops w = (bs, w')"
    and "i < j" and "j < length ops" and "bs ! i" and "bs ! j"
    and "ops ! i = Upsert pid path etag sz ct usr ifm" and "ops ! j = Upsert pid path etag' sz' ct' usr' ifm'"
    and "expected_tag ifm' \<noteq> Some etag"
  shows "\<exists>m. i < m \<and> m < j \<and> file_op_key (ops ! m) = (pid, path) \<and> file_op_writes (ops ! m) = expected_tag ifm'"
  using fstore.no_lost_update [OF assms(1-6), of "expected_tag ifm'"] assms(7-9) by auto

theorem files_no_lost_update_witness:
  "db_ok (db sample_world) \<and> fst (run_ops file_op_exec sample_ops sample_world) = [True, True, True] \<and>
   (\<exists>m. 0 < m \<and> m < 2 \<and> file_op_key (sample_ops ! m) = (7, ''0001.md'') \<and>
        file_op_writes (sample_ops ! m) = expected_tag ''bb'')"
proof -
  obtain w' where run: "run_ops file_op_exec sample_ops sample_world = ([True, True, True], w')"
    using sample_ops_run by (cases "run_ops file_op_exec sample_ops sample_world") simp
  have "\<exists>m. 0 < m \<and> m < 2 \<and> file_op_key (sample_ops ! m) = (7, ''0001.md'') \<and>
        file_op_writes (sample_ops ! m) = expected_tag ''bb''"
    by (rule files_no_lost_update [OF _ run, where etag = "''aa''" and ifm' = "''bb''"])
       (simp_all add: sample_ops_def numeral_2_eq_2 expected_tag_def)
  with run show ?thesis by simp
qed

text \<open>The result of \<open>UpsertFile\<close> on every branch: success exactly describes the new row, the
  other paths keep their tags and the new tag is only written over the tag the caller expected (no row,
  for an empty If-Match); a conflict means the expectation failed and changes no tag. Every
  outcome keeps the schema's constraints and writes no other table.\<close>

theorem UpsertFile_correct:
  assumes "db_ok (db w)" and "UpsertFile pid path etag sz ct usr ifm w = (r, w')"
  shows "db_ok (db w') \<and> (\<exists>fs. db w' = (db w)\<lparr>files := fs\<rparr>) \<and>
    (case r of
       Inr _ \<Rightarrow> tag_of (db w) (pid, path) = expected_tag ifm \<and>
         tag_of (db w') = (tag_of (db w))((pid, path) := Some etag) \<and>
         (\<exists>f. file_of (db w') pid path = Some f \<and> f_etag f = etag \<and> f_size f = sz \<and>
              f_content_type f = ct \<and> f_modified_at f = clock w \<and> f_modified_by f = usr)
     | Inl ErrETagConflict \<Rightarrow> tag_of (db w) (pid, path) \<noteq> expected_tag ifm \<and> tag_of (db w') = tag_of (db w)
     | Inl _ \<Rightarrow> tag_of (db w') = tag_of (db w) \<or>
         tag_of (db w) (pid, path) = expected_tag ifm \<and> tag_of (db w') = (tag_of (db w))((pid, path) := Some etag))"
  using UpsertFile_result [OF assms] by (cases r) (auto split: err.splits)

theorem UpsertFile_correct_witness:
  "fst (UpsertFile 7 ''0001.md'' ''aa'' 1 ''t'' 2 '''' sample_world) = Inr () \<and>
   tag_of (db (snd (UpsertFile 7 ''0001.md'' ''aa'' 1 ''t'' 2 '''' sample_world))) (7, ''0001.md'') = Some ''aa''"
proof -
  obtain w' where run: "UpsertFile 7 ''0001.md'' ''aa'' 1 ''t'' 2 '''' sample_world = (Inr (), w')"
    by (simp add: queries_eval sample_defs)
  with UpsertFile_correct [OF _ run] show ?thesis by simp
qed

text \<open>Without failures \<open>DeleteFile\<close> tells the three cases apart: the row is removed when its tag is
  the expected one, a conflict is reported when there is a row with another tag, and
  \<open>pgx.ErrNoRows\<close> when there is none.\<close>

theorem DeleteFile_cases:
  assumes "db_ok (db w)" and "fates w = []"
  shows "fst (DeleteFile pid path ifm w) =
      (case tag_of (db w) (pid, path) of
         None \<Rightarrow> Inl ErrNoRows | Some t \<Rightarrow> if t = ifm then Inr () else Inl ErrETagConflict) \<and>
    tag_of (db (snd (DeleteFile pid path ifm w))) =
      (if tag_of (db w) (pid, path) = Some ifm then (tag_of (db w))((pid, path) := None) else tag_of (db w))"
proof -
  obtain r0 d0 where stmt: "delete_file pid path ifm (clock w) (db w) = (r0, d0)" by fastforce
  note f = file_of_delete_file [OF assms(1) stmt]
  show ?thesis
    using assms(2) stmt f
    by (auto simp: DeleteFile_def db_call_Done query_def tag_of_def fun_eq_iff split: option.splits if_splits)
qed

theorem DeleteFile_cases_witness:
  "fst (DeleteFile 7 ''0001.md'' ''zz'' sample_world) = Inl ErrNoRows \<and>
   tag_of (db (snd (DeleteFile 7 ''0001.md'' ''zz'' sample_world))) = tag_of (db sample_world)"
  using DeleteFile_cases [of sample_world 7 "''0001.md''" "''zz''"]
  by (simp add: tag_of_def file_of_def)

text \<open>The listing of a project: \<open>IssuesForProject\<close> returns, in the order of the collation, exactly
  one entry per row of the project whose path is four digits and \<open>.md\<close>; the identifier of an entry
  is a valid issue identifier and leads back to the row's path, and its tag is the row's tag.\<close>

theorem IssuesForProject_correct:
  assumes "IssuesForProject L pid w = (Inr ms, w')"
  shows "(\<forall>m \<in> set ms. issueIDPattern_MatchString (im_id m) \<and>
             (\<exists>f \<in> set (files (db w)). f_project_id f = pid \<and> f_path f = im_id m @ ''.md'' \<and> im_etag m = Some (f_etag f))) \<and>
    (\<forall>f \<in> set (files (db w)). f_project_id f = pid \<longrightarrow> issue_path_pattern (f_path f) \<longrightarrow>
       \<lparr>im_id = TrimSuffix (f_path f) ''.md'', im_etag = Some (f_etag f)\<rparr> \<in> set ms) \<and>
    length ms = length (filter (\<lambda>f. f_project_id f = pid \<and> issue_path_pattern (f_path f)) (files (db w))) \<and>
    sorted (map (\<lambda>m. collate L (im_id m @ ''.md'')) ms)"
proof -
  let ?fs = "filter (\<lambda>f. f_project_id f = pid \<and> issue_path_pattern (f_path f)) (files (db w))"
  let ?g = "\<lambda>f. \<lparr>im_id = TrimSuffix (f_path f) ''.md'', im_etag = Some (f_etag f)\<rparr>"
  have ms: "ms = map ?g (sort_key (\<lambda>f. collate L (f_path f)) ?fs)"
    using db_call_query_Inr [OF assms [unfolded IssuesForProject_def]] by simp
  have path: "issueIDPattern_MatchString (im_id (?g f)) \<and> im_id (?g f) @ ''.md'' = f_path f" if "f \<in> set ?fs" for f
    using that by (auto simp: issue_path_pattern_iff)
  have "map (\<lambda>m. collate L (im_id m @ ''.md'')) ms = map (\<lambda>f. collate L (f_path f)) (sort_key (\<lambda>f. collate L (f_path f)) ?fs)"
    unfolding ms using path by simp
  then have srt: "sorted (map (\<lambda>m. collate L (im_id m @ ''.md'')) ms)" by simp
  show ?thesis
    using path srt unfolding ms by (intro conjI) (auto simp: image_iff Bex_def)
qed

theorem IssuesForProject_correct_witness:
  "\<exists>ms w'. IssuesForProject sample_lib 7 (snd (UpsertFile 7 ''0001.md'' ''aa'' 1 ''t'' 2 '''' sample_world)) = (Inr ms, w') \<and>
     length ms = 1 \<and> (\<forall>m \<in> set ms. issueIDPattern_MatchString (im_id m))"
proof -
  let ?w = "snd (UpsertFile 7 ''0001.md'' ''aa'' 1 ''t'' 2 '''' sample_world)"
  have fs: "map f_path (files (db ?w)) = [''0001.md''] \<and> map f_project_id (files (db ?w)) = [7] \<and> fates ?w = []"
    by (simp add: queries_eval sample_defs)
  then obtain ms w' where run: "IssuesForProject sample_lib 7 ?w = (Inr ms, w')"
    by (simp add: IssuesForProject_def db_call_Done query_def)
  from IssuesForProject_correct [OF run] fs have "length ms = 1 \<and> (\<forall>m \<in> set ms. issueIDPattern_MatchString (im_id m))"
    by (auto simp: issue_path_pattern_def issueIDPattern_MatchString_def is_digit_def)
  with run show ?thesis by blast
qed

section \<open>Without failures\<close>

lemma upsert_stmt_succeeds:
  assumes ok: "db_ok d" and "tag_of d (pid, path) = expected_tag ifm" and "pid \<in> project_ids d" and "usr \<in> user_ids d"
  shows "fst (upsert_stmt pid path etag sz ct usr ifm t d) = Inr 1"
proof (cases "ifm = ''''")
  case True
  with assms show ?thesis
    by (simp add: upsert_stmt_def insert_file_def tag_of_def expected_tag_def)
next
  case False
  obtain r d' where run: "update_file pid path etag sz ct usr ifm t d = (r, d')" by fastforce
  from file_of_update_file(1)[OF ok run] assms(2,4) False run show ?thesis
    by (auto simp: upsert_stmt_def tag_of_def expected_tag_def)
qed

lemma UpsertFile_Done:
  assumes "db_ok (db w)" and "fates w = []" and "tag_of (db w) (pid, path) = expected_tag ifm"
    and "pid \<in> project_ids (db w)" and "usr \<in> user_ids (db w)"
  shows "\<exists>w'. UpsertFile pid path etag sz ct usr ifm w = (Inr (), w') \<and> fates w' = []"
  using upsert_stmt_succeeds [OF assms(1,3-5), of etag sz ct "clock w"] assms(2)
  by (simp add: UpsertFile_upsert_stmt db_call_Done)

lemma db_call_query_Done: "fates w = [] \<Longrightarrow> db_call (query f) w = (f (db w), w)"
  by (simp add: db_call_Done query_def)

end
