(* ===== verification/Object_Store.thy ===== *)
theory Object_Store
  imports Sample
begin

text \<open>
  The bucket: \<^verbatim>\<open>internal/storage/s3read.go\<close> and \<^verbatim>\<open>internal/storage/s3write.go\<close>. The service itself
  is a map from keys to objects: a put replaces the object, a delete succeeds whether or not the key is
  there, a get of a missing key is an error.

  A response body that is streamed may break in the middle: \<open>stream\<close> consumes one fate, and on
  failure the client has got a prefix of the bytes.
\<close>

definition PutObject :: "string \<Rightarrow> bytes \<Rightarrow> string \<Rightarrow> string \<Rightarrow> world \<Rightarrow> (err + unit) \<times> world" where
  "PutObject key body contentType etag =
     s3_call (\<lambda>b. (Inr (), b(key \<mapsto> \<lparr>o_body = body, o_content_type = contentType, o_meta_etag = etag\<rparr>)))"

definition DeleteS3Object :: "string \<Rightarrow> world \<Rightarrow> (err + unit) \<times> world" where
  "DeleteS3Object key = s3_call (\<lambda>b. (Inr (), b(key := None)))"

definition strip_quotes :: "string \<Rightarrow> string" where
  "strip_quotes raw =
     (if length raw \<ge> 2 \<and> hd raw = CHR 0x22 \<and> last raw = CHR 0x22 then butlast (tl raw) else raw)"

definition GetObject :: "lib \<Rightarrow> string \<Rightarrow> world \<Rightarrow> (err + (bytes \<times> string)) \<times> world" where
  "GetObject L key w =
     (case s3_call (\<lambda>b. (case b key of None \<Rightarrow> Inl ErrIO | Some ob \<Rightarrow> Inr ob, b)) w of
        (Inl e, w1) \<Rightarrow> (Inl e, w1)
      | (Inr ob, w1) \<Rightarrow>
          (Inr (o_body ob, case s3_ETag L ob of None \<Rightarrow> '''' | Some raw \<Rightarrow> strip_quotes raw), w1))"

text \<open>The bytes of a stream that reach the client, and whether all of them did.\<close>

definition stream :: "lib \<Rightarrow> bytes \<Rightarrow> world \<Rightarrow> (bytes \<times> bool) \<times> world" where
  "stream L body w =
     (case next_fate w of
        (Done, w1) \<Rightarrow> ((body, True), w1)
      | (_, w1) \<Rightarrow> ((take (read_prefix L body) body, False), w1))"

text \<open>\<open>StreamObject\<close> writes to a \<open>ResponseWriter\<close>: the result is what it has written so far, on
  every path. Nothing is written when the object cannot be fetched; \<open>net/http\<close> then
  answers 200 with an empty body, like for a handler that returns without writing.\<close>

definition StreamObject :: "lib \<Rightarrow> string \<Rightarrow> string \<Rightarrow> world \<Rightarrow> (err option \<times> response) \<times> world" where
  "StreamObject L key contentType w =
     (case GetObject L key w of
        (Inl e, w1) \<Rightarrow> ((Some e, \<lparr>rs_status = 200, rs_headers = [], rs_content = NoContent\<rparr>), w1)
      | (Inr (body, etag), w1) \<Rightarrow>
          (case stream L body w1 of
             ((sent, whole), w2) \<Rightarrow>
               ((if whole then None else Some ErrIO,
                 \<lparr>rs_status = 200,
                  rs_headers = (if contentType \<noteq> '''' then [(''Content-Type'', contentType)] else []) @
                               (if etag \<noteq> '''' then [(''ETag'', quoted etag)] else []),
                  rs_content = RawBody sent\<rparr>), w2)))"

lemma strip_quotes_quoted [simp]: "strip_quotes (quoted s) = s"
  by (simp add: strip_quotes_def quoted_def)

lemma PutObject_Inr: "PutObject key body ct etag w = (Inr x, w') \<Longrightarrow>
  s3 w' = (s3 w)(key \<mapsto> \<lparr>o_body = body, o_content_type = ct, o_meta_etag = etag\<rparr>)"
  by (auto simp: PutObject_def dest: s3_call_Inr)

lemma PutObject_s3: "s3 (snd (PutObject key body ct etag w)) \<in>
    {s3 w, (s3 w)(key \<mapsto> \<lparr>o_body = body, o_content_type = ct, o_meta_etag = etag\<rparr>)}"
  using s3_call_s3 [of "\<lambda>b. (Inr (), b(key \<mapsto> \<lparr>o_body = body, o_content_type = ct, o_meta_etag = etag\<rparr>))" w]
  by (auto simp: PutObject_def)

lemma PutObject_frame [frame]:
  "db (snd (PutObject key body ct etag w)) = db w" "cache (snd (PutObject key body ct etag w)) = cache w"
  "the_hub (snd (PutObject key body ct etag w)) = the_hub w" "clock (snd (PutObject key body ct etag w)) = clock w"
  by (simp_all add: PutObject_def s3_call_frame)

lemma DeleteS3Object_s3: "s3 (snd (DeleteS3Object key w)) \<in> {s3 w, (s3 w)(key := None)}"
  using s3_call_s3 [of "\<lambda>b. (Inr (), b(key := None))" w] by (auto simp: DeleteS3Object_def)

lemma DeleteS3Object_frame [frame]:
  "db (snd (DeleteS3Object key w)) = db w" "cache (snd (DeleteS3Object key w)) = cache w"
  "the_hub (snd (DeleteS3Object key w)) = the_hub w" "clock (snd (DeleteS3Object key w)) = clock w"
  by (simp_all add: DeleteS3Object_def s3_call_frame)

lemma GetObject_Inr: "GetObject L key w = (Inr (body, tag), w') \<Longrightarrow>
  \<exists>ob. s3 w key = Some ob \<and> body = o_body ob \<and> tag = (case s3_ETag L ob of None \<Rightarrow> '''' | Some raw \<Rightarrow> strip_quotes raw)"
  by (auto simp: GetObject_def dest!: s3_call_Inr split: prod.splits sum.splits option.splits)

lemma GetObject_frame [frame]:
  "db (snd (GetObject L key w)) = db w" "s3 (snd (GetObject L key w)) = s3 w"
  "cache (snd (GetObject L key w)) = cache w" "the_hub (snd (GetObject L key w)) = the_hub w"
proof -
  let ?g = "\<lambda>b. (case b key of None \<Rightarrow> Inl ErrIO | Some ob \<Rightarrow> Inr ob, b)"
  have "snd (GetObject L key w) = snd (s3_call ?g w)"
    by (simp add: GetObject_def split: prod.splits sum.splits)
  moreover have "s3 (snd (s3_call ?g w)) = s3 w"
    using s3_call_s3 [of ?g w] by simp
  ultimately show "db (snd (GetObject L key w)) = db w" "s3 (snd (GetObject L key w)) = s3 w"
    "cache (snd (GetObject L key w)) = cache w" "the_hub (snd (GetObject L key w)) = the_hub w"
    by (simp_all add: s3_call_frame)
qed

end
