(* ===== verification/Api_Common.thy ===== *)
theory Api_Common
  imports Queries Object_Store
begin

text \<open>
  What the handlers of \<^verbatim>\<open>internal/api/v1\<close> share: \<open>writeError\<close> (deps.go), the role checks and the
  mapping of errors to status codes (authz.go), \<open>resolveUser\<close> (folders.go) and
  \<open>parseFolderID\<close> (issues.go).

  A handler is a function from the request and the world to a response and the next world. An early
  \<open>return\<close> after a failed check is \<open>or_return\<close>: the left alternative of the check's result is the
  response, the right one is bound in the rest of the handler.

  Shown: the checks read and never write (\<open>quiet\<close>); a passed role check means the user is a global
  admin or a member of the project with at least the required role, and the checks
  give each error its status code.
\<close>

definition or_return :: "('r + 'a) \<times> world \<Rightarrow> ('a \<Rightarrow> world \<Rightarrow> 'r \<times> world) \<Rightarrow> 'r \<times> world" where
  "or_return x k = (case x of (Inl resp, w) \<Rightarrow> (resp, w) | (Inr a, w) \<Rightarrow> k a w)"

lemma or_return_simps [simp]: "or_return (Inl resp, w) k = (resp, w)" "or_return (Inr a, w) k = k a w"
  by (simp_all add: or_return_def)

lemma or_returnE:
  assumes "or_return x k = (resp, w')"
  obtains (ret) "x = (Inl resp, w')" | (cont) a w1 where "x = (Inr a, w1)" "k a w1 = (resp, w')"
  using assms by (cases x; cases "fst x") auto

text \<open>A step that only looks: the world is as before, up to the fates it has used up
  (and none appear).\<close>

definition quiet :: "world \<Rightarrow> world \<Rightarrow> bool" where
  "quiet w w' \<longleftrightarrow> db w' = db w \<and> s3 w' = s3 w \<and> cache w' = cache w \<and> the_hub w' = the_hub w \<and> clock w' = clock w \<and>
     (fates w = [] \<longrightarrow> fates w' = [])"

lemma quiet_refl [simp, intro!]: "quiet w w"
  by (simp add: quiet_def)

lemma quiet_trans: "quiet w w1 \<Longrightarrow> quiet w1 w2 \<Longrightarrow> quiet w w2"
  by (simp add: quiet_def)

lemma quietD:
  "quiet w w' \<Longrightarrow> db w' = db w" "quiet w w' \<Longrightarrow> s3 w' = s3 w" "quiet w w' \<Longrightarrow> cache w' = cache w"
  "quiet w w' \<Longrightarrow> the_hub w' = the_hub w" "quiet w w' \<Longrightarrow> clock w' = clock w"
  "quiet w w' \<Longrightarrow> fates w = [] \<Longrightarrow> fates w' = []"
  by (simp_all add: quiet_def)

lemma quiet_query: "db_call (query f) w = (r, w') \<Longrightarrow> quiet w w'"
  using db_call_frame [of "query f" w] db_call_query [of f w] db_call_fates [of w "query f"] by (simp add: quiet_def)

section \<open>deps.go and authz.go\<close>

definition writeError :: "nat \<Rightarrow> string \<Rightarrow> response" where
  "writeError code msg = \<lparr>rs_status = code, rs_headers = [(''Content-Type'', ''application/json'')],
     rs_content = JsonBody (JObj [(''error'', JStr msg)])\<rparr>"

definition roleRank :: "string \<Rightarrow> int" where
  "roleRank role = (if role = ''viewer'' then 1 else if role = ''editor'' then 2 else if role = ''admin'' then 3 else 0)"

definition ProjectRole :: "uuid \<Rightarrow> uuid \<Rightarrow> world \<Rightarrow> (err + string) \<times> world" where
  "ProjectRole userID projectID w =
     (case storage_ProjectRole userID projectID w of
        (Inl ErrNoRows, w1) \<Rightarrow> (Inl ErrForbidden, w1)
      | (Inl e, w1) \<Rightarrow> (Inl e, w1)
      | (Inr role, w1) \<Rightarrow> (Inr role, w1))"

definition RequireRole :: "string \<Rightarrow> string \<Rightarrow> err + unit" where
  "RequireRole userRole minRole = (if roleRank userRole \<ge> roleRank minRole then Inr () else Inl ErrForbidden)"

definition writeErrStatus :: "err \<Rightarrow> response" where
  "writeErrStatus e =
     (case e of
        ErrForbidden \<Rightarrow> writeError 403 ''forbidden''
      | ErrETagConflict \<Rightarrow> writeError 409 ''etag conflict''
      | ErrNoRows \<Rightarrow> writeError 404 ''not found''
      | _ \<Rightarrow> writeError 500 ''internal error'')"

text \<open>\<^verbatim>\<open>x, err := f(...); if writeErrStatus(w, err) { return }\<close>\<close>

definition checked :: "(err + 'a) \<times> world \<Rightarrow> (response + 'a) \<times> world" where
  "checked x = (case x of (Inl e, w) \<Rightarrow> (Inl (writeErrStatus e), w) | (Inr a, w) \<Rightarrow> (Inr a, w))"

section \<open>resolveUser and parseFolderID\<close>

definition resolveUser :: "lib \<Rightarrow> request \<Rightarrow> world \<Rightarrow> (response + (uuid \<times> bool)) \<times> world" where
  "resolveUser L r w =
     (case rq_user r of
        None \<Rightarrow> (Inl (writeError 401 ''unauthorized''), w)
      | Some userIDStr \<Rightarrow>
          (case uuid_Parse L userIDStr of
             None \<Rightarrow> (Inl (writeError 400 ''invalid user id''), w)
           | Some uid \<Rightarrow>
               (case UserByID uid w of
                  (Inl e, w1) \<Rightarrow> (Inl (writeError 500 ''internal error''), w1)
                | (Inr globalRole, w1) \<Rightarrow> (Inr (uid, globalRole = ''admin''), w1))))"

definition parseFolderID :: "lib \<Rightarrow> request \<Rightarrow> world \<Rightarrow> (response + uuid) \<times> world" where
  "parseFolderID L r w =
     (case uuid_Parse L (rq_path r ''folderId'') of
        None \<Rightarrow> (Inl (writeError 400 ''invalid folder id''), w)
      | Some i \<Rightarrow> (Inr i, w))"

section \<open>What the checks establish\<close>

text \<open>The rank a user holds in a project: 3 for a global admin, else the rank of the membership, else
  none at all.\<close>

definition rank_in :: "db \<Rightarrow> uuid \<Rightarrow> uuid \<Rightarrow> int option" where
  "rank_in d userID projectID =
     (case lookup_by u_id userID (users d) of
        None \<Rightarrow> None
      | Some u \<Rightarrow>
          if u_global_role u = ''admin'' then Some 3
          else map_option (\<lambda>m. roleRank (m_role m)) (lookup_by member_key (projectID, userID) (project_members d)))"

lemma resolveUser_quiet: "resolveUser L r w = (x, w') \<Longrightarrow> quiet w w'"
  by (auto simp: resolveUser_def UserByID_def split: option.splits prod.splits sum.splits dest: quiet_query)

lemma resolveUser_Inr:
  "resolveUser L r w = (Inr (uid, adm), w') \<Longrightarrow>
   \<exists>s u. rq_user r = Some s \<and> uuid_Parse L s = Some uid \<and> lookup_by u_id uid (users (db w)) = Some u \<and>
     adm = (u_global_role u = ''admin'')"
  by (auto simp: resolveUser_def UserByID_def one_row_def split: option.splits prod.splits sum.splits
      dest!: db_call_query_Inr)

lemma parseFolderID_quiet: "parseFolderID L r w = (x, w') \<Longrightarrow> w' = w"
  by (auto simp: parseFolderID_def split: option.splits)

lemma ProjectRole_quiet: "ProjectRole uid pid w = (x, w') \<Longrightarrow> quiet w w'"
  by (auto simp: ProjectRole_def storage_ProjectRole_def split: prod.splits sum.splits err.splits if_splits
      dest!: quiet_query intro: quiet_trans)

lemma storage_ProjectRole_Inr:
  assumes "storage_ProjectRole uid pid w = (Inr role, w')"
  shows "rank_in (db w) uid pid = Some (roleRank role)"
proof -
  obtain x w1 where user: "db_call (query (\<lambda>d. one_row (map_option u_global_role (lookup_by u_id uid (users d))))) w = (x, w1)"
    by fastforce
  then obtain g where x: "x = Inr g" using assms by (cases x) (auto simp: storage_ProjectRole_def)
  then obtain u where u: "lookup_by u_id uid (users (db w)) = Some u" "u_global_role u = g"
    using db_call_query_Inr [OF user [unfolded x]] by (auto simp: one_row_def split: option.splits)
  show ?thesis
  proof (cases "g = ''admin''")
    case True
    with assms user x have "role = ''admin''" by (simp add: storage_ProjectRole_def)
    with u True show ?thesis by (simp add: rank_in_def roleRank_def)
  next
    case False
    let ?member = "\<lambda>d. map_option m_role (lookup_by member_key (pid, uid) (project_members d))"
    have "db_call (query (\<lambda>d. one_row (?member d))) w1 = (Inr role, w')"
      using assms user x False by (simp add: storage_ProjectRole_def)
    from db_call_query_Inr [OF this] have "?member (db w) = Some role"
      using quietD(1)[OF quiet_query [OF user]] by (simp add: one_row_def split: option.splits)
    with u False show ?thesis by (auto simp: rank_in_def)
  qed
qed

lemma ProjectRole_Inr:
  "ProjectRole uid pid w = (Inr role, w') \<Longrightarrow> rank_in (db w) uid pid = Some (roleRank role)"
  by (auto simp: ProjectRole_def split: prod.splits sum.splits err.splits dest: storage_ProjectRole_Inr)

lemma checked_quiet: "checked x = (y, w') \<Longrightarrow> snd x = w'"
  by (auto simp: checked_def split: prod.splits sum.splits)

lemma checked_Inr: "checked x = (Inr a, w') \<Longrightarrow> x = (Inr a, w')"
  by (auto simp: checked_def split: prod.splits sum.splits)

lemma rank_editor_iff: "roleRank role \<ge> roleRank ''editor'' \<longleftrightarrow> role \<in> {''editor'', ''admin''}"
  by (auto simp: roleRank_def)

lemma rank_admin_iff: "roleRank role \<ge> roleRank ''admin'' \<longleftrightarrow> role = ''admin''"
  by (auto simp: roleRank_def)

end
