(* ===== verification/Sessions.thy ===== *)
theory Sessions
  imports Api_Common
begin

text \<open>
  Tokens and sessions: \<^verbatim>\<open>internal/auth/session.go\<close>, \<^verbatim>\<open>internal/auth/invite.go\<close>,
  \<^verbatim>\<open>internal/auth/bootstrap.go\<close> and the two middlewares of \<^verbatim>\<open>internal/auth/middleware.go\<close>.

  What the functions draw from outside is an argument: the random bytes (\<open>None\<close> when the generator
  fails), the key that \<open>gen_random_uuid()\<close> gives to a new row, the fresh \<open>jti\<close> of an invite. The signing and parsing of tokens
  is golang-jwt (\<open>lib\<close>, with \<open>jwt_laws\<close> where it matters). The clock of the server and of the
  database is the same.

  Shown: a session that is issued is accepted until it expires; a revoked, expired or unknown one never is; a
  refresh token is worthless once rotated; an invite is redeemed once in sequence, but twice when two redemptions interleave; the
  status of a user is never looked at.
\<close>

section \<open>Errors and constants\<close>

datatype auth_err =
    SignFailed | RandFailed | DbFailed err | NotFound | Revoked | Expired | TooSoon | BadToken | AlreadyUsed

definition accessTokenDuration :: time where "accessTokenDuration = 15 * 60 * 1000000"
definition refreshTokenDuration :: time where "refreshTokenDuration = 30 * 24 * 3600 * 1000000"
definition webSessionDuration :: time where "webSessionDuration = 7 * 24 * 3600 * 1000000"
definition refreshGraceWindow :: time where "refreshGraceWindow = 30 * 1000000"
definition inviteDuration :: time where "inviteDuration = 7 * 24 * 3600 * 1000000"
definition enrollDuration :: time where "enrollDuration = 24 * 3600 * 1000000"

record TokenPair =
  AccessToken :: string
  RefreshToken :: string

section \<open>session.go\<close>

definition native_claims :: "string \<Rightarrow> time \<Rightarrow> jwt_claims" where
  "native_claims userID now =
     \<lparr>jc_sub = Some (JStr userID), jc_iat = seconds now, jc_exp = seconds (now + accessTokenDuration)\<rparr>"

definition insert_session :: "uuid \<Rightarrow> uuid \<Rightarrow> string \<Rightarrow> bytes \<Rightarrow> string \<Rightarrow> time \<Rightarrow> unit stmt" where
  "insert_session newID userID kind hash label expires t d =
     (if newID \<in> s_id ` set (sessions d) \<or> hash \<in> s_refresh_token_hash ` set (sessions d) \<or> userID \<notin> user_ids d \<or> kind \<notin> {''web'', ''native''}
      then (Inl ErrConstraint, d)
      else (Inr (), d\<lparr>sessions := sessions d @
             [\<lparr>s_id = newID, s_user_id = userID, s_kind = kind, s_refresh_token_hash = hash, s_client_label = label,
               s_created_at = t, s_last_seen_at = t, s_expires_at = expires, s_revoked_at = None\<rparr>]\<rparr>))"

text \<open>The user is a string here; the database casts it.\<close>

definition insert_session_str :: "lib \<Rightarrow> uuid \<Rightarrow> string \<Rightarrow> string \<Rightarrow> bytes \<Rightarrow> string \<Rightarrow> time \<Rightarrow> unit stmt" where
  "insert_session_str L newID userID kind hash label expires t d =
     (case pg_uuid L userID of
        None \<Rightarrow> (Inl ErrIO, d)
      | Some u \<Rightarrow> insert_session newID u kind hash label expires t d)"

definition IssueNativeSession ::
  "lib \<Rightarrow> bytes option \<Rightarrow> uuid \<Rightarrow> string \<Rightarrow> string \<Rightarrow> bytes \<Rightarrow> world \<Rightarrow> (auth_err + TokenPair) \<times> world" where
  "IssueNativeSession L rnd newID userID clientLabel jwtKey w =
     (let now = clock w in
      case jwt_SignedString L jwtKey (native_claims userID now) of
        None \<Rightarrow> (Inl SignFailed, w)
      | Some accessToken \<Rightarrow>
     (case rnd of
        None \<Rightarrow> (Inl RandFailed, w)
      | Some rawRefresh \<Rightarrow>
     let refreshToken = hex_EncodeToString rawRefresh;
         refreshHash = hashToken refreshToken in
     (case db_call (insert_session_str L newID userID ''native'' refreshHash clientLabel (now + refreshTokenDuration)) w of
        (Inl e, w1) \<Rightarrow> (Inl (DbFailed e), w1)
      | (Inr _, w1) \<Rightarrow> (Inr \<lparr>AccessToken = accessToken, RefreshToken = refreshToken\<rparr>, w1))))"

definition IssueWebSession :: "bytes option \<Rightarrow> uuid \<Rightarrow> uuid \<Rightarrow> world \<Rightarrow> (auth_err + string) \<times> world" where
  "IssueWebSession rnd newID userID w =
     (case rnd of
        None \<Rightarrow> (Inl RandFailed, w)
      | Some rawID \<Rightarrow>
     let sessionID = hex_EncodeToString rawID;
         sessionHash = hashToken sessionID in
     (case db_call (insert_session newID userID ''web'' sessionHash '''' (clock w + webSessionDuration)) w of
        (Inl e, w1) \<Rightarrow> (Inl (DbFailed e), w1)
      | (Inr _, w1) \<Rightarrow> (Inr sessionID, w1)))"

text \<open>\<open>GetSubject\<close> of a claim set without \<open>sub\<close> is the empty string, of a \<open>sub\<close> that is not a string
  an error.\<close>

definition ValidateAccessToken :: "lib \<Rightarrow> time \<Rightarrow> string \<Rightarrow> bytes \<Rightarrow> auth_err + string" where
  "ValidateAccessToken L now tokenStr jwtKey =
     (case jwt_Parse L jwtKey now tokenStr of
        None \<Rightarrow> Inl BadToken
      | Some c \<Rightarrow>
          (case jc_sub c of
             None \<Rightarrow> Inr ''''
           | Some (JStr s) \<Rightarrow> Inr s
           | Some _ \<Rightarrow> Inl BadToken))"

definition session_of :: "db \<Rightarrow> string \<Rightarrow> bytes \<Rightarrow> session_row option" where
  "session_of d kind hash = find (\<lambda>s. s_refresh_token_hash s = hash \<and> s_kind s = kind) (sessions d)"

definition touch_session :: "bytes \<Rightarrow> unit stmt" where
  "touch_session hash t d =
     (Inr (), d\<lparr>sessions := update_where (\<lambda>s. s_refresh_token_hash s = hash) (\<lambda>s. s\<lparr>s_last_seen_at := t\<rparr>) (sessions d)\<rparr>)"

definition ValidateWebSession :: "lib \<Rightarrow> string \<Rightarrow> world \<Rightarrow> (auth_err + string) \<times> world" where
  "ValidateWebSession L sessionID w =
     (let hash = hashToken sessionID in
      case db_call (query (\<lambda>d. one_row (session_of d ''web'' hash))) w of
        (Inl e, w1) \<Rightarrow> (Inl (if e = ErrNoRows then NotFound else DbFailed e), w1)
      | (Inr s, w1) \<Rightarrow>
          if s_revoked_at s \<noteq> None then (Inl Revoked, w1)
          else if clock w1 > s_expires_at s then (Inl Expired, w1)
          else (Inr (uuid_String L (s_user_id s)), snd (db_call (touch_session hash) w1)))"

definition rotate_session :: "uuid \<Rightarrow> bytes \<Rightarrow> time \<Rightarrow> unit stmt" where
  "rotate_session sessionID newHash expires t d =
     (if (\<exists>s \<in> set (sessions d). s_refresh_token_hash s = newHash \<and> s_id s \<noteq> sessionID) \<and> sessionID \<in> s_id ` set (sessions d)
      then (Inl ErrConstraint, d)
      else (Inr (), d\<lparr>sessions := update_where (\<lambda>s. s_id s = sessionID)
             (\<lambda>s. s\<lparr>s_refresh_token_hash := newHash, s_last_seen_at := t, s_expires_at := expires\<rparr>) (sessions d)\<rparr>))"

definition RotateRefreshToken ::
  "lib \<Rightarrow> bytes option \<Rightarrow> string \<Rightarrow> bytes \<Rightarrow> world \<Rightarrow> (auth_err + TokenPair) \<times> world" where
  "RotateRefreshToken L rnd oldRefreshToken jwtKey w =
     (let oldHash = hashToken oldRefreshToken in
      case db_call (query (\<lambda>d. one_row (session_of d ''native'' oldHash))) w of
        (Inl e, w1) \<Rightarrow> (Inl (if e = ErrNoRows then NotFound else DbFailed e), w1)
      | (Inr s, w1) \<Rightarrow>
          if s_revoked_at s \<noteq> None then (Inl Revoked, w1)
          else if clock w1 > s_expires_at s then (Inl Expired, w1)
          else if clock w1 - s_last_seen_at s < refreshGraceWindow then (Inl TooSoon, w1)
          else
     (case rnd of
        None \<Rightarrow> (Inl RandFailed, w1)
      | Some rawRefresh \<Rightarrow>
     let newRefreshToken = hex_EncodeToString rawRefresh;
         newRefreshHash = hashToken newRefreshToken;
         now = clock w1 in
     (case jwt_SignedString L jwtKey (native_claims (uuid_String L (s_user_id s)) now) of
        None \<Rightarrow> (Inl SignFailed, w1)
      | Some accessToken \<Rightarrow>
     (case db_call (rotate_session (s_id s) newRefreshHash (now + refreshTokenDuration)) w1 of
        (Inl e, w2) \<Rightarrow> (Inl (DbFailed e), w2)
      | (Inr _, w2) \<Rightarrow> (Inr \<lparr>AccessToken = accessToken, RefreshToken = newRefreshToken\<rparr>, w2)))))"

section \<open>invite.go\<close>

record InviteClaims =
  inv_Email :: string
  inv_Role :: string
  inv_ProjectIDs :: "string list"

definition uuidSliceFromStrings :: "lib \<Rightarrow> string list \<Rightarrow> uuid list" where
  "uuidSliceFromStrings L ss = List.map_filter (uuid_Parse L) ss"

definition insert_invite :: "uuid \<Rightarrow> string \<Rightarrow> string \<Rightarrow> uuid list \<Rightarrow> bytes \<Rightarrow> uuid \<Rightarrow> time \<Rightarrow> unit stmt" where
  "insert_invite newID email role pids hash createdBy expires t d =
     (if newID \<in> iv_id ` set (invites d) \<or> hash \<in> iv_token_hash ` set (invites d) \<or> createdBy \<notin> user_ids d
      then (Inl ErrConstraint, d)
      else (Inr (), d\<lparr>invites := invites d @
             [\<lparr>iv_id = newID, iv_email = email, iv_role = role, iv_project_ids = pids, iv_token_hash = hash,
               iv_created_by = createdBy, iv_expires_at = expires, iv_used_at = None\<rparr>]\<rparr>))"

definition MintInviteTokenWithDuration ::
  "lib \<Rightarrow> uuid \<Rightarrow> uuid \<Rightarrow> uuid \<Rightarrow> string \<Rightarrow> string \<Rightarrow> string list \<Rightarrow> bytes \<Rightarrow> time \<Rightarrow> world \<Rightarrow> (auth_err + string) \<times> world" where
  "MintInviteTokenWithDuration L jti newID createdByUserID email role projectIDs key dur w =
     (let now = clock w;
          claims = \<lparr>ij_jti = uuid_String L jti, ij_iat = seconds now, ij_exp = seconds (now + dur),
                    ij_email = email, ij_role = role, ij_project_ids = projectIDs\<rparr> in
      case invite_SignedString L key claims of
        None \<Rightarrow> (Inl SignFailed, w)
      | Some rawToken \<Rightarrow>
          (case db_call (insert_invite newID email role (uuidSliceFromStrings L projectIDs) (inviteHash rawToken)
                           createdByUserID (now + dur)) w of
             (Inl e, w1) \<Rightarrow> (Inl (DbFailed e), w1)
           | (Inr _, w1) \<Rightarrow> (Inr rawToken, w1)))"

definition MintInviteToken ::
  "lib \<Rightarrow> uuid \<Rightarrow> uuid \<Rightarrow> uuid \<Rightarrow> string \<Rightarrow> string \<Rightarrow> string list \<Rightarrow> bytes \<Rightarrow> world \<Rightarrow> (auth_err + string) \<times> world" where
  "MintInviteToken L jti newID createdByUserID email role projectIDs key =
     MintInviteTokenWithDuration L jti newID createdByUserID email role projectIDs key inviteDuration"

text \<open>\<open>RedeemInviteToken\<close> is two statements, between which other requests may run: the check and the mark.\<close>

definition redeem_check :: "lib \<Rightarrow> string \<Rightarrow> bytes \<Rightarrow> world \<Rightarrow> (auth_err + InviteClaims) \<times> world" where
  "redeem_check L tokenStr key w =
     (case invite_Parse L key (clock w) tokenStr of
        None \<Rightarrow> (Inl BadToken, w)
      | Some c \<Rightarrow>
          (case db_call (query (\<lambda>d. one_row (lookup_by iv_token_hash (inviteHash tokenStr) (invites d)))) w of
             (Inl e, w1) \<Rightarrow> (Inl (if e = ErrNoRows then NotFound else DbFailed e), w1)
           | (Inr iv, w1) \<Rightarrow>
               if iv_used_at iv \<noteq> None then (Inl AlreadyUsed, w1)
               else if clock w1 > iv_expires_at iv then (Inl Expired, w1)
               else (Inr \<lparr>inv_Email = ij_email c, inv_Role = ij_role c, inv_ProjectIDs = ij_project_ids c\<rparr>, w1)))"

definition mark_used :: "bytes \<Rightarrow> unit stmt" where
  "mark_used hash t d =
     (Inr (), d\<lparr>invites := update_where (\<lambda>iv. iv_token_hash iv = hash) (\<lambda>iv. iv\<lparr>iv_used_at := Some t\<rparr>) (invites d)\<rparr>)"

definition redeem_mark :: "string \<Rightarrow> InviteClaims \<Rightarrow> world \<Rightarrow> (auth_err + InviteClaims) \<times> world" where
  "redeem_mark tokenStr claims w =
     (case db_call (mark_used (inviteHash tokenStr)) w of
        (Inl e, w1) \<Rightarrow> (Inl (DbFailed e), w1)
      | (Inr _, w1) \<Rightarrow> (Inr claims, w1))"

definition RedeemInviteToken :: "lib \<Rightarrow> string \<Rightarrow> bytes \<Rightarrow> world \<Rightarrow> (auth_err + InviteClaims) \<times> world" where
  "RedeemInviteToken L tokenStr key w =
     (case redeem_check L tokenStr key w of
        (Inl e, w1) \<Rightarrow> (Inl e, w1)
      | (Inr claims, w1) \<Rightarrow> redeem_mark tokenStr claims w1)"

section \<open>bootstrap.go\<close>

text \<open>Email is \<open>citext\<close>: compared without regard to case.\<close>

definition insert_user :: "uuid \<Rightarrow> string \<Rightarrow> string \<Rightarrow> uuid stmt" where
  "insert_user newID email role t d =
     (if newID \<in> user_ids d \<or> (\<exists>u \<in> set (users d). EqualFold (u_email u) email) \<or> role \<notin> {''admin'', ''member''}
      then (Inl ErrConstraint, d)
      else (Inr newID, d\<lparr>users := users d @
             [\<lparr>u_id = newID, u_email = email, u_display_name = '''', u_global_role = role, u_status = ''active'',
               u_created_at = t, u_updated_at = t\<rparr>]\<rparr>))"

definition Bootstrap ::
  "lib \<Rightarrow> uuid \<Rightarrow> uuid \<Rightarrow> uuid \<Rightarrow> string \<Rightarrow> bytes \<Rightarrow> string \<Rightarrow> world \<Rightarrow> (auth_err + string option) \<times> world" where
  "Bootstrap L newUser jti newInvite adminEmail inviteKey baseURL w =
     (case db_call (query (\<lambda>d. one_row (find (\<lambda>u. EqualFold (u_email u) adminEmail) (users d)))) w of
        (Inr _, w1) \<Rightarrow> (Inr None, w1)
      | (Inl e, w1) \<Rightarrow>
          if e \<noteq> ErrNoRows then (Inl (DbFailed e), w1)
          else
     (case db_call (insert_user newUser adminEmail ''admin'') w1 of
        (Inl e, w2) \<Rightarrow> (Inl (DbFailed e), w2)
      | (Inr adminID, w2) \<Rightarrow>
     (case MintInviteTokenWithDuration L jti newInvite adminID adminEmail ''admin'' [] inviteKey enrollDuration w2 of
        (Inl e, w3) \<Rightarrow> (Inl e, w3)
      | (Inr token, w3) \<Rightarrow> (Inr (Some (baseURL @ ''/admin/enroll/'' @ token)), w3))))"

section \<open>middleware.go\<close>

definition writeUnauthorized :: "string \<Rightarrow> response" where
  "writeUnauthorized msg = writeError 401 msg"

definition RequireAuth ::
  "lib \<Rightarrow> bytes \<Rightarrow> (request \<Rightarrow> world \<Rightarrow> response \<times> world) \<Rightarrow> request \<Rightarrow> world \<Rightarrow> response \<times> world" where
  "RequireAuth L jwtKey next_handler r w =
     (let authHeader = rq_header r ''Authorization'' in
      if authHeader = '''' then (writeUnauthorized ''missing authorization header'', w)
      else
      (case SplitN2 authHeader CHR '' '' of
         [scheme, tokenStr] \<Rightarrow>
           if \<not> EqualFold scheme ''Bearer'' then (writeUnauthorized ''invalid authorization header format'', w)
           else
           (case ValidateAccessToken L (clock w) tokenStr jwtKey of
              Inl _ \<Rightarrow> (writeUnauthorized ''invalid or expired token'', w)
            | Inr userID \<Rightarrow> next_handler (r\<lparr>rq_user := Some userID\<rparr>) w)
       | _ \<Rightarrow> (writeUnauthorized ''invalid authorization header format'', w)))"

text \<open>The console answers with pages of its own, so the answer of the wrapped handler is a parameter, with \<open>http.Redirect\<close> for it.\<close>

definition RequireWebAuth ::
  "lib \<Rightarrow> (string \<Rightarrow> nat \<Rightarrow> 'resp) \<Rightarrow> (request \<Rightarrow> world \<Rightarrow> 'resp \<times> world) \<Rightarrow> request \<Rightarrow> world \<Rightarrow> 'resp \<times> world" where
  "RequireWebAuth L redirect next_handler r w =
     (case rq_cookie r ''issued_session'' of
        None \<Rightarrow> (redirect ''/admin/login'' 302, w)
      | Some v \<Rightarrow>
          (case ValidateWebSession L v w of
             (Inl _, w1) \<Rightarrow> (redirect ''/admin/login'' 302, w1)
           | (Inr userID, w1) \<Rightarrow> next_handler (r\<lparr>rq_user := Some userID\<rparr>) w1))"

section \<open>The constraints are kept\<close>

lemma db_ok_sessions:
  "db_ok d \<Longrightarrow> unique_on s_id ss \<Longrightarrow> unique_on s_refresh_token_hash ss \<Longrightarrow> s_user_id ` set ss \<subseteq> user_ids d \<Longrightarrow>
   s_kind ` set ss \<subseteq> {''web'', ''native''} \<Longrightarrow> db_ok (d\<lparr>sessions := ss\<rparr>)"
  by (simp add: db_ok_def schema_defs)

lemma db_ok_invites:
  "db_ok d \<Longrightarrow> unique_on iv_id is \<Longrightarrow> unique_on iv_token_hash is \<Longrightarrow> iv_created_by ` set is \<subseteq> user_ids d \<Longrightarrow>
   db_ok (d\<lparr>invites := is\<rparr>)"
  by (simp add: db_ok_def schema_defs)

lemma db_ok_authD:
  assumes "db_ok d"
  shows "unique_on s_id (sessions d)" "unique_on s_refresh_token_hash (sessions d)" "s_user_id ` set (sessions d) \<subseteq> user_ids d"
    "unique_on iv_id (invites d)" "unique_on iv_token_hash (invites d)" "iv_created_by ` set (invites d) \<subseteq> user_ids d"
    "s_kind ` set (sessions d) \<subseteq> {''web'', ''native''}"
  using assms by (simp_all add: db_ok_def auth_ok_def)

lemma keeps_ok_insert_session: "keeps_ok (insert_session i u k h l e)"
  unfolding keeps_ok_def
proof (intro allI impI)
  fix t d assume "db_ok d"
  note D = db_ok_authD [OF this] this
  show "db_ok (snd (insert_session i u k h l e t d))"
    using D by (auto simp: insert_session_def unique_on_snoc image_subset_iff intro!: db_ok_sessions)
qed

lemma keeps_ok_insert_session_str: "keeps_ok (insert_session_str L i u k h l e)"
  using keeps_ok_insert_session by (auto simp: keeps_ok_def insert_session_str_def split: option.splits)

lemma keeps_ok_touch: "keeps_ok (touch_session h)"
  unfolding keeps_ok_def
proof (intro allI impI)
  fix t d assume "db_ok d"
  note D = db_ok_authD [OF this] this
  show "db_ok (snd (touch_session h t d))"
    using D by (auto simp: touch_session_def unique_on_update intro!: db_ok_sessions) (auto simp: update_where_def)
qed

lemma unique_hash_update:
  assumes "unique_on s_refresh_token_hash ss" and "unique_on s_id ss"
    and "\<forall>s \<in> set ss. s_refresh_token_hash s = h \<longrightarrow> s_id s = i" and "\<And>s. s_id (f s) = s_id s" and "\<And>s. s_refresh_token_hash (f s) = h"
  shows "unique_on s_refresh_token_hash (update_where (\<lambda>s. s_id s = i) f ss)"
  using assms(1-3)
proof (induction ss)
  case (Cons s ss)
  have other: "s_id s' \<noteq> i" if "s_id s = i" "s' \<in> set ss" for s' using Cons.prems(2) that by (auto simp: image_iff)
  show ?case
  proof (cases "s_id s = i")
    case True
    then have "update_where (\<lambda>s. s_id s = i) f ss = ss"
      using other by (auto simp: update_where_def intro: map_idI)
    with Cons True other assms(5) show ?thesis by auto
  next
    case False
    then have "s_refresh_token_hash s \<noteq> h" using Cons.prems(3) by auto
    with Cons False assms(5) show ?thesis by (auto simp: update_where_def image_iff)
  qed
qed simp

lemma keeps_ok_rotate: "keeps_ok (rotate_session i h e)"
  unfolding keeps_ok_def
proof (intro allI impI)
  fix t d assume ok: "db_ok d"
  note D = db_ok_authD [OF ok] ok
  let ?f = "\<lambda>s. s\<lparr>s_refresh_token_hash := h, s_last_seen_at := t, s_expires_at := e\<rparr>"
  have "unique_on s_refresh_token_hash (update_where (\<lambda>s. s_id s = i) ?f (sessions d))"
    if "\<not> ((\<exists>s \<in> set (sessions d). s_refresh_token_hash s = h \<and> s_id s \<noteq> i) \<and> i \<in> s_id ` set (sessions d))"
  proof (cases "i \<in> s_id ` set (sessions d)")
    case True
    with that D show ?thesis by (intro unique_hash_update) auto
  next
    case False
    then have "update_where (\<lambda>s. s_id s = i) ?f (sessions d) = sessions d"
      by (auto simp: update_where_def intro!: map_idI)
    with D show ?thesis by simp
  qed
  with D show "db_ok (snd (rotate_session i h e t d))"
    by (auto simp: rotate_session_def unique_on_update intro!: db_ok_sessions) (auto simp: update_where_def)
qed

lemma keeps_ok_insert_invite: "keeps_ok (insert_invite i em ro ps h c e)"
  unfolding keeps_ok_def
proof (intro allI impI)
  fix t d assume "db_ok d"
  note D = db_ok_authD [OF this] this
  show "db_ok (snd (insert_invite i em ro ps h c e t d))"
    using D by (auto simp: insert_invite_def unique_on_snoc image_subset_iff intro!: db_ok_invites)
qed

lemma keeps_ok_mark_used: "keeps_ok (mark_used h)"
  unfolding keeps_ok_def
proof (intro allI impI)
  fix t d assume "db_ok d"
  note D = db_ok_authD [OF this] this
  show "db_ok (snd (mark_used h t d))"
    using D by (auto simp: mark_used_def unique_on_update intro!: db_ok_invites) (auto simp: update_where_def)
qed

lemma keeps_ok_insert_user: "keeps_ok (insert_user i em ro)"
  by (auto simp: keeps_ok_def insert_user_def db_ok_def schema_defs unique_on_snoc EqualFold_def image_iff subset_iff)

section \<open>Finding a session\<close>

lemma session_of_Some:
  "session_of d k h = Some s \<Longrightarrow> s \<in> set (sessions d) \<and> s_refresh_token_hash s = h \<and> s_kind s = k"
  by (auto simp: session_of_def find_Some_iff)

lemma session_of_None: "session_of d k h = None \<longleftrightarrow> (\<forall>s \<in> set (sessions d). s_refresh_token_hash s = h \<longrightarrow> s_kind s \<noteq> k)"
  by (auto simp: session_of_def find_None_iff)

text \<open>The hash identifies the row.\<close>

lemma session_of_row:
  assumes "db_ok d" and "s \<in> set (sessions d)" and "s_refresh_token_hash s = h" and "s_kind s = k"
  shows "session_of d k h = Some s"
proof (cases "session_of d k h")
  case None
  with assms show ?thesis by (auto simp: session_of_None)
next
  case (Some s')
  then have "s' \<in> set (sessions d)" "s_refresh_token_hash s' = h" by (auto dest: session_of_Some)
  then have "s' = s"
    using db_ok_authD(2)[OF assms(1)] assms(2,3) unfolding unique_on_def distinct_map inj_on_def by metis
  with Some show ?thesis by simp
qed

lemma insert_session_Inr:
  assumes "insert_session i u k h l e t d = (Inr x, d')"
  shows "\<exists>s. s \<in> set (sessions d') \<and> s_id s = i \<and> s_user_id s = u \<and> s_kind s = k \<and> s_refresh_token_hash s = h \<and>
    s_expires_at s = e \<and> s_last_seen_at s = t \<and> s_revoked_at s = None"
  using assms by (auto simp: insert_session_def split: if_splits)

lemma new_session:
  assumes "db_ok (db w)" and "db_call (insert_session i u k h l e) w = (Inr x, w')"
  shows "db_ok (db w')"
    and "\<exists>s. session_of (db w') k h = Some s \<and> s_user_id s = u \<and> s_expires_at s = e \<and> s_last_seen_at s = clock w \<and> s_revoked_at s = None"
proof -
  show ok: "db_ok (db w')"
    using db_call_keeps_ok [OF keeps_ok_insert_session assms(1)] assms(2) by (metis snd_conv)
  obtain s where "s \<in> set (sessions (db w'))" "s_user_id s = u" "s_kind s = k" "s_refresh_token_hash s = h" "s_expires_at s = e"
      "s_last_seen_at s = clock w" "s_revoked_at s = None"
    using insert_session_Inr [OF db_call_Inr [OF assms(2)]] by blast
  then show "\<exists>s. session_of (db w') k h = Some s \<and> s_user_id s = u \<and> s_expires_at s = e \<and> s_last_seen_at s = clock w \<and> s_revoked_at s = None"
    using session_of_row [OF ok] by blast
qed

lemma ValidateWebSession_Inr:
  assumes "ValidateWebSession L sid w = (Inr uid, w')"
  shows "\<exists>s. session_of (db w) ''web'' (hashToken sid) = Some s \<and> s_revoked_at s = None \<and> clock w \<le> s_expires_at s \<and>
    uid = uuid_String L (s_user_id s)"
proof -
  let ?q = "\<lambda>d. one_row (session_of d ''web'' (hashToken sid))"
  obtain x w1 where call: "db_call (query ?q) w = (x, w1)" by fastforce
  have c: "clock w1 = clock w" using db_call_frame(4)[of "query ?q" w] call by simp
  obtain s where s: "x = Inr s" using assms call by (cases x) (auto simp: ValidateWebSession_def Let_def)
  have "session_of (db w) ''web'' (hashToken sid) = Some s"
    using db_call_query_Inr [OF call [unfolded s]] by (simp add: one_row_def split: option.splits)
  with assms call s c show ?thesis by (auto simp: ValidateWebSession_def Let_def split: if_splits)
qed

section \<open>Properties\<close>

text \<open>A native session works and ends on time: the access token that \<open>IssueNativeSession\<close> returns is accepted as the user it was issued to
  until the end of its 15 minutes and refused from then on, and the database holds a row for the hash of the refresh token (never the token), for this
  user, good for 30 days.\<close>

theorem IssueNativeSession_correct:
  assumes "jwt_laws L" and "uuid_laws L" and "db_ok (db w)" and "0 \<le> clock w" and "seconds (clock w + accessTokenDuration) < 2 ^ 63"
    and "IssueNativeSession L rnd newID (uuid_String L u) label key w = (Inr tp, w')"
  shows "ValidateAccessToken L t (AccessToken tp) key =
      (if seconds t < seconds (clock w + accessTokenDuration) then Inr (uuid_String L u) else Inl BadToken) \<and>
    (\<exists>s. session_of (db w') ''native'' (hashToken (RefreshToken tp)) = Some s \<and> s_user_id s = u \<and> s_revoked_at s = None \<and>
       s_expires_at s = clock w + refreshTokenDuration)"
proof -
  let ?c = "native_claims (uuid_String L u) (clock w)"
  obtain tok raw where tok: "jwt_SignedString L key ?c = Some tok" and tp: "tp = \<lparr>AccessToken = tok, RefreshToken = hex_EncodeToString raw\<rparr>"
    and call: "db_call (insert_session_str L newID (uuid_String L u) ''native'' (hashToken (hex_EncodeToString raw)) label
        (clock w + refreshTokenDuration)) w = (Inr (), w')"
    using assms(6) by (auto simp: IssueNativeSession_def Let_def split: option.splits prod.splits sum.splits)
  have pg: "insert_session_str L newID (uuid_String L u) = insert_session newID u"
    using assms(2) by (simp add: insert_session_str_def uuid_laws_def fun_eq_iff)
  have range: "0 \<le> seconds (clock w)" "seconds (clock w) \<le> seconds (clock w + accessTokenDuration)"
    using assms(4) by (simp_all add: seconds_def accessTokenDuration_def zdiv_mono1 pos_imp_zdiv_nonneg_iff)
  then have "jwt_Parse L key t tok = (if seconds t < seconds (clock w + accessTokenDuration) then Some ?c else None)"
    using assms(1,5) tok unfolding jwt_laws_def native_claims_def by fastforce
  then have "ValidateAccessToken L t tok key =
      (if seconds t < seconds (clock w + accessTokenDuration) then Inr (uuid_String L u) else Inl BadToken)"
    by (simp add: ValidateAccessToken_def native_claims_def)
  with new_session(2)[OF assms(3) call [unfolded pg]] tp show ?thesis by auto
qed

definition sample_native :: "(auth_err + TokenPair) \<times> world" where
  "sample_native = IssueNativeSession sample_lib (Some ''r'') 50 (sample_uuid_String 2) ''mac'' ''k'' sample_world"

lemma sample_native_Inr: "\<exists>tp w'. sample_native = (Inr tp, w')"
  by (simp add: sample_native_def IssueNativeSession_def Let_def native_claims_def sample_jwt_SignedString_def insert_session_str_def
      insert_session_def db_call_Done) (simp add: sample_db_def empty_db_def sample_user_def)

theorem IssueNativeSession_correct_witness:
  "\<exists>tp w'. sample_native = (Inr tp, w') \<and> ValidateAccessToken sample_lib 101 (AccessToken tp) ''k'' = Inr (sample_uuid_String 2)"
proof -
  obtain tp w' where run: "sample_native = (Inr tp, w')" using sample_native_Inr by blast
  from IssueNativeSession_correct [OF sample_jwt_laws sample_lib_laws _ _ _ run [unfolded sample_native_def, folded sample_lib_simps(2)],
      of 101] run
  show ?thesis by (auto simp: seconds_def accessTokenDuration_def)
qed

text \<open>A web session is sound: \<open>ValidateWebSession\<close> names a user only for the cookie of an existing web session of that user that is neither revoked nor
  past its expiry, and whatever it answers it leaves every session as it was, except for the time it was last seen.\<close>

theorem ValidateWebSession_sound:
  assumes "db_ok (db w)" and "ValidateWebSession L sid w = (res, w')"
  shows "(\<forall>uid. res = Inr uid \<longrightarrow> (\<exists>s \<in> set (sessions (db w)). s_refresh_token_hash s = hashToken sid \<and> s_kind s = ''web'' \<and>
       s_revoked_at s = None \<and> clock w \<le> s_expires_at s \<and> uid = uuid_String L (s_user_id s))) \<and>
    db_ok (db w') \<and> map (\<lambda>s. s\<lparr>s_last_seen_at := 0\<rparr>) (sessions (db w')) = map (\<lambda>s. s\<lparr>s_last_seen_at := 0\<rparr>) (sessions (db w))"
proof -
  let ?q = "\<lambda>d. one_row (session_of d ''web'' (hashToken sid))"
  obtain x w1 where call: "db_call (query ?q) w = (x, w1)" by fastforce
  have db1: "db w1 = db w" using quietD(1)[OF quiet_query [OF call]] .
  have w': "w' = w1 \<or> w' = snd (db_call (touch_session (hashToken sid)) w1)"
    using assms(2) call by (cases x) (auto simp: ValidateWebSession_def Let_def split: if_splits)
  have "db_ok (db w')" using w' assms(1) db1 db_call_keeps_ok [OF keeps_ok_touch, of w1] by auto
  moreover have "map (\<lambda>s. s\<lparr>s_last_seen_at := 0\<rparr>) (sessions (db w')) = map (\<lambda>s. s\<lparr>s_last_seen_at := 0\<rparr>) (sessions (db w))"
    using w' db1 db_call_db [of "touch_session (hashToken sid)" w1]
    by (auto simp: touch_session_def update_where_def)
  ultimately show ?thesis
    using ValidateWebSession_Inr [of L sid w _ w'] assms(2) by (fastforce dest: session_of_Some)
qed

theorem ValidateWebSession_sound_witness:
  "\<not> (\<exists>uid w'. ValidateWebSession sample_lib ''cookie'' sample_world = (Inr uid, w'))"
proof -
  obtain res w' where run: "ValidateWebSession sample_lib ''cookie'' sample_world = (res, w')" by fastforce
  have "sessions sample_db = []" by (simp add: sample_db_def empty_db_def)
  with ValidateWebSession_sound [OF _ run] run show ?thesis by auto
qed

text \<open>A web session lasts exactly its seven days: the cookie that \<open>IssueWebSession\<close> returns is accepted as its user at every time up to the
  expiry (without failures) and is refused as expired at every later time.\<close>

theorem IssueWebSession_lifetime:
  assumes "db_ok (db w)" and "IssueWebSession rnd newID u w = (Inr sid, w')" and "fates w' = []"
  shows "fst (ValidateWebSession L sid (w'\<lparr>clock := t\<rparr>)) =
    (if t \<le> clock w + webSessionDuration then Inr (uuid_String L u) else Inl Expired)"
proof -
  obtain raw where sid: "sid = hex_EncodeToString raw"
    and call: "db_call (insert_session newID u ''web'' (hashToken sid) '''' (clock w + webSessionDuration)) w = (Inr (), w')"
    using assms(2) by (auto simp: IssueWebSession_def Let_def split: option.splits prod.splits sum.splits)
  obtain s where "session_of (db w') ''web'' (hashToken sid) = Some s" "s_user_id s = u"
      "s_expires_at s = clock w + webSessionDuration" "s_revoked_at s = None"
    using new_session(2)[OF assms(1) call] by blast
  then show ?thesis using assms(3) by (simp add: ValidateWebSession_def Let_def db_call_query_Done)
qed

theorem IssueWebSession_lifetime_witness:
  "\<exists>sid w'. IssueWebSession (Some ''r'') 50 1 sample_world = (Inr sid, w') \<and>
     fst (ValidateWebSession sample_lib sid (w'\<lparr>clock := 604800000101\<rparr>)) = Inl Expired"
proof -
  obtain sid w' where run: "IssueWebSession (Some ''r'') 50 1 sample_world = (Inr sid, w')" and calm: "fates w' = []"
    by (simp add: IssueWebSession_def Let_def insert_session_def db_call_Done) (simp add: sample_db_def empty_db_def)
  from IssueWebSession_lifetime [OF _ run calm, of sample_lib 604800000101] run show ?thesis
    by (simp add: webSessionDuration_def)
qed

lemma rotate_stmt_effect:
  assumes ok: "db_ok d" and s: "session_of d ''native'' old = Some s" and run: "rotate_session (s_id s) new e t d = (Inr x, d')"
  shows "new \<noteq> old \<Longrightarrow> session_of d' k old = None"
    and "\<exists>s'. session_of d' ''native'' new = Some s' \<and> s_id s' = s_id s \<and> s_user_id s' = s_user_id s \<and> s_expires_at s' = e \<and>
      s_last_seen_at s' = t \<and> s_revoked_at s' = s_revoked_at s"
proof -
  let ?f = "\<lambda>s. s\<lparr>s_refresh_token_hash := new, s_last_seen_at := t, s_expires_at := e\<rparr>"
  have mem: "s \<in> set (sessions d)" "s_refresh_token_hash s = old" "s_kind s = ''native''" using session_of_Some [OF s] by auto
  have d': "sessions d' = update_where (\<lambda>r. s_id r = s_id s) ?f (sessions d)"
    using run by (auto simp: rotate_session_def split: if_splits)
  have ok': "db_ok d'" using keeps_ok_rotate [of "s_id s" new e] ok run by (metis keeps_ok_def snd_conv)
  have only: "s_id r = s_id s" if "r \<in> set (sessions d)" "s_refresh_token_hash r = old" for r
    using that mem db_ok_authD(2)[OF ok] unfolding unique_on_def distinct_map inj_on_def by metis
  then show "new \<noteq> old \<Longrightarrow> session_of d' k old = None" by (auto simp: session_of_None d' update_where_def)
  have "?f s \<in> set (sessions d')" using mem(1) by (auto simp: d' update_where_def image_iff intro!: bexI [of _ s])
  from session_of_row [OF ok' this] mem(3) have "session_of d' ''native'' new = Some (?f s)" by simp
  then show "\<exists>s'. session_of d' ''native'' new = Some s' \<and> s_id s' = s_id s \<and> s_user_id s' = s_user_id s \<and> s_expires_at s' = e \<and>
      s_last_seen_at s' = t \<and> s_revoked_at s' = s_revoked_at s" by simp
qed

lemma RotateRefreshToken_Inr:
  assumes "RotateRefreshToken L rnd old key w = (Inr tp, w')"
  obtains s w1 where "quiet w w1" "session_of (db w) ''native'' (hashToken old) = Some s" "s_revoked_at s = None"
    "clock w \<le> s_expires_at s" "refreshGraceWindow \<le> clock w - s_last_seen_at s"
    "db_call (rotate_session (s_id s) (hashToken (RefreshToken tp)) (clock w + refreshTokenDuration)) w1 = (Inr (), w')"
    "jwt_SignedString L key (native_claims (uuid_String L (s_user_id s)) (clock w)) = Some (AccessToken tp)"
proof -
  let ?q = "\<lambda>d. one_row (session_of d ''native'' (hashToken old))"
  obtain x w1 where call: "db_call (query ?q) w = (x, w1)" by fastforce
  note q = quiet_query [OF call]
  obtain s where s: "x = Inr s" using assms call by (cases x) (auto simp: RotateRefreshToken_def Let_def)
  have row: "session_of (db w) ''native'' (hashToken old) = Some s"
    using db_call_query_Inr [OF call [unfolded s]] by (simp add: one_row_def split: option.splits)
  show thesis
    using that [OF q row] assms call s quietD(5)[OF q]
    by (auto simp: RotateRefreshToken_def Let_def split: if_splits option.splits prod.splits sum.splits)
qed

text \<open>Rotation replaces the refresh token: when \<open>RotateRefreshToken\<close> succeeds, the old token belonged to a native session that was neither revoked nor expired and had not
  been used within the last 30 seconds; afterwards the new token finds the same session of the same user, good for another 30 days, and the old token finds no session, of any
  kind (unless the two tokens have the same hash).\<close>

theorem RotateRefreshToken_replaces:
  assumes "db_ok (db w)" and "RotateRefreshToken L rnd old key w = (Inr tp, w')"
  shows "\<exists>s s'. session_of (db w) ''native'' (hashToken old) = Some s \<and> s_revoked_at s = None \<and> clock w \<le> s_expires_at s \<and>
      refreshGraceWindow \<le> clock w - s_last_seen_at s \<and>
      (hashToken (RefreshToken tp) = hashToken old \<or> (\<forall>k. session_of (db w') k (hashToken old) = None)) \<and>
      session_of (db w') ''native'' (hashToken (RefreshToken tp)) = Some s' \<and> s_id s' = s_id s \<and> s_user_id s' = s_user_id s \<and>
      s_expires_at s' = clock w + refreshTokenDuration \<and> s_revoked_at s' = None"
  using assms(2)
proof (cases rule: RotateRefreshToken_Inr)
  case (1 s w1)
  note w1 = quietD [OF 1(1)]
  have stmt: "rotate_session (s_id s) (hashToken (RefreshToken tp)) (clock w + refreshTokenDuration) (clock w) (db w) = (Inr (), db w')"
    using db_call_Inr [OF 1(6)] w1 by simp
  from rotate_stmt_effect [OF assms(1) 1(2) stmt] 1 show ?thesis by fastforce
qed

text \<open>A native session of user 2, a minute after it was last seen.\<close>

definition sample_session_world :: world where
  "sample_session_world = sample_world\<lparr>db := sample_db\<lparr>sessions := [\<lparr>s_id = 50, s_user_id = 2, s_kind = ''native'',
     s_refresh_token_hash = hashToken ''old'', s_client_label = ''mac'', s_created_at = 0, s_last_seen_at = 0,
     s_expires_at = 90000000, s_revoked_at = None\<rparr>]\<rparr>, clock := 60000000\<rparr>"

lemma sample_session_world_ok: "db_ok (db sample_session_world)"
  using sample_db_ok by (simp add: sample_session_world_def db_ok_sessions)

lemma sample_rotated_Inr: "\<exists>tp w'. RotateRefreshToken sample_lib (Some ''s'') ''old'' ''k'' sample_session_world = (Inr tp, w')"
  by (simp add: RotateRefreshToken_def sample_session_world_def Let_def native_claims_def sample_jwt_SignedString_def
      rotate_session_def session_of_def refreshGraceWindow_def db_call_Done query_def)

theorem RotateRefreshToken_replaces_witness:
  "\<exists>tp w' s'. RotateRefreshToken sample_lib (Some ''s'') ''old'' ''k'' sample_session_world = (Inr tp, w') \<and>
     session_of (db w') ''native'' (hashToken (RefreshToken tp)) = Some s' \<and> s_expires_at s' = 60000000 + refreshTokenDuration"
proof -
  obtain tp w' where run: "RotateRefreshToken sample_lib (Some ''s'') ''old'' ''k'' sample_session_world = (Inr tp, w')"
    using sample_rotated_Inr by blast
  have "clock sample_session_world = 60000000" by (simp add: sample_session_world_def)
  with RotateRefreshToken_replaces [OF sample_session_world_ok run] run show ?thesis by auto
qed

lemma RedeemInviteToken_spent:
  assumes "db_ok (db w)" and "RedeemInviteToken L tok key w = (Inr c, w1)" and "invites (db w2) = invites (db w1)"
  shows "\<not> (\<exists>c'. fst (RedeemInviteToken L tok key' w2) = Inr c')"
proof -
  let ?q = "\<lambda>d. one_row (lookup_by iv_token_hash (inviteHash tok) (invites d))"
  obtain w0 where mark: "db_call (mark_used (inviteHash tok)) w0 = (Inr (), w1)"
    using assms(2) by (auto simp: RedeemInviteToken_def redeem_mark_def split: prod.splits sum.splits)
  have db_after: "db w1 = snd (mark_used (inviteHash tok) (clock w0) (db w0))" using db_call_Inr [OF mark] by simp
  have used: "iv_used_at iv \<noteq> None" if "lookup_by iv_token_hash (inviteHash tok) (invites (db w2)) = Some iv" for iv
  proof -
    have "invites (db w1) = update_where (\<lambda>iv. iv_token_hash iv = inviteHash tok) (\<lambda>iv. iv\<lparr>iv_used_at := Some (clock w0)\<rparr>) (invites (db w0))"
      by (simp add: db_after mark_used_def)
    moreover have "iv \<in> set (invites (db w1))" "iv_token_hash iv = inviteHash tok" using lookup_by_Some [OF that] assms(3) by auto
    ultimately show ?thesis by (auto simp: update_where_def split: if_splits)
  qed
  have "fst (redeem_check L tok key' w2) \<noteq> Inr c'" for c'
  proof -
    obtain x w3 where call: "db_call (query ?q) w2 = (x, w3)" by fastforce
    have "lookup_by iv_token_hash (inviteHash tok) (invites (db w2)) = Some iv" if "x = Inr iv" for iv
      using db_call_query_Inr [OF call [unfolded that]] by (simp add: one_row_def split: option.splits)
    then show ?thesis
      using call used by (cases x) (auto simp: redeem_check_def split: option.splits if_splits)
  qed
  then have "isl (fst (redeem_check L tok key' w2))" by (metis isl_def sum.exhaust_sel)
  then show ?thesis by (auto simp: RedeemInviteToken_def isl_def split: prod.splits sum.splits)
qed

lemma RedeemInviteToken_Done:
  assumes "RedeemInviteToken L tok key w = (Inr c, w1)" and "fates w = []"
  shows "fates w1 = []" and "users (db w1) = users (db w)"
proof -
  obtain w0 where chk: "redeem_check L tok key w = (Inr c, w0)" and mark: "db_call (mark_used (inviteHash tok)) w0 = (Inr (), w1)"
    using assms(1) by (auto simp: RedeemInviteToken_def redeem_mark_def split: prod.splits sum.splits)
  have q: "quiet w w0"
    using chk by (auto simp: redeem_check_def split: option.splits prod.splits sum.splits if_splits dest!: quiet_query)
  show "fates w1 = []" using db_call_fates [of w0 "mark_used (inviteHash tok)"] quietD(6)[OF q assms(2)] mark by simp
  show "users (db w1) = users (db w)" using db_call_Inr [OF mark] quietD(1)[OF q] by (auto simp: mark_used_def dest: sym)
qed

text \<open>An unused invite.\<close>

definition sample_invite_world :: world where
  "sample_invite_world = sample_world\<lparr>db := sample_db\<lparr>invites := [\<lparr>iv_id = 60, iv_email = ''n@x'', iv_role = ''member'',
     iv_project_ids = [], iv_token_hash = inviteHash (sample_enc64 1000 @ ''n@x''), iv_created_by = 1, iv_expires_at = 1000000000,
     iv_used_at = None\<rparr>]\<rparr>\<rparr>"

lemma sample_invite_world_ok: "db_ok (db sample_invite_world)"
  using sample_db_ok by (simp add: sample_invite_world_def db_ok_invites)

lemma sample_invite_parses: "\<exists>c. invite_Parse sample_lib ''k'' 100 (sample_enc64 1000 @ ''n@x'') = Some c"
  by (simp add: sample_lib_def seconds_def sample_dec64_enc64)

lemma sample_redeem: "\<exists>c w1. redeem_check sample_lib (sample_enc64 1000 @ ''n@x'') ''k'' sample_invite_world = (Inr c, w1) \<and> fates w1 = []"
  using sample_invite_parses by (auto simp: redeem_check_def sample_invite_world_def db_call_query_Done)

text \<open>C30. An invite is redeemed once: after a successful \<open>RedeemInviteToken\<close>, no later attempt with the same token succeeds, under any key and at any time, as long as the
  invites have not been changed since.\<close>

theorem RedeemInviteToken_once:
  assumes "db_ok (db w)" and "RedeemInviteToken L tok key w = (Inr c, w1)" and "invites (db w2) = invites (db w1)"
  shows "\<not> (\<exists>c'. fst (RedeemInviteToken L tok key' w2) = Inr c')"
  by (rule RedeemInviteToken_spent [OF assms])

theorem RedeemInviteToken_once_witness:
  "\<exists>c w1. RedeemInviteToken sample_lib (sample_enc64 1000 @ ''n@x'') ''k'' sample_invite_world = (Inr c, w1) \<and>
     \<not> (\<exists>c'. fst (RedeemInviteToken sample_lib (sample_enc64 1000 @ ''n@x'') ''k'' w1) = Inr c')"
proof -
  obtain c w1 where run: "RedeemInviteToken sample_lib (sample_enc64 1000 @ ''n@x'') ''k'' sample_invite_world = (Inr c, w1)"
    using sample_redeem by (fastforce simp: RedeemInviteToken_def redeem_mark_def mark_used_def db_call_Done)
  with RedeemInviteToken_once [OF sample_invite_world_ok run refl] show ?thesis by blast
qed

text \<open>The check and the mark are two statements: when two redemptions of the same valid invite interleave, so that both have checked before either marks, both succeed.\<close>

theorem RedeemInviteToken_race:
  assumes "redeem_check L tok key w = (Inr c, w1)" and "fates w1 = []"
  shows "fst (redeem_check L tok key w1) = Inr c \<and>
    fst (redeem_mark tok c w1) = Inr c \<and> fst (redeem_mark tok c (snd (redeem_mark tok c w1))) = Inr c"
proof -
  let ?q = "\<lambda>d. one_row (lookup_by iv_token_hash (inviteHash tok) (invites d))"
  obtain x w0 where call: "db_call (query ?q) w = (x, w0)" by fastforce
  note q = quiet_query [OF call]
  have w1: "w1 = w0" and x: "\<exists>iv. x = Inr iv"
    using assms(1) call by (cases x; auto simp: redeem_check_def split: option.splits if_splits)+
  then have same: "?q (db w) = x" using db_call_query_Inr call by fastforce
  have "redeem_check L tok key w1 = (Inr c, w1)"
    using assms call same w1 quietD(1,5)[OF q]
    by (auto simp: redeem_check_def db_call_query_Done split: option.splits sum.splits if_splits)
  then show ?thesis using assms(2) by (simp add: redeem_mark_def db_call_Done mark_used_def)
qed

theorem RedeemInviteToken_race_witness:
  "\<exists>c w1. redeem_check sample_lib (sample_enc64 1000 @ ''n@x'') ''k'' sample_invite_world = (Inr c, w1) \<and>
     fst (redeem_mark (sample_enc64 1000 @ ''n@x'') c (snd (redeem_mark (sample_enc64 1000 @ ''n@x'') c w1))) = Inr c"
proof -
  obtain c w1 where run: "redeem_check sample_lib (sample_enc64 1000 @ ''n@x'') ''k'' sample_invite_world = (Inr c, w1)" "fates w1 = []"
    using sample_redeem by blast
  with RedeemInviteToken_race [OF run] show ?thesis by blast
qed

text \<open>The gate of the API: a request gets past \<open>RequireAuth\<close> only with an Authorization header of the form scheme, blank, token, whose scheme is Bearer (in any case of letters)
  and whose token is valid now; the handler then runs as the token's subject. Otherwise the answer is 401 and nothing has happened.\<close>

theorem RequireAuth_gate:
  "(\<exists>scheme tok uid. rq_header r ''Authorization'' = scheme @ CHR '' '' # tok \<and> EqualFold scheme ''Bearer'' \<and>
      ValidateAccessToken L (clock w) tok key = Inr uid \<and>
      RequireAuth L key h r w = h (r\<lparr>rq_user := Some uid\<rparr>) w) \<or>
   (rs_status (fst (RequireAuth L key h r w)) = 401 \<and> snd (RequireAuth L key h r w) = w)"
proof (cases "\<exists>scheme tok. SplitN2 (rq_header r ''Authorization'') CHR '' '' = [scheme, tok]")
  case True
  then obtain scheme tok where split: "SplitN2 (rq_header r ''Authorization'') CHR '' '' = [scheme, tok]" by blast
  note join = SplitN2_join [OF split]
  show ?thesis
  proof (cases "EqualFold scheme ''Bearer'' \<and> (\<exists>uid. ValidateAccessToken L (clock w) tok key = Inr uid)")
    case True
    then obtain uid where "EqualFold scheme ''Bearer''" "ValidateAccessToken L (clock w) tok key = Inr uid" by blast
    with split join show ?thesis by (intro disjI1 exI [of _ scheme] exI [of _ tok] exI [of _ uid]) (simp add: RequireAuth_def Let_def)
  next
    case False
    with split show ?thesis
      by (auto simp: RequireAuth_def Let_def writeUnauthorized_def writeError_def split: sum.splits)
  qed
next
  case False
  then have "SplitN2 (rq_header r ''Authorization'') CHR '' '' = [rq_header r ''Authorization'']"
    by (simp add: SplitN2_def split: if_splits)
  then show ?thesis by (simp add: RequireAuth_def Let_def writeUnauthorized_def writeError_def)
qed

text \<open>The status of a user is never consulted: disabling every user changes nothing in how a request is attributed and authorised, so a disabled user keeps
  whatever access its tokens and memberships give.\<close>

theorem user_status_ignored:
  "fst (resolveUser L r (w\<lparr>db := (db w)\<lparr>users := map (\<lambda>u. u\<lparr>u_status := ''disabled''\<rparr>) (users (db w))\<rparr>\<rparr>)) = fst (resolveUser L r w) \<and>
   rank_in ((db w)\<lparr>users := map (\<lambda>u. u\<lparr>u_status := ''disabled''\<rparr>) (users (db w))\<rparr>) u f = rank_in (db w) u f"
proof -
  have look: "lookup_by u_id i (map (\<lambda>u. u\<lparr>u_status := ''disabled''\<rparr>) us) = map_option (\<lambda>u. u\<lparr>u_status := ''disabled''\<rparr>) (lookup_by u_id i us)" for i us
    by (induction us) auto
  have role: "map_option u_global_role (lookup_by u_id i (map (\<lambda>u. u\<lparr>u_status := ''disabled''\<rparr>) us)) =
      map_option u_global_role (lookup_by u_id i us)" for i us
    by (simp add: look option.map_comp o_def)
  have "fst (UserByID i (w\<lparr>db := (db w)\<lparr>users := map (\<lambda>u. u\<lparr>u_status := ''disabled''\<rparr>) (users (db w))\<rparr>\<rparr>)) = fst (UserByID i w)" for i
    by (simp add: UserByID_def db_call_def query_def next_fate_def role split: list.splits fate.splits)
  then have "fst (resolveUser L r (w\<lparr>db := (db w)\<lparr>users := map (\<lambda>u. u\<lparr>u_status := ''disabled''\<rparr>) (users (db w))\<rparr>\<rparr>)) = fst (resolveUser L r w)"
    by (auto simp: resolveUser_def split: option.splits prod.splits sum.splits) (metis fst_conv old.sum.distinct(1) sum.inject(2))+
  moreover have "rank_in ((db w)\<lparr>users := map (\<lambda>u. u\<lparr>u_status := ''disabled''\<rparr>) (users (db w))\<rparr>) u f = rank_in (db w) u f"
    by (cases "lookup_by u_id u (users (db w))") (simp_all add: rank_in_def look)
  ultimately show ?thesis ..
qed

text \<open>Bootstrapping: when a user with the configured address (in any case of letters) exists, \<open>Bootstrap\<close> changes nothing and prints no URL; so if the first run
  created the admin but failed to mint the invite, every later run reports success without an enrollment URL.\<close>

theorem Bootstrap_not_retried:
  assumes "\<exists>u \<in> set (users (db w)). EqualFold (u_email u) email" and "fates w = []"
  shows "Bootstrap L newUser jti newInvite email key base w = (Inr None, w)"
proof -
  obtain u where "find (\<lambda>u. EqualFold (u_email u) email) (users (db w)) = Some u"
    using assms(1) by (cases "find (\<lambda>u. EqualFold (u_email u) email) (users (db w))") (auto simp: find_None_iff)
  with assms(2) show ?thesis by (simp add: Bootstrap_def db_call_query_Done)
qed

theorem Bootstrap_not_retried_witness:
  "Bootstrap sample_lib 90 91 92 ''a@x'' ''k'' ''https://h'' sample_world = (Inr None, sample_world)"
  by (rule Bootstrap_not_retried) (simp_all add: sample_db_def sample_user_def)

end
