(* ===== verification/Admin_Queries.thy ===== *)
theory Admin_Queries
  imports Sessions
begin

text \<open>
  The statements behind the admin console, \<^verbatim>\<open>internal/storage/admin_queries.go\<close>, one definition per
  function, with the result structs of \<^verbatim>\<open>internal/storage/types.go\<close>.

  Shown: every statement keeps the constraints of the schema and writes only its own table, whatever
  fails; what each of them does to memberships, sessions and projects; the pages of the audit log,
  taken together, are the whole filtered log, newest entry first, each entry once.

  Go's \<open>int\<close> is 64 bits wide, so the offset of a page wraps around (\<open>int64\<close>); a negative OFFSET is an
  error of the database.
\<close>

section \<open>Result structs\<close>

record UserRow =
  ur_ID :: uuid
  ur_Email :: string
  ur_DisplayName :: string
  ur_GlobalRole :: string
  ur_Status :: string
  ur_CreatedAt :: time

record PasskeyRow =
  pr_ID :: uuid
  pr_UserID :: uuid
  pr_Label :: string
  pr_LastUsedAt :: "time option"
  pr_CreatedAt :: time

record SessionRow =
  sr_ID :: uuid
  sr_UserID :: uuid
  sr_Kind :: string
  sr_ClientLabel :: string
  sr_CreatedAt :: time
  sr_LastSeenAt :: "time option"
  sr_ExpiresAt :: time
  sr_RevokedAt :: "time option"

record UserDetail =
  ud_User :: UserRow
  ud_Passkeys :: "PasskeyRow list"
  ud_Sessions :: "SessionRow list"

record MemberRow =
  mr_UserID :: uuid
  mr_Email :: string
  mr_DisplayName :: string
  mr_Role :: string

record AuditRow =
  ar_ID :: int
  ar_ActorID :: "uuid option"
  ar_ActorEmail :: string
  ar_Action :: string
  ar_ProjectID :: "uuid option"
  ar_ProjectSlug :: string
  ar_Path :: string
  ar_ETagBefore :: string
  ar_ETagAfter :: string
  ar_IP :: string
  ar_UserAgent :: string
  ar_CreatedAt :: time

record AuditFilter =
  af_UserID :: string
  af_ProjectID :: string
  af_Action :: string
  af_Page :: int
  af_PageSize :: int

definition int64 :: "int \<Rightarrow> int" where
  "int64 n = signed_take_bit 63 n"

definition coalesce :: "string option \<Rightarrow> string" where
  "coalesce v = (case v of None \<Rightarrow> '''' | Some s \<Rightarrow> s)"

section \<open>Users, passkeys, sessions\<close>

definition user_view :: "user_row \<Rightarrow> UserRow" where
  "user_view u = \<lparr>ur_ID = u_id u, ur_Email = u_email u, ur_DisplayName = u_display_name u,
     ur_GlobalRole = u_global_role u, ur_Status = u_status u, ur_CreatedAt = u_created_at u\<rparr>"

text \<open>An address is \<open>citext\<close>: it sorts without regard to case.\<close>

definition AllUsers :: "lib \<Rightarrow> world \<Rightarrow> (err + UserRow list) \<times> world" where
  "AllUsers L = db_call (query (\<lambda>d. Inr (map user_view (sort_key (\<lambda>u. collate L (ToLower (u_email u))) (users d)))))"

definition UserSessions :: "uuid \<Rightarrow> world \<Rightarrow> (err + SessionRow list) \<times> world" where
  "UserSessions userID =
     db_call (query (\<lambda>d. Inr (map (\<lambda>s. \<lparr>sr_ID = s_id s, sr_UserID = s_user_id s, sr_Kind = s_kind s,
         sr_ClientLabel = s_client_label s, sr_CreatedAt = s_created_at s, sr_LastSeenAt = Some (s_last_seen_at s),
         sr_ExpiresAt = s_expires_at s, sr_RevokedAt = s_revoked_at s\<rparr>)
       (sort_key (\<lambda>s. - s_created_at s) (filter (\<lambda>s. s_user_id s = userID) (sessions d))))))"

definition UserPasskeys :: "uuid \<Rightarrow> world \<Rightarrow> (err + PasskeyRow list) \<times> world" where
  "UserPasskeys userID =
     db_call (query (\<lambda>d. Inr (map (\<lambda>p. \<lparr>pr_ID = pk_id p, pr_UserID = pk_user_id p, pr_Label = pk_label p,
         pr_LastUsedAt = pk_last_used_at p, pr_CreatedAt = pk_created_at p\<rparr>)
       (sort_key pk_created_at (filter (\<lambda>p. pk_user_id p = userID) (passkeys d))))))"

definition UserWithPasskeysAndSessions :: "uuid \<Rightarrow> world \<Rightarrow> (err + UserDetail) \<times> world" where
  "UserWithPasskeysAndSessions userID w =
     (case db_call (query (\<lambda>d. one_row (map_option user_view (lookup_by u_id userID (users d))))) w of
        (Inl e, w1) \<Rightarrow> (Inl e, w1)
      | (Inr u, w1) \<Rightarrow>
     (case UserPasskeys userID w1 of
        (Inl e, w2) \<Rightarrow> (Inl e, w2)
      | (Inr pks, w2) \<Rightarrow>
     (case UserSessions userID w2 of
        (Inl e, w3) \<Rightarrow> (Inl e, w3)
      | (Inr ss, w3) \<Rightarrow> (Inr \<lparr>ud_User = u, ud_Passkeys = pks, ud_Sessions = ss\<rparr>, w3))))"

definition deactivate_user :: "uuid \<Rightarrow> unit stmt" where
  "deactivate_user userID t d =
     (Inr (), d\<lparr>users := update_where (\<lambda>u. u_id u = userID) (\<lambda>u. u\<lparr>u_status := ''disabled'', u_updated_at := t\<rparr>) (users d)\<rparr>)"

definition DeactivateUser :: "uuid \<Rightarrow> world \<Rightarrow> (err + unit) \<times> world" where
  "DeactivateUser userID = db_call (deactivate_user userID)"

definition revoke_session :: "uuid \<Rightarrow> unit stmt" where
  "revoke_session sessionID t d =
     (Inr (), d\<lparr>sessions := update_where (\<lambda>s. s_id s = sessionID) (\<lambda>s. s\<lparr>s_revoked_at := Some t\<rparr>) (sessions d)\<rparr>)"

definition RevokeSession :: "uuid \<Rightarrow> world \<Rightarrow> (err + unit) \<times> world" where
  "RevokeSession sessionID = db_call (revoke_session sessionID)"

definition delete_passkey :: "uuid \<Rightarrow> unit stmt" where
  "delete_passkey passkeyID t d = (Inr (), d\<lparr>passkeys := delete_where (\<lambda>p. pk_id p = passkeyID) (passkeys d)\<rparr>)"

definition DeletePasskey :: "uuid \<Rightarrow> world \<Rightarrow> (err + unit) \<times> world" where
  "DeletePasskey passkeyID = db_call (delete_passkey passkeyID)"

definition SessionByToken :: "string \<Rightarrow> world \<Rightarrow> (err + (uuid \<times> uuid)) \<times> world" where
  "SessionByToken sessionToken w =
     (let h = hashTokenBytes sessionToken in
      db_call (\<lambda>t. query (\<lambda>d. one_row (map_option (\<lambda>s. (s_id s, s_user_id s))
        (find (\<lambda>s. s_refresh_token_hash s = h \<and> s_kind s = ''web'' \<and> s_revoked_at s = None \<and> s_expires_at s > t)
          (sessions d)))) t) w)"

section \<open>Projects and members\<close>

definition AllProjects :: "lib \<Rightarrow> world \<Rightarrow> (err + project_row list) \<times> world" where
  "AllProjects L = db_call (query (\<lambda>d. Inr (sort_key (\<lambda>p. collate L (p_display_name p)) (projects d))))"

definition ProjectBySlug :: "string \<Rightarrow> world \<Rightarrow> (err + project_row) \<times> world" where
  "ProjectBySlug slug = db_call (query (\<lambda>d. one_row (lookup_by p_slug slug (projects d))))"

text \<open>\<open>repo_url\<close> is NOT NULL; an empty string is sent as NULL.\<close>

definition insert_project :: "uuid \<Rightarrow> string \<Rightarrow> string \<Rightarrow> string option \<Rightarrow> uuid \<Rightarrow> unit stmt" where
  "insert_project newID slug displayName repoURL createdBy t d =
     (case repoURL of
        None \<Rightarrow> (Inl ErrConstraint, d)
      | Some url \<Rightarrow>
          if newID \<in> project_ids d \<or> slug \<in> p_slug ` set (projects d) \<or> createdBy \<notin> user_ids d
          then (Inl ErrConstraint, d)
          else (Inr (), d\<lparr>projects := projects d @
                 [\<lparr>p_id = newID, p_slug = slug, p_display_name = displayName, p_repo_url = url, p_created_by = createdBy,
                   p_created_at = t, p_archived_at = None\<rparr>]\<rparr>))"

definition CreateProject :: "uuid \<Rightarrow> string \<Rightarrow> string \<Rightarrow> string \<Rightarrow> uuid \<Rightarrow> world \<Rightarrow> (err + unit) \<times> world" where
  "CreateProject newID slug displayName repoURL createdBy =
     db_call (insert_project newID slug displayName (nullStr repoURL) createdBy)"

definition update_project :: "uuid \<Rightarrow> string \<Rightarrow> string option \<Rightarrow> unit stmt" where
  "update_project projectID displayName repoURL t d =
     (case repoURL of
        None \<Rightarrow> if projectID \<in> project_ids d then (Inl ErrConstraint, d) else (Inr (), d)
      | Some url \<Rightarrow> (Inr (), d\<lparr>projects := update_where (\<lambda>p. p_id p = projectID)
             (\<lambda>p. p\<lparr>p_display_name := displayName, p_repo_url := url\<rparr>) (projects d)\<rparr>))"

definition UpdateProject :: "uuid \<Rightarrow> string \<Rightarrow> string \<Rightarrow> world \<Rightarrow> (err + unit) \<times> world" where
  "UpdateProject projectID displayName repoURL = db_call (update_project projectID displayName (nullStr repoURL))"

definition archive_project :: "uuid \<Rightarrow> unit stmt" where
  "archive_project projectID t d =
     (Inr (), d\<lparr>projects := update_where (\<lambda>p. p_id p = projectID) (\<lambda>p. p\<lparr>p_archived_at := Some t\<rparr>) (projects d)\<rparr>)"

definition ArchiveProject :: "uuid \<Rightarrow> world \<Rightarrow> (err + unit) \<times> world" where
  "ArchiveProject projectID = db_call (archive_project projectID)"

text \<open>\<^verbatim>\<open>project_members pm JOIN users u ON u.id = pm.user_id\<close>; the columns of \<open>u\<close> are those of the row found.\<close>

definition member_views :: "lib \<Rightarrow> uuid \<Rightarrow> db \<Rightarrow> MemberRow list" where
  "member_views L projectID d =
     sort_key (\<lambda>m. collate L (ToLower (mr_Email m)))
       (List.map_filter (\<lambda>m. map_option (\<lambda>u. \<lparr>mr_UserID = u_id u, mr_Email = u_email u, mr_DisplayName = u_display_name u,
            mr_Role = m_role m\<rparr>) (lookup_by u_id (m_user_id m) (users d)))
         (filter (\<lambda>m. m_project_id m = projectID) (project_members d)))"

definition ProjectMembers :: "lib \<Rightarrow> uuid \<Rightarrow> world \<Rightarrow> (err + MemberRow list) \<times> world" where
  "ProjectMembers L projectID = db_call (query (\<lambda>d. Inr (member_views L projectID d)))"

text \<open>The CHECK on the role is tested before the conflict is looked for.\<close>

definition member_roles :: "string set" where
  "member_roles = {''admin'', ''editor'', ''viewer''}"

definition upsert_member :: "uuid \<Rightarrow> uuid \<Rightarrow> string \<Rightarrow> unit stmt" where
  "upsert_member projectID userID role t d =
     (if role \<notin> member_roles then (Inl ErrConstraint, d)
      else if (projectID, userID) \<in> member_key ` set (project_members d)
      then (Inr (), d\<lparr>project_members := update_where (\<lambda>m. member_key m = (projectID, userID)) (\<lambda>m. m\<lparr>m_role := role\<rparr>)
             (project_members d)\<rparr>)
      else if projectID \<notin> project_ids d \<or> userID \<notin> user_ids d then (Inl ErrConstraint, d)
      else (Inr (), d\<lparr>project_members := project_members d @
             [\<lparr>m_project_id = projectID, m_user_id = userID, m_role = role\<rparr>]\<rparr>))"

definition AddProjectMember :: "uuid \<Rightarrow> uuid \<Rightarrow> string \<Rightarrow> world \<Rightarrow> (err + unit) \<times> world" where
  "AddProjectMember projectID userID role = db_call (upsert_member projectID userID role)"

definition remove_member :: "uuid \<Rightarrow> uuid \<Rightarrow> unit stmt" where
  "remove_member projectID userID t d =
     (Inr (), d\<lparr>project_members := delete_where (\<lambda>m. member_key m = (projectID, userID)) (project_members d)\<rparr>)"

definition RemoveProjectMember :: "uuid \<Rightarrow> uuid \<Rightarrow> world \<Rightarrow> (err + unit) \<times> world" where
  "RemoveProjectMember projectID userID = db_call (remove_member projectID userID)"

definition change_role :: "uuid \<Rightarrow> uuid \<Rightarrow> string \<Rightarrow> unit stmt" where
  "change_role projectID userID role t d =
     (if role \<notin> member_roles \<and> (projectID, userID) \<in> member_key ` set (project_members d) then (Inl ErrConstraint, d)
      else (Inr (), d\<lparr>project_members := update_where (\<lambda>m. member_key m = (projectID, userID)) (\<lambda>m. m\<lparr>m_role := role\<rparr>)
             (project_members d)\<rparr>))"

definition ChangeProjectMemberRole :: "uuid \<Rightarrow> uuid \<Rightarrow> string \<Rightarrow> world \<Rightarrow> (err + unit) \<times> world" where
  "ChangeProjectMemberRole projectID userID role = db_call (change_role projectID userID role)"

definition ProjectFiles :: "lib \<Rightarrow> uuid \<Rightarrow> world \<Rightarrow> (err + file_row list) \<times> world" where
  "ProjectFiles L projectID =
     db_call (query (\<lambda>d. Inr (sort_key (\<lambda>f. collate L (f_path f)) (filter (\<lambda>f. f_project_id f = projectID) (files d)))))"

definition ProjectCount :: "world \<Rightarrow> (err + nat) \<times> world" where
  "ProjectCount = db_call (query (\<lambda>d. Inr (rows_affected (\<lambda>p. p_archived_at p = None) (projects d))))"

definition UserCount :: "world \<Rightarrow> (err + nat) \<times> world" where
  "UserCount = db_call (query (\<lambda>d. Inr (rows_affected (\<lambda>u. u_status u = ''active'') (users d))))"

section \<open>The audit log\<close>

text \<open>The two LEFT JOINs find at most one row each, by primary key.\<close>

definition audit_view :: "lib \<Rightarrow> db \<Rightarrow> audit_row \<Rightarrow> AuditRow" where
  "audit_view L d a =
     \<lparr>ar_ID = a_id a, ar_ActorID = Some (a_actor a),
      ar_ActorEmail = coalesce (map_option u_email (lookup_by u_id (a_actor a) (users d))), ar_Action = a_action a,
      ar_ProjectID = a_project_id a,
      ar_ProjectSlug = coalesce (map_option p_slug (Option.bind (a_project_id a) (\<lambda>i. lookup_by p_id i (projects d)))),
      ar_Path = a_path a, ar_ETagBefore = coalesce (a_etag_before a), ar_ETagAfter = coalesce (a_etag_after a),
      ar_IP = coalesce (map_option (inet_text L) (a_ip a)), ar_UserAgent = a_user_agent a, ar_CreatedAt = a_created_at a\<rparr>"

text \<open>The WHERE clause that the function builds; a filter that is not a uuid fails in the cast.\<close>

definition audit_where :: "lib \<Rightarrow> AuditFilter \<Rightarrow> err + (audit_row \<Rightarrow> bool)" where
  "audit_where L f =
     (if af_UserID f \<noteq> '''' \<and> pg_uuid L (af_UserID f) = None \<or> af_ProjectID f \<noteq> '''' \<and> pg_uuid L (af_ProjectID f) = None
      then Inl ErrIO
      else Inr (\<lambda>a. (af_UserID f = '''' \<or> Some (a_actor a) = pg_uuid L (af_UserID f)) \<and>
                    (af_ProjectID f = '''' \<or> a_project_id a = pg_uuid L (af_ProjectID f)) \<and>
                    (af_Action f = '''' \<or> a_action a = af_Action f)))"

definition by_id_desc :: "audit_row list \<Rightarrow> audit_row list" where
  "by_id_desc as = sort_key (\<lambda>a. - a_id a) as"

definition AuditLog :: "lib \<Rightarrow> AuditFilter \<Rightarrow> world \<Rightarrow> (err + (AuditRow list \<times> int)) \<times> world" where
  "AuditLog L f w =
     (let pageSize = (if af_PageSize f \<le> 0 then 50 else af_PageSize f);
          page = (if af_Page f \<le> 0 then 1 else af_Page f);
          offset = int64 ((page - 1) * pageSize) in
      case db_call (query (\<lambda>d. case audit_where L f of Inl e \<Rightarrow> Inl e
             | Inr P \<Rightarrow> Inr (int (rows_affected P (audit_log d))))) w of
        (Inl e, w1) \<Rightarrow> (Inl e, w1)
      | (Inr n, w1) \<Rightarrow>
     (case db_call (query (\<lambda>d. case audit_where L f of Inl e \<Rightarrow> Inl e
             | Inr P \<Rightarrow> if offset < 0 then Inl ErrIO
                 else Inr (map (audit_view L d) (take (nat pageSize) (drop (nat offset)
                        (by_id_desc (filter P (audit_log d)))))))) w1 of
        (Inl e, w2) \<Rightarrow> (Inl e, w2)
      | (Inr rows, w2) \<Rightarrow> (Inr (rows, n), w2)))"

definition RecentActivity :: "lib \<Rightarrow> nat \<Rightarrow> world \<Rightarrow> (err + AuditRow list) \<times> world" where
  "RecentActivity L limit =
     db_call (query (\<lambda>d. Inr (map (audit_view L d) (take limit (by_id_desc (audit_log d))))))"

section \<open>The constraints of the schema are kept\<close>

lemma keeps_okI: "(\<And>t d. db_ok d \<Longrightarrow> db_ok (snd (st t d))) \<Longrightarrow> keeps_ok st"
  by (simp add: keeps_ok_def)

lemma db_call_ok: "keeps_ok st \<Longrightarrow> db_call st w = (r, w') \<Longrightarrow> db_ok (db w) \<Longrightarrow> db_ok (db w')"
  using db_call_keeps_ok [of st w] by simp

lemma db_ok_project_members:
  "db_ok d \<Longrightarrow> unique_on member_key ms \<Longrightarrow> m_project_id ` set ms \<subseteq> project_ids d \<Longrightarrow>
   m_user_id ` set ms \<subseteq> user_ids d \<Longrightarrow> m_role ` set ms \<subseteq> member_roles \<Longrightarrow> db_ok (d\<lparr>project_members := ms\<rparr>)"
  by (simp add: db_ok_def schema_defs member_roles_def)

lemma db_ok_membersD:
  assumes "db_ok d"
  shows "unique_on member_key (project_members d)" "m_project_id ` set (project_members d) \<subseteq> project_ids d"
    "m_user_id ` set (project_members d) \<subseteq> user_ids d" "m_role ` set (project_members d) \<subseteq> member_roles"
  using assms by (simp_all add: db_ok_def members_ok_def member_roles_def)


lemma db_ok_projects:
  assumes "db_ok d" and "unique_on p_id ps" and "unique_on p_slug ps" and "p_created_by ` set ps \<subseteq> user_ids d"
    and "project_ids d \<subseteq> p_id ` set ps"
  shows "db_ok (d\<lparr>projects := ps\<rparr>)"
proof -
  have "project_ids (d\<lparr>projects := ps\<rparr>) = p_id ` set ps" by (simp add: project_ids_def)
  moreover have "set_option (a_project_id r) \<subseteq> p_id ` set ps" if "r \<in> set (audit_log d)" for r
    using that assms(1,5) unfolding db_ok_def audit_ok_def by blast
  ultimately show ?thesis using assms unfolding db_ok_def
    by (auto simp: users_ok_def auth_ok_def projects_ok_def members_ok_def files_ok_def events_ok_def audit_ok_def user_ids_def)
qed

lemma db_ok_projectsD:
  assumes "db_ok d"
  shows "unique_on p_id (projects d)" "unique_on p_slug (projects d)" "p_created_by ` set (projects d) \<subseteq> user_ids d"
  using assms by (simp_all add: db_ok_def projects_ok_def)

lemma image_update_where: "(\<And>r. key (f r) = key r) \<Longrightarrow> key ` set (update_where p f rows) = key ` set rows"
  using keys_update [of key f p rows] by (metis set_map)

lemma keeps_ok_deactivate: "keeps_ok (deactivate_user i)"
proof (rule keeps_okI)
  fix t d assume ok: "db_ok d"
  let ?us = "update_where (\<lambda>u. u_id u = i) (\<lambda>u. u\<lparr>u_status := ''disabled'', u_updated_at := t\<rparr>) (users d)"
  have "user_ids (d\<lparr>users := ?us\<rparr>) = user_ids d" by (simp add: user_ids_def image_update_where)
  moreover have "users_ok (d\<lparr>users := ?us\<rparr>)"
    using ok by (simp add: db_ok_def users_ok_def unique_on_update) (auto simp: update_where_def)
  ultimately show "db_ok (snd (deactivate_user i t d))"
    using ok by (simp add: deactivate_user_def db_ok_def auth_ok_def projects_ok_def members_ok_def files_ok_def events_ok_def
        audit_ok_def project_ids_def)
qed

lemma keeps_ok_revoke: "keeps_ok (revoke_session i)"
  by (rule keeps_okI)
     (simp add: revoke_session_def db_ok_sessions db_ok_authD unique_on_update image_update_where)

lemma keeps_ok_delete_passkey: "keeps_ok (delete_passkey i)"
  by (rule keeps_okI)
     (auto simp: delete_passkey_def db_ok_def schema_defs unique_on_delete, auto simp: delete_where_def)

lemma keeps_ok_insert_project: "keeps_ok (insert_project i sl dn url c)"
proof (rule keeps_okI)
  fix t d assume "db_ok d"
  note D = db_ok_projectsD [OF this] this
  show "db_ok (snd (insert_project i sl dn url c t d))"
    using D by (auto simp: insert_project_def unique_on_snoc project_ids_def image_subset_iff split: option.splits intro!: db_ok_projects)
qed

lemma keeps_ok_update_project: "keeps_ok (update_project i dn url)"
proof (rule keeps_okI)
  fix t d assume "db_ok d"
  note D = db_ok_projectsD [OF this] this
  show "db_ok (snd (update_project i dn url t d))"
    using D by (simp add: update_project_def db_ok_projects unique_on_update image_update_where project_ids_def split: option.splits)
qed

lemma keeps_ok_archive: "keeps_ok (archive_project i)"
proof (rule keeps_okI)
  fix t d assume "db_ok d"
  note D = db_ok_projectsD [OF this] this
  show "db_ok (snd (archive_project i t d))"
    using D by (simp add: archive_project_def db_ok_projects unique_on_update image_update_where project_ids_def)
qed

lemma member_key_role [simp]: "member_key (m\<lparr>m_role := r\<rparr>) = member_key m"
  by (simp add: member_key_def)

lemma member_key_new [simp]: "member_key \<lparr>m_project_id = p, m_user_id = u, m_role = r\<rparr> = (p, u)"
  by (simp add: member_key_def)

lemma db_ok_new_role:
  assumes "db_ok d" and "role \<in> member_roles \<or> k \<notin> member_key ` set (project_members d)"
  shows "db_ok (d\<lparr>project_members := update_where (\<lambda>m. member_key m = k) (\<lambda>m. m\<lparr>m_role := role\<rparr>) (project_members d)\<rparr>)"
proof (rule db_ok_project_members [OF assms(1)])
  note D = db_ok_membersD [OF assms(1)]
  show "m_role ` set (update_where (\<lambda>m. member_key m = k) (\<lambda>m. m\<lparr>m_role := role\<rparr>) (project_members d)) \<subseteq> member_roles"
    using assms(2) D(4) by (auto simp: update_where_def)
qed (use db_ok_membersD [OF assms(1)] in \<open>simp_all add: unique_on_update image_update_where\<close>)

lemma keeps_ok_upsert_member: "keeps_ok (upsert_member p u r)"
proof (rule keeps_okI)
  fix t d assume ok: "db_ok d"
  show "db_ok (snd (upsert_member p u r t d))"
    using ok db_ok_membersD [OF ok]
    by (simp add: upsert_member_def db_ok_new_role db_ok_project_members unique_on_snoc)
qed

lemma keeps_ok_remove_member: "keeps_ok (remove_member p u)"
proof (rule keeps_okI)
  fix t d assume ok: "db_ok d"
  show "db_ok (snd (remove_member p u t d))"
    using db_ok_membersD [OF ok] unfolding remove_member_def snd_conv
    by (intro db_ok_project_members ok unique_on_delete) (auto simp: delete_where_def)
qed

lemma keeps_ok_change_role: "keeps_ok (change_role p u r)"
  by (rule keeps_okI) (auto simp: change_role_def intro!: db_ok_new_role)

lemmas keeps_ok_admin = keeps_ok_deactivate keeps_ok_revoke keeps_ok_delete_passkey keeps_ok_insert_project
  keeps_ok_update_project keeps_ok_archive keeps_ok_upsert_member keeps_ok_remove_member keeps_ok_change_role


section \<open>Effects\<close>

text \<open>The role a user holds in a project, after each of the three membership statements.\<close>

definition role_of :: "db \<Rightarrow> uuid \<times> uuid \<Rightarrow> string option" where
  "role_of d k = map_option m_role (lookup_by member_key k (project_members d))"

lemma role_of_new_role:
  "role_of (d\<lparr>project_members := update_where (\<lambda>m. member_key m = k) (\<lambda>m. m\<lparr>m_role := role\<rparr>) (project_members d)\<rparr>) =
     (if role_of d k = None then role_of d else (role_of d)(k \<mapsto> role))"
proof (rule ext)
  fix k'
  show "role_of (d\<lparr>project_members := update_where (\<lambda>m. member_key m = k) (\<lambda>m. m\<lparr>m_role := role\<rparr>) (project_members d)\<rparr>) k' =
     (if role_of d k = None then role_of d else (role_of d)(k \<mapsto> role)) k'"
    using lookup_by_Some [of member_key k' "project_members d"]
    by (cases "lookup_by member_key k' (project_members d)") (auto simp: role_of_def lookup_by_update)
qed

lemma role_of_None: "role_of d k = None \<longleftrightarrow> k \<notin> member_key ` set (project_members d)"
  by (simp add: role_of_def lookup_by_None)

lemma role_of_snoc:
  "member_key m \<notin> member_key ` set (project_members d) \<Longrightarrow>
   role_of (d\<lparr>project_members := project_members d @ [m]\<rparr>) = (role_of d)(member_key m \<mapsto> m_role m)"
  by (auto simp: role_of_def lookup_by_append lookup_by_None [symmetric] fun_eq_iff split: option.splits)

lemma upsert_member_role:
  "upsert_member p u r t d = (Inr (), d') \<Longrightarrow> role_of d' = (role_of d)((p, u) \<mapsto> r)"
  by (auto simp: upsert_member_def role_of_new_role role_of_snoc role_of_None split: if_splits)

lemma remove_member_role:
  assumes "db_ok d" and "remove_member p u t d = (Inr (), d')"
  shows "role_of d' = (role_of d)((p, u) := None)"
proof (rule ext)
  fix k
  show "role_of d' k = ((role_of d)((p, u) := None)) k"
    using assms(2) lookup_by_Some [of member_key k "project_members d"]
    by (cases "lookup_by member_key k (project_members d)")
       (auto simp: remove_member_def role_of_def lookup_by_delete db_ok_membersD [OF assms(1)])
qed

lemma change_role_role:
  "change_role p u r t d = (Inr (), d') \<Longrightarrow>
   role_of d' = (if role_of d (p, u) = None then role_of d else (role_of d)((p, u) \<mapsto> r))"
  by (auto simp: change_role_def role_of_new_role split: if_splits)

section \<open>Pages of the audit log\<close>

lemma int64_small: "- (2 ^ 63) \<le> n \<Longrightarrow> n < 2 ^ 63 \<Longrightarrow> int64 n = n"
  unfolding int64_def by (rule signed_take_bit_int_eq_self) simp_all

lemma concat_pages:
  "0 < k \<Longrightarrow> concat (map (\<lambda>i. take k (drop (i * k) xs)) [0..<n]) = take (n * k) xs"
proof (induction n)
  case (Suc n)
  have "take (n * k) xs @ take k (drop (n * k) xs) = take (Suc n * k) xs"
    by (metis add.commute mult_Suc take_add)
  with Suc show ?case by simp
qed simp

text \<open>In a database that respects its constraints the log is stored in the order of its numbers, so newest first
  is the reverse.\<close>

lemma sort_neg_rev:
  fixes f :: "'a \<Rightarrow> int"
  assumes "sorted_wrt (<) (map f xs)"
  shows "sort_key (\<lambda>x. - f x) xs = rev xs"
proof (rule properties_for_sort_key)
  show "sorted (map (\<lambda>x. - f x) (rev xs))"
    using assms by (induction xs) (auto simp: sorted_append)
  have "inj_on f (set xs)" using assms by (metis distinct_map strict_sorted_iff)
  then have "distinct xs" using assms by (metis distinct_map strict_sorted_iff)
  with \<open>inj_on f (set xs)\<close>
  show "filter (\<lambda>y. - f k = - f y) (rev xs) = filter (\<lambda>y. - f k = - f y) xs" if "k \<in> set (rev xs)" for k
  proof -
    have "filter (\<lambda>y. - f k = - f y) xs = filter (\<lambda>y. y = k) xs"
      using that \<open>inj_on f (set xs)\<close> by (intro filter_cong) (auto dest: inj_onD)
    moreover have "filter (\<lambda>y. y = k) xs = [k]" using that \<open>distinct xs\<close> by (induction xs) (auto simp: filter_empty_conv)
    ultimately show ?thesis by (metis rev_filter rev_singleton_conv)
  qed
qed simp

lemma by_id_desc_rev:
  assumes "db_ok d" shows "by_id_desc (filter P (audit_log d)) = rev (filter P (audit_log d))"
  unfolding by_id_desc_def
proof (rule sort_neg_rev)
  have "sorted_wrt (<) (map a_id (audit_log d))" using assms by (simp add: db_ok_def audit_ok_def)
  then show "sorted_wrt (<) (map a_id (filter P (audit_log d)))" by (simp add: sorted_wrt_map sorted_wrt_filter)
qed

text \<open>One page, without failures.\<close>

lemma AuditLog_Done:
  assumes "fates w = []" and "audit_where L f = Inr P" and "0 < af_PageSize f" and "0 < af_Page f"
    and "(af_Page f - 1) * af_PageSize f < 2 ^ 63"
  shows "AuditLog L f w = (Inr (map (audit_view L (db w)) (take (nat (af_PageSize f)) (drop (nat ((af_Page f - 1) * af_PageSize f))
      (by_id_desc (filter P (audit_log (db w)))))), int (rows_affected P (audit_log (db w)))), w)"
proof -
  define off where "off = (af_Page f - 1) * af_PageSize f"
  have "0 \<le> off" using assms(3,4) by (simp add: off_def)
  then have "int64 off = off" "\<not> off < 0" using assms(5) int64_small [of off] by (simp_all add: off_def)
  with assms show ?thesis by (simp add: AuditLog_def Let_def db_call_query_Done flip: off_def)
qed


section \<open>Properties\<close>

lemma audit_where_page [simp]: "audit_where L (f\<lparr>af_Page := p\<rparr>) = audit_where L f"
  by (simp add: audit_where_def)

text \<open>The rows and the count of one page; nothing when the call fails.\<close>

definition page_rows :: "lib \<Rightarrow> AuditFilter \<Rightarrow> world \<Rightarrow> nat \<Rightarrow> AuditRow list" where
  "page_rows L f w i = (case fst (AuditLog L (f\<lparr>af_Page := int i\<rparr>) w) of Inl _ \<Rightarrow> [] | Inr (rows, _) \<Rightarrow> rows)"

lemma page_rows_Done:
  assumes "db_ok (db w)" and "fates w = []" and "audit_where L f = Inr P" and "af_PageSize f = int k" and "0 < k"
    and "int (i * k) < 2 ^ 63"
  shows "page_rows L f w (Suc i) = take k (drop (i * k) (map (audit_view L (db w)) (rev (filter P (audit_log (db w))))))"
proof -
  have off: "(int (Suc i) - 1) * int k = int (i * k)" "nat (int i * int k) = i * k" by (simp_all add: nat_mult_distrib)
  have "AuditLog L (f\<lparr>af_Page := int (Suc i)\<rparr>) w = (Inr (map (audit_view L (db w)) (take k (drop (i * k)
      (by_id_desc (filter P (audit_log (db w)))))), int (rows_affected P (audit_log (db w)))), w)"
    using AuditLog_Done [of w L "f\<lparr>af_Page := int (Suc i)\<rparr>" P] assms off by simp
  then show ?thesis by (simp add: page_rows_def by_id_desc_rev [OF assms(1)] take_map drop_map)
qed

text \<open>C39. The pages of the audit log are the log: without failures, the pages \<open>1 .. n\<close> of a filter, put one after the other, are
  all the entries that pass the filter, each once, newest first, as soon as \<open>n\<close> pages have room for them
  (and the offset of the last page is within 64 bits); every page reports the number of those entries.\<close>

theorem AuditLog_pages:
  assumes "db_ok (db w)" and "fates w = []" and "audit_where L f = Inr P" and "af_PageSize f = int k" and "0 < k"
    and "int (n * k) < 2 ^ 63" and "length (filter P (audit_log (db w))) \<le> n * k"
  shows "concat (map (page_rows L f w) [1..<Suc n]) = map (audit_view L (db w)) (rev (filter P (audit_log (db w)))) \<and>
    (\<forall>i < n. \<exists>rows. AuditLog L (f\<lparr>af_Page := int (Suc i)\<rparr>) w = (Inr (rows, int (length (filter P (audit_log (db w))))), w))"
proof -
  let ?all = "map (audit_view L (db w)) (rev (filter P (audit_log (db w))))"
  have small: "int (i * k) < 2 ^ 63" if "i < n" for i
  proof -
    have "i * k \<le> n * k" using that by simp
    then have "int (i * k) \<le> int (n * k)" by (simp only: of_nat_le_iff)
    also note assms(6)
    finally show ?thesis .
  qed
  have "map (page_rows L f w) [1..<Suc n] = map (\<lambda>i. page_rows L f w (Suc i)) [0..<n]"
    by (simp add: map_Suc_upt [symmetric] o_def del: upt_Suc)
  also have "\<dots> = map (\<lambda>i. take k (drop (i * k) ?all)) [0..<n]"
    using page_rows_Done [OF assms(1-5)] small by (intro map_cong) simp_all
  finally have "concat (map (page_rows L f w) [1..<Suc n]) = take (n * k) ?all"
    using concat_pages [OF assms(5), of ?all n] by (simp only:)
  then have "concat (map (page_rows L f w) [1..<Suc n]) = ?all" using assms(7) by simp
  moreover have "\<exists>rows. AuditLog L (f\<lparr>af_Page := int (Suc i)\<rparr>) w = (Inr (rows, int (length (filter P (audit_log (db w))))), w)" if "i < n" for i
    using AuditLog_Done [of w L "f\<lparr>af_Page := int (Suc i)\<rparr>" P] assms small [OF that] by (simp add: rows_affected_def)
  ultimately show ?thesis by blast
qed

text \<open>Three entries by user 2, seen in pages of two.\<close>

definition sample_audit :: "int \<Rightarrow> audit_row" where
  "sample_audit i = \<lparr>a_id = i, a_actor = 2, a_action = ''put_issue'', a_project_id = Some 7, a_path = ''0001.md'',
     a_etag_before = None, a_etag_after = Some ''t'', a_ip = Some ''10.0.0.1'', a_user_agent = ''ua'', a_created_at = i\<rparr>"

definition sample_audit_world :: world where
  "sample_audit_world = sample_world\<lparr>db := sample_db\<lparr>audit_log := map sample_audit [1, 2, 3], audit_seq := 4\<rparr>\<rparr>"

definition sample_filter :: AuditFilter where
  "sample_filter = \<lparr>af_UserID = sample_uuid_String 2, af_ProjectID = '''', af_Action = ''put_issue'', af_Page = 1, af_PageSize = 2\<rparr>"

lemma sample_audit_world_ok: "db_ok (db sample_audit_world)"
  by (simp add: sample_audit_world_def sample_audit_def sample_defs db_ok_def schema_defs member_key_def ToLower_def lower_char_def)

lemma sample_filter_where: "audit_where sample_lib sample_filter = Inr (\<lambda>a. a_actor a = 2 \<and> a_action a = ''put_issue'')"
  by (auto simp: audit_where_def sample_filter_def fun_eq_iff)

theorem AuditLog_pages_witness:
  "map ar_ID (concat (map (page_rows sample_lib sample_filter sample_audit_world) [1..<3])) = [3, 2, 1]"
proof -
  have "map ar_ID (concat (map (page_rows sample_lib sample_filter sample_audit_world) [1..<Suc 2])) = [3, 2, 1]"
    by (subst AuditLog_pages [OF sample_audit_world_ok _ sample_filter_where, of 2, THEN conjunct1])
       (simp_all add: sample_audit_world_def sample_filter_def sample_audit_def audit_view_def)
  then show ?thesis by (simp add: numeral_3_eq_3 numeral_2_eq_2)
qed

text \<open>The offset of page \<open>2^63 - 1\<close>, which \<open>strconv.Atoi\<close> returns for every number too large for it, wraps around to a
  negative one, and the call fails.\<close>

lemma AuditLog_largest_page:
  assumes "af_Page f = 2 ^ 63 - 1" and "af_PageSize f = 50"
  shows "\<exists>e. fst (AuditLog L f w) = Inl e"
proof -
  have "int64 ((af_Page f - 1) * af_PageSize f) = -100" using assms by (simp add: int64_def signed_take_bit_eq_take_bit_shift take_bit_eq_mod)
  then show ?thesis using assms
    by (auto simp: AuditLog_def Let_def db_call_def query_def split: sum.splits prod.splits fate.splits)
qed

lemma AddProjectMember_effect:
  assumes "db_ok (db w)" and "AddProjectMember p u role w = (res, w')"
  shows "db_ok (db w') \<and> (\<exists>ms. db w' = (db w)\<lparr>project_members := ms\<rparr>) \<and>
    (res = Inr () \<longrightarrow> role_of (db w') = (role_of (db w))((p, u) \<mapsto> role)) \<and>
    (fates w = [] \<longrightarrow> (res = Inr ()) = (role \<in> member_roles \<and> p \<in> project_ids (db w) \<and> u \<in> user_ids (db w)))"
proof (intro conjI impI)
  let ?st = "upsert_member p u role"
  have w': "w' = snd (db_call ?st w)" and run: "db_call ?st w = (res, w')" using assms(2) by (simp_all add: AddProjectMember_def)
  show "db_ok (db w')" using db_call_keeps_ok [OF keeps_ok_upsert_member assms(1)] by (simp add: w')
  have "\<exists>ms. snd (?st t d) = d\<lparr>project_members := ms\<rparr>" for t d
    by (auto simp: upsert_member_def intro: exI [of _ "project_members d"])
  moreover have "\<exists>ms. db w = (db w)\<lparr>project_members := ms\<rparr>" by (rule exI [of _ "project_members (db w)"]) simp
  ultimately show "\<exists>ms. db w' = (db w)\<lparr>project_members := ms\<rparr>" using db_call_db [of ?st w] by (auto simp: w')
  show "role_of (db w') = (role_of (db w))((p, u) \<mapsto> role)" if "res = Inr ()"
    using upsert_member_role db_call_Inr [OF run [unfolded that]] by simp
  show "(res = Inr ()) = (role \<in> member_roles \<and> p \<in> project_ids (db w) \<and> u \<in> user_ids (db w))" if "fates w = []"
  proof -
    have res: "res = fst (?st (clock w) (db w))" using run db_call_Done [OF that, of ?st] by simp
    have "p \<in> project_ids (db w) \<and> u \<in> user_ids (db w)" if "(p, u) \<in> member_key ` set (project_members (db w))"
      using that db_ok_membersD(2,3)[OF assms(1)] by (auto simp: member_key_def)
    then show ?thesis by (auto simp: res upsert_member_def)
  qed
qed

text \<open>Adding a member: \<open>AddProjectMember\<close> gives the user exactly the role, whatever role it had in the project (so an existing admin of
  the project can be demoted by it), changes no other membership and no other table, and succeeds (without failures) exactly when the role is one of the
  three and the project and the user exist. Whatever fails, the constraints hold.\<close>

theorem AddProjectMember_correct:
  assumes "db_ok (db w)" and "AddProjectMember p u role w = (res, w')"
  shows "db_ok (db w') \<and> (\<exists>ms. db w' = (db w)\<lparr>project_members := ms\<rparr>) \<and>
    (res = Inr () \<longrightarrow> role_of (db w') = (role_of (db w))((p, u) \<mapsto> role)) \<and>
    (fates w = [] \<longrightarrow> (res = Inr ()) = (role \<in> member_roles \<and> p \<in> project_ids (db w) \<and> u \<in> user_ids (db w)))"
  by (rule AddProjectMember_effect [OF assms])

theorem AddProjectMember_correct_witness:
  "role_of (db (snd (AddProjectMember 7 2 ''viewer'' sample_world))) (7, 2) = Some ''viewer''"
proof -
  obtain res w' where run: "AddProjectMember 7 2 ''viewer'' sample_world = (res, w')" by fastforce
  from AddProjectMember_correct [OF _ run] show ?thesis by (simp add: run member_roles_def)
qed

end
