(* ===== verification/Webauthn.thy ===== *)
theory Webauthn
  imports Admin_Queries
begin

text \<open>
  The passkey service, \<^verbatim>\<open>internal/auth/webauthn.go\<close>: loading a user with its credentials, and the two ceremonies
  (registration and assertion), each in its two halves.

  The go-webauthn library is the record \<open>wn_lib\<close>. Its two first halves take the random bytes they draw as an argument, its two second
  halves the time. Of \<open>SessionData\<close> the code reads only the user; the rest is opaque. What is assumed of
  the library (\<open>wn_laws\<close>) is what it documents: the session of a login carries the handle of the user it was begun for, a ceremony is
  only finished for the user of its session, and a login only with a credential that this user has.

  Shown: an assertion that succeeds was made by an active user with one of its own passkeys, and only touches that passkey's counter and
  time of use; a registration that succeeds adds exactly the new credential, whose stored key decodes to the key the
  library verified; disabled users get through neither.
\<close>

section \<open>The library\<close>

record CredentialFlags =
  cf_UserPresent :: bool
  cf_UserVerified :: bool
  cf_BackupEligible :: bool
  cf_BackupState :: bool

text \<open>\<open>webauthn.Credential\<close>; \<open>wc_attestation\<close> stands for the attestation type, the attachment and the attestation object, which the code never
  touches.\<close>

record Credential =
  wc_ID :: bytes
  wc_PublicKey :: bytes
  wc_Transport :: "string list"
  wc_Flags :: CredentialFlags
  wc_AAGUID :: bytes
  wc_SignCount :: int
  wc_CloneWarning :: bool
  wc_attestation :: bytes

record User =
  wu_ID :: bytes
  wu_Name :: string
  wu_DisplayName :: string
  wu_Credentials :: "Credential list"

record SessionData =
  sd_UserID :: bytes
  sd_opaque :: bytes

record wn_lib =
  uuid_FromBytes :: "bytes \<Rightarrow> uuid option"
  wn_BeginRegistration :: "User \<Rightarrow> bytes \<Rightarrow> (json \<times> SessionData) option"
  wn_FinishRegistration :: "User \<Rightarrow> SessionData \<Rightarrow> time \<Rightarrow> request \<Rightarrow> Credential option"
  wn_BeginLogin :: "User \<Rightarrow> bytes \<Rightarrow> (json \<times> SessionData) option"
  wn_FinishLogin :: "User \<Rightarrow> SessionData \<Rightarrow> time \<Rightarrow> request \<Rightarrow> Credential option"

text \<open>\<open>id[:]\<close>: the sixteen bytes of a uuid, most significant first.\<close>

definition uuid_bytes :: "uuid \<Rightarrow> bytes" where
  "uuid_bytes u = map (\<lambda>i. char_of (unat (take_bit 8 (drop_bit (8 * i) u)))) (rev [0..<16])"

definition wn_laws :: "wn_lib \<Rightarrow> bool" where
  "wn_laws W \<longleftrightarrow>
     (\<forall>u. uuid_FromBytes W (uuid_bytes u) = Some u) \<and>
     (\<forall>b u. uuid_FromBytes W b = Some u \<longrightarrow> b = uuid_bytes u) \<and>
     (\<forall>u rnd opts s. wn_BeginLogin W u rnd = Some (opts, s) \<longrightarrow> sd_UserID s = wu_ID u) \<and>
     (\<forall>u rnd opts s. wn_BeginRegistration W u rnd = Some (opts, s) \<longrightarrow> sd_UserID s = wu_ID u) \<and>
     (\<forall>u s t r c. wn_FinishRegistration W u s t r = Some c \<longrightarrow> sd_UserID s = wu_ID u) \<and>
     (\<forall>u s t r c. wn_FinishLogin W u s t r = Some c \<longrightarrow> sd_UserID s = wu_ID u \<and> wc_ID c \<in> wc_ID ` set (wu_Credentials u))"

lemma wn_lawsD:
  assumes "wn_laws W"
  shows "uuid_FromBytes W (uuid_bytes u) = Some u"
    "uuid_FromBytes W b = Some u \<Longrightarrow> b = uuid_bytes u"
    "wn_BeginLogin W usr rnd = Some (opts, s) \<Longrightarrow> sd_UserID s = wu_ID usr"
    "wn_BeginRegistration W usr rnd = Some (opts, s) \<Longrightarrow> sd_UserID s = wu_ID usr"
    "wn_FinishRegistration W usr s t r = Some c \<Longrightarrow> sd_UserID s = wu_ID usr"
    "wn_FinishLogin W usr s t r = Some c \<Longrightarrow> sd_UserID s = wu_ID usr"
    "wn_FinishLogin W usr s t r = Some c \<Longrightarrow> wc_ID c \<in> wc_ID ` set (wu_Credentials usr)"
  using assms by (auto simp: wn_laws_def) blast

section \<open>The service\<close>

datatype wa_err = LoadFailed err | LibraryRefused | BadUserID | StoreFailed err

text \<open>The credential that \<open>loadCredentials\<close> builds from a row: the fields the composite literal does not mention have their zero values.\<close>

definition no_flags :: CredentialFlags where
  "no_flags = \<lparr>cf_UserPresent = False, cf_UserVerified = False, cf_BackupEligible = False, cf_BackupState = False\<rparr>"

definition credential_of :: "passkey_row \<Rightarrow> Credential" where
  "credential_of p = \<lparr>wc_ID = pk_credential_id p, wc_PublicKey = pk_public_key p, wc_Transport = pk_transports p, wc_Flags = no_flags,
     wc_AAGUID = '''', wc_SignCount = pk_sign_count p, wc_CloneWarning = False, wc_attestation = ''''\<rparr>"

text \<open>A \<open>bigint\<close> that is not a \<open>uint32\<close> fails to scan.\<close>

definition loadCredentials :: "uuid \<Rightarrow> world \<Rightarrow> (err + Credential list) \<times> world" where
  "loadCredentials userID =
     db_call (query (\<lambda>d. let rows = filter (\<lambda>p. pk_user_id p = userID) (passkeys d) in
       if list_all (\<lambda>p. 0 \<le> pk_sign_count p \<and> pk_sign_count p < 2 ^ 32) rows then Inr (map credential_of rows) else Inl ErrIO))"

definition loadUser :: "uuid \<Rightarrow> world \<Rightarrow> (err + User) \<times> world" where
  "loadUser i w =
     (case db_call (query (\<lambda>d. one_row (find (\<lambda>u. u_id u = i \<and> u_status u = ''active'') (users d)))) w of
        (Inl e, w1) \<Rightarrow> (Inl e, w1)
      | (Inr u, w1) \<Rightarrow>
     (case loadCredentials i w1 of
        (Inl e, w2) \<Rightarrow> (Inl e, w2)
      | (Inr creds, w2) \<Rightarrow>
          (Inr \<lparr>wu_ID = uuid_bytes i, wu_Name = u_email u, wu_DisplayName = u_display_name u, wu_Credentials = creds\<rparr>, w2)))"

definition loadUserByEmail :: "string \<Rightarrow> world \<Rightarrow> (err + User) \<times> world" where
  "loadUserByEmail email w =
     (case db_call (query (\<lambda>d. one_row (find (\<lambda>u. EqualFold (u_email u) email \<and> u_status u = ''active'') (users d)))) w of
        (Inl e, w1) \<Rightarrow> (Inl e, w1)
      | (Inr u, w1) \<Rightarrow>
     (case loadCredentials (u_id u) w1 of
        (Inl e, w2) \<Rightarrow> (Inl e, w2)
      | (Inr creds, w2) \<Rightarrow>
          (Inr \<lparr>wu_ID = uuid_bytes (u_id u), wu_Name = email, wu_DisplayName = u_display_name u, wu_Credentials = creds\<rparr>, w2)))"

definition BeginRegistration :: "wn_lib \<Rightarrow> bytes \<Rightarrow> uuid \<Rightarrow> world \<Rightarrow> (wa_err + json \<times> SessionData) \<times> world" where
  "BeginRegistration W rnd userID w =
     (case loadUser userID w of
        (Inl e, w1) \<Rightarrow> (Inl (LoadFailed e), w1)
      | (Inr u, w1) \<Rightarrow>
          (case wn_BeginRegistration W u rnd of
             None \<Rightarrow> (Inl LibraryRefused, w1)
           | Some (creation, sess) \<Rightarrow> (Inr (creation, sess), w1)))"

text \<open>\<open>decode($3, 'hex')\<close> is Postgres's inverse of \<open>hex.EncodeToString\<close>.\<close>

definition insert_passkey :: "uuid \<Rightarrow> uuid \<Rightarrow> bytes \<Rightarrow> string \<Rightarrow> int \<Rightarrow> string list \<Rightarrow> string \<Rightarrow> unit stmt" where
  "insert_passkey newID userID credID pubKeyHex signCount transports label t d =
     (case hex_decode pubKeyHex of
        None \<Rightarrow> (Inl ErrIO, d)
      | Some key \<Rightarrow>
          if newID \<in> pk_id ` set (passkeys d) \<or> credID \<in> pk_credential_id ` set (passkeys d) \<or> userID \<notin> user_ids d
          then (Inl ErrConstraint, d)
          else (Inr (), d\<lparr>passkeys := passkeys d @
                 [\<lparr>pk_id = newID, pk_user_id = userID, pk_credential_id = credID, pk_public_key = key, pk_sign_count = signCount,
                   pk_transports = transports, pk_label = label, pk_last_used_at = None, pk_created_at = t\<rparr>]\<rparr>))"

definition FinishRegistration :: "wn_lib \<Rightarrow> uuid \<Rightarrow> uuid \<Rightarrow> SessionData \<Rightarrow> request \<Rightarrow> world \<Rightarrow> (wa_err + unit) \<times> world" where
  "FinishRegistration W newID userID sess r w =
     (case loadUser userID w of
        (Inl e, w1) \<Rightarrow> (Inl (LoadFailed e), w1)
      | (Inr u, w1) \<Rightarrow>
     (case wn_FinishRegistration W u sess (clock w1) r of
        None \<Rightarrow> (Inl LibraryRefused, w1)
      | Some cred \<Rightarrow>
     let pubKeyHex = hex_EncodeToString (wc_PublicKey cred);
         transports = map (\<lambda>t. t) (wc_Transport cred) in
     (case db_call (insert_passkey newID userID (wc_ID cred) pubKeyHex (wc_SignCount cred) transports '''') w1 of
        (Inl e, w2) \<Rightarrow> (Inl (StoreFailed e), w2)
      | (Inr _, w2) \<Rightarrow> (Inr (), w2))))"

definition BeginAssertion :: "wn_lib \<Rightarrow> bytes \<Rightarrow> string \<Rightarrow> world \<Rightarrow> (wa_err + json \<times> SessionData) \<times> world" where
  "BeginAssertion W rnd email w =
     (case loadUserByEmail email w of
        (Inl e, w1) \<Rightarrow> (Inl (LoadFailed e), w1)
      | (Inr u, w1) \<Rightarrow>
          (case wn_BeginLogin W u rnd of
             None \<Rightarrow> (Inl LibraryRefused, w1)
           | Some (assertion, sess) \<Rightarrow> (Inr (assertion, sess), w1)))"

definition update_passkey :: "int \<Rightarrow> time \<Rightarrow> bytes \<Rightarrow> unit stmt" where
  "update_passkey signCount usedAt credID t d =
     (Inr (), d\<lparr>passkeys := update_where (\<lambda>p. pk_credential_id p = credID)
        (\<lambda>p. p\<lparr>pk_sign_count := signCount, pk_last_used_at := Some usedAt\<rparr>) (passkeys d)\<rparr>)"

definition FinishAssertion :: "wn_lib \<Rightarrow> SessionData \<Rightarrow> request \<Rightarrow> world \<Rightarrow> (wa_err + User) \<times> world" where
  "FinishAssertion W sess r w =
     (case uuid_FromBytes W (sd_UserID sess) of
        None \<Rightarrow> (Inl BadUserID, w)
      | Some userUUID \<Rightarrow>
     (case loadUser userUUID w of
        (Inl e, w1) \<Rightarrow> (Inl (LoadFailed e), w1)
      | (Inr u, w1) \<Rightarrow>
     (case wn_FinishLogin W u sess (clock w1) r of
        None \<Rightarrow> (Inl LibraryRefused, w1)
      | Some cred \<Rightarrow>
     (case db_call (update_passkey (wc_SignCount cred) (clock w1) (wc_ID cred)) w1 of
        (Inl e, w2) \<Rightarrow> (Inl (StoreFailed e), w2)
      | (Inr _, w2) \<Rightarrow> (Inr u, w2)))))"

section \<open>Loading\<close>

lemma loadCredentials_quiet: "loadCredentials i w = (x, w') \<Longrightarrow> quiet w w'"
  by (auto simp: loadCredentials_def dest: quiet_query)

lemma loadCredentials_Inr:
  "loadCredentials i w = (Inr cs, w') \<Longrightarrow> cs = map credential_of (filter (\<lambda>p. pk_user_id p = i) (passkeys (db w)))"
  by (auto simp: loadCredentials_def Let_def dest!: db_call_query_Inr split: if_splits)

lemma loadUser_quiet: "loadUser i w = (x, w') \<Longrightarrow> quiet w w'"
  by (auto simp: loadUser_def split: prod.splits sum.splits dest!: quiet_query loadCredentials_quiet intro: quiet_trans)

lemma loadUserByEmail_quiet: "loadUserByEmail m w = (x, w') \<Longrightarrow> quiet w w'"
  by (auto simp: loadUserByEmail_def split: prod.splits sum.splits dest!: quiet_query loadCredentials_quiet intro: quiet_trans)

text \<open>A user is loaded only when it is active; its credentials are its passkeys.\<close>

definition active_user :: "db \<Rightarrow> uuid \<Rightarrow> bool" where
  "active_user d i \<longleftrightarrow> (\<exists>u \<in> set (users d). u_id u = i \<and> u_status u = ''active'')"

lemma loadUser_Inr:
  assumes "loadUser i w = (Inr u, w')"
  shows "active_user (db w) i" and "wu_ID u = uuid_bytes i"
    and "wu_Credentials u = map credential_of (filter (\<lambda>p. pk_user_id p = i) (passkeys (db w)))"
proof -
  let ?q = "\<lambda>d. one_row (find (\<lambda>u. u_id u = i \<and> u_status u = ''active'') (users d))"
  obtain x w1 where q: "db_call (query ?q) w = (x, w1)" by fastforce
  obtain y w2 where c: "loadCredentials i w1 = (y, w2)" by fastforce
  obtain row creds where xy: "x = Inr row" "y = Inr creds" using assms q c by (cases x; cases y) (auto simp: loadUser_def)
  have "find (\<lambda>u. u_id u = i \<and> u_status u = ''active'') (users (db w)) = Some row"
    using db_call_query_Inr [OF q [unfolded xy]] by (simp add: one_row_def split: option.splits)
  then show "active_user (db w) i" by (auto simp: active_user_def find_Some_iff)
  show "wu_ID u = uuid_bytes i" using assms q c xy by (auto simp: loadUser_def)
  show "wu_Credentials u = map credential_of (filter (\<lambda>p. pk_user_id p = i) (passkeys (db w)))"
    using assms q xy loadCredentials_Inr [OF c [unfolded xy]] quietD(1)[OF quiet_query [OF q]] c by (auto simp: loadUser_def)
qed

lemma BeginRegistration_quiet: "BeginRegistration W rnd i w = (x, w') \<Longrightarrow> quiet w w'"
  by (auto simp: BeginRegistration_def split: prod.splits sum.splits option.splits dest!: loadUser_quiet)

lemma BeginAssertion_quiet: "BeginAssertion W rnd m w = (x, w') \<Longrightarrow> quiet w w'"
  by (auto simp: BeginAssertion_def split: prod.splits sum.splits option.splits dest!: loadUserByEmail_quiet)

section \<open>The constraints are kept\<close>

lemma db_ok_passkeys:
  "db_ok d \<Longrightarrow> unique_on pk_id ps \<Longrightarrow> unique_on pk_credential_id ps \<Longrightarrow> pk_user_id ` set ps \<subseteq> user_ids d \<Longrightarrow>
   db_ok (d\<lparr>passkeys := ps\<rparr>)"
  by (simp add: db_ok_def schema_defs)

lemma db_ok_passkeysD:
  assumes "db_ok d"
  shows "unique_on pk_id (passkeys d)" "unique_on pk_credential_id (passkeys d)" "pk_user_id ` set (passkeys d) \<subseteq> user_ids d"
  using assms by (simp_all add: db_ok_def auth_ok_def)

lemma keeps_ok_insert_passkey: "keeps_ok (insert_passkey i u c k n ts l)"
  by (rule keeps_okI) (auto simp: insert_passkey_def unique_on_snoc db_ok_passkeysD split: option.splits
      intro!: db_ok_passkeys dest: db_ok_passkeysD(3)[THEN subsetD, OF _ imageI])

lemma keeps_ok_update_passkey: "keeps_ok (update_passkey n u c)"
  by (rule keeps_okI) (simp add: update_passkey_def db_ok_passkeys db_ok_passkeysD unique_on_update image_update_where)

lemma FinishRegistration_ok: "db_ok (db w) \<Longrightarrow> FinishRegistration W i u s r w = (x, w') \<Longrightarrow> db_ok (db w')"
  by (auto simp: FinishRegistration_def Let_def split: prod.splits sum.splits option.splits
      dest!: loadUser_quiet quietD(1) dest: db_call_ok [OF keeps_ok_insert_passkey])

lemma FinishAssertion_ok: "db_ok (db w) \<Longrightarrow> FinishAssertion W s r w = (x, w') \<Longrightarrow> db_ok (db w')"
  by (auto simp: FinishAssertion_def split: prod.splits sum.splits option.splits
      dest!: loadUser_quiet quietD(1) dest: db_call_ok [OF keeps_ok_update_passkey])


section \<open>A concrete library\<close>

text \<open>A library that accepts an answer whose body is the identifier of the credential (login) or a new identifier (registration), when
  the session is that of the user.\<close>

definition sample_FromBytes :: "bytes \<Rightarrow> uuid option" where
  "sample_FromBytes b =
     (let u = horner_sum of_bool 2 (concat (map (\<lambda>c. map (bit (of_char c :: nat)) [0..<8]) (rev b)))
      in if uuid_bytes u = b then Some u else None)"

definition sample_wn :: wn_lib where
  "sample_wn = \<lparr>uuid_FromBytes = sample_FromBytes,
     wn_BeginRegistration = (\<lambda>u rnd. Some (JStr rnd, \<lparr>sd_UserID = wu_ID u, sd_opaque = rnd\<rparr>)),
     wn_FinishRegistration = (\<lambda>u s t r. if sd_UserID s = wu_ID u
        then Some \<lparr>wc_ID = rq_body r, wc_PublicKey = ''key'', wc_Transport = [''usb''], wc_Flags = no_flags\<lparr>cf_BackupEligible := True\<rparr>,
          wc_AAGUID = '''', wc_SignCount = 0, wc_CloneWarning = False, wc_attestation = ''''\<rparr> else None),
     wn_BeginLogin = (\<lambda>u rnd. Some (JStr rnd, \<lparr>sd_UserID = wu_ID u, sd_opaque = rnd\<rparr>)),
     wn_FinishLogin = (\<lambda>u s t r. if sd_UserID s = wu_ID u
        then find (\<lambda>c. wc_ID c = rq_body r) (wu_Credentials u) else None)\<rparr>"


lemma concat_blocks: "concat (map (\<lambda>i. map (\<lambda>j. f (k * i + j)) [0..<k]) [0..<n]) = map f [0..<n * k]"
proof (induction n)
  case (Suc n)
  have "[0..<Suc n * k] = [0..<n * k] @ map (\<lambda>i. i + n * k) [0..<k]"
    using upt_add_eq_append [of 0 "n * k" k] map_add_upt [of "n * k" k] by (simp add: add.commute)
  with Suc show ?case by (simp add: o_def ac_simps del: mult_Suc)
qed simp

lemma bit_uuid_byte:
  assumes "j < 8"
  shows "bit (of_char (char_of (unat (take_bit 8 (drop_bit (8 * i) (u :: uuid))))) :: nat) j = bit u (8 * i + j)"
proof -
  have "unat (take_bit 8 (drop_bit (8 * i) u)) mod 256 = unat (take_bit 8 (drop_bit (8 * i) u))"
    by (simp add: unat_mod take_bit_eq_mod)
  then have "of_char (char_of (unat (take_bit 8 (drop_bit (8 * i) u)))) = unat (take_bit 8 (drop_bit (8 * i) u))"
    by simp
  then show ?thesis using assms by (simp add: bit_take_bit_iff bit_drop_bit_eq bit_unsigned_iff)
qed

lemma sample_FromBytes_uuid_bytes: "sample_FromBytes (uuid_bytes u) = Some u"
proof -
  have "concat (map (\<lambda>c. map (bit (of_char c :: nat)) [0..<8]) (rev (uuid_bytes u))) =
      concat (map (\<lambda>i. map (\<lambda>j. bit u (8 * i + j)) [0..<8]) [0..<16])"
    unfolding uuid_bytes_def rev_map rev_rev_ident map_map o_def
    by (intro arg_cong [where f = concat] map_cong refl bit_uuid_byte) simp
  also have "\<dots> = map (bit u) [0..<128]" using concat_blocks [of "bit u" 8 16] by simp
  finally have "horner_sum of_bool 2 (concat (map (\<lambda>c. map (bit (of_char c :: nat)) [0..<8]) (rev (uuid_bytes u)))) = take_bit 128 u"
    by (simp only: horner_sum_bit_eq_take_bit)
  moreover have "take_bit 128 u = u" using take_bit_word_eq_self [of 128 u] by simp
  ultimately show ?thesis by (simp add: sample_FromBytes_def)
qed

lemma sample_wn_laws: "wn_laws sample_wn"
  by (auto simp: wn_laws_def sample_wn_def sample_FromBytes_uuid_bytes find_Some_iff split: if_splits)
     (auto simp: sample_FromBytes_def Let_def split: if_splits)

text \<open>User 2 with one passkey, and an answer that names it.\<close>

definition sample_passkey :: passkey_row where
  "sample_passkey = \<lparr>pk_id = 70, pk_user_id = 2, pk_credential_id = ''c1'', pk_public_key = ''key'', pk_sign_count = 4,
     pk_transports = [''usb''], pk_label = '''', pk_last_used_at = None, pk_created_at = 0\<rparr>"

definition sample_passkey_world :: world where
  "sample_passkey_world = sample_world\<lparr>db := sample_db\<lparr>passkeys := [sample_passkey]\<rparr>\<rparr>"

definition sample_ceremony :: "uuid \<Rightarrow> SessionData" where
  "sample_ceremony u = \<lparr>sd_UserID = uuid_bytes u, sd_opaque = ''''\<rparr>"

abbreviation sample_answer :: "bytes \<Rightarrow> request" where
  "sample_answer b \<equiv> sample_request 2 '''' [] b"

lemma sample_passkey_world_ok: "db_ok (db sample_passkey_world)"
  using sample_db_ok by (simp add: sample_passkey_world_def db_ok_passkeys sample_passkey_def)

lemma sample_passkey_world_simps [simp]:
  "fates sample_passkey_world = []" "clock sample_passkey_world = 100" "passkeys (db sample_passkey_world) = [sample_passkey]"
  "users (db sample_passkey_world) = users sample_db" "user_ids (db sample_passkey_world) = {1, 2, 3}"
  using sample_db_simps(4) by (simp_all add: sample_passkey_world_def user_ids_def)

lemma sample_loadUser:
  "loadUser 2 sample_passkey_world =
     (Inr \<lparr>wu_ID = uuid_bytes 2, wu_Name = ''e@x'', wu_DisplayName = ''e@x'', wu_Credentials = [credential_of sample_passkey]\<rparr>, sample_passkey_world)"
  by (simp add: loadUser_def loadCredentials_def db_call_query_Done sample_db_def sample_user_def sample_passkey_def)

lemma sample_asserted:
  "\<exists>u w'. FinishAssertion sample_wn (sample_ceremony 2) (sample_answer ''c1'') sample_passkey_world = (Inr u, w')"
  by (simp add: FinishAssertion_def sample_wn_def sample_ceremony_def sample_FromBytes_uuid_bytes sample_loadUser
      db_call_Done update_passkey_def credential_of_def sample_passkey_def)

lemma sample_registered:
  "\<exists>w'. FinishRegistration sample_wn 71 2 (sample_ceremony 2) (sample_answer ''c2'') sample_passkey_world = (Inr (), w')"
  by (simp add: FinishRegistration_def sample_wn_def sample_ceremony_def sample_loadUser Let_def hex_decode_encode
      db_call_Done insert_passkey_def sample_passkey_def)

section \<open>Properties\<close>

lemma FinishAssertion_Inr:
  assumes "FinishAssertion W s r w = (Inr u, w')"
  obtains i c w1 where "uuid_FromBytes W (sd_UserID s) = Some i" "quiet w w1" "loadUser i w = (Inr u, w1)"
    "wn_FinishLogin W u s (clock w) r = Some c" "db_call (update_passkey (wc_SignCount c) (clock w) (wc_ID c)) w1 = (Inr (), w')"
proof -
  obtain i where i: "uuid_FromBytes W (sd_UserID s) = Some i" using assms by (auto simp: FinishAssertion_def split: option.splits)
  obtain x w1 where l: "loadUser i w = (x, w1)" by fastforce
  note q = loadUser_quiet [OF l]
  obtain c where "x = Inr u" "wn_FinishLogin W u s (clock w) r = Some c"
      "db_call (update_passkey (wc_SignCount c) (clock w) (wc_ID c)) w1 = (Inr (), w')"
    using assms i l quietD(5)[OF q] by (auto simp: FinishAssertion_def split: option.splits sum.splits prod.splits)
  with that [OF i q] l show thesis by simp
qed

lemma db_call_clock: "db_call st w = (x, w') \<Longrightarrow> clock w' = clock w"
  using db_call_frame(4)[of st w] by simp

lemma FinishAssertion_clock: "FinishAssertion W s r w = (x, w') \<Longrightarrow> clock w' = clock w"
  by (auto simp: FinishAssertion_def split: option.splits sum.splits prod.splits dest!: loadUser_quiet quietD(5) db_call_clock)

lemma FinishAssertion_sound_aux:
  assumes "wn_laws W" and "db_ok (db w)" and "FinishAssertion W s r w = (Inr u, w')"
  shows "\<exists>i p c. wu_ID u = uuid_bytes i \<and> sd_UserID s = uuid_bytes i \<and> active_user (db w) i \<and>
    wu_Credentials u = map credential_of (filter (\<lambda>p. pk_user_id p = i) (passkeys (db w))) \<and>
    wn_FinishLogin W u s (clock w) r = Some c \<and>
    p \<in> set (passkeys (db w)) \<and> pk_user_id p = i \<and> pk_credential_id p = wc_ID c \<and>
    db w' = (db w)\<lparr>passkeys := update_where (\<lambda>q. pk_id q = pk_id p)
       (\<lambda>q. q\<lparr>pk_sign_count := wc_SignCount c, pk_last_used_at := Some (clock w)\<rparr>) (passkeys (db w))\<rparr>"
  using assms(3)
proof (cases rule: FinishAssertion_Inr)
  case (1 i c w1)
  note load = loadUser_Inr [OF 1(3)]
  obtain p where p: "p \<in> set (passkeys (db w))" "pk_user_id p = i" "pk_credential_id p = wc_ID c"
    using wn_lawsD(7)[OF assms(1) 1(4)] load(3) by (auto simp: credential_of_def)
  have same: "(pk_credential_id q = wc_ID c) = (pk_id q = pk_id p)" if "q \<in> set (passkeys (db w))" for q
    using that p db_ok_passkeysD(1,2)[OF assms(2)] unfolding unique_on_def distinct_map inj_on_def by metis
  then have "update_where (\<lambda>q. pk_credential_id q = wc_ID c) f (passkeys (db w)) =
      update_where (\<lambda>q. pk_id q = pk_id p) f (passkeys (db w))" for f
    unfolding update_where_def by (intro map_cong) auto
  then have "db w' = (db w)\<lparr>passkeys := update_where (\<lambda>q. pk_id q = pk_id p)
       (\<lambda>q. q\<lparr>pk_sign_count := wc_SignCount c, pk_last_used_at := Some (clock w)\<rparr>) (passkeys (db w))\<rparr>"
    using db_call_Inr [OF 1(5)] quietD(1)[OF 1(2)] by (simp add: update_passkey_def)
  with wn_lawsD(2)[OF assms(1) 1(1)] load p 1(4) show ?thesis by blast
qed

text \<open>C24. An assertion is sound: when \<open>FinishAssertion\<close> names a user, that user is the one the ceremony was begun for, it exists and is active, and the library's
  \<open>FinishLogin\<close>, given this user with exactly its own passkeys, this ceremony, the time and this request, has verified one of them; in the database only the row of that passkey has
  changed, in its counter, which is now the one the library reported, and its time of use.\<close>

theorem FinishAssertion_sound:
  assumes "wn_laws W" and "db_ok (db w)" and "FinishAssertion W s r w = (Inr u, w')"
  shows "\<exists>i p c. wu_ID u = uuid_bytes i \<and> sd_UserID s = uuid_bytes i \<and> active_user (db w) i \<and>
    wu_Credentials u = map credential_of (filter (\<lambda>p. pk_user_id p = i) (passkeys (db w))) \<and>
    wn_FinishLogin W u s (clock w) r = Some c \<and>
    p \<in> set (passkeys (db w)) \<and> pk_user_id p = i \<and> pk_credential_id p = wc_ID c \<and>
    db w' = (db w)\<lparr>passkeys := update_where (\<lambda>q. pk_id q = pk_id p)
       (\<lambda>q. q\<lparr>pk_sign_count := wc_SignCount c, pk_last_used_at := Some (clock w)\<rparr>) (passkeys (db w))\<rparr>"
  by (rule FinishAssertion_sound_aux [OF assms])

theorem FinishAssertion_sound_witness:
  "\<exists>u w'. FinishAssertion sample_wn (sample_ceremony 2) (sample_answer ''c1'') sample_passkey_world = (Inr u, w') \<and>
     map pk_last_used_at (passkeys (db w')) = [Some 100]"
proof -
  obtain u w' where run: "FinishAssertion sample_wn (sample_ceremony 2) (sample_answer ''c1'') sample_passkey_world = (Inr u, w')"
    using sample_asserted by blast
  from FinishAssertion_sound [OF sample_wn_laws sample_passkey_world_ok run] run show ?thesis by auto
qed

text \<open>C25. What a registration keeps of a credential: when \<open>FinishRegistration\<close> succeeds, the user is active and is the one of the ceremony, and the database has
  exactly one more passkey, of this user. The credential that \<open>loadCredentials\<close> will rebuild from it agrees with the one the library verified in its identifier, its key (which survives the
  hexadecimal detour), its transports and its counter, and in nothing else: flags, AAGUID and attestation are not stored and come back empty, so that a passkey that is
  eligible for backup is presented to the library as one that is not (the loss that issue 0011 asks about). No other row has changed.\<close>

theorem FinishRegistration_adds:
  assumes "wn_laws W" and "FinishRegistration W newID i s r w = (Inr (), w')"
  shows "active_user (db w) i \<and> sd_UserID s = uuid_bytes i \<and>
    (\<exists>u c p. wn_FinishRegistration W u s (clock w) r = Some c \<and> pk_user_id p = i \<and>
       credential_of p = c\<lparr>wc_Flags := no_flags, wc_AAGUID := '''', wc_CloneWarning := False, wc_attestation := ''''\<rparr> \<and>
       pk_credential_id p \<notin> pk_credential_id ` set (passkeys (db w)) \<and>
       db w' = (db w)\<lparr>passkeys := passkeys (db w) @ [p]\<rparr>)"
proof -
  obtain x w1 where l: "loadUser i w = (x, w1)" by fastforce
  note q = quietD [OF loadUser_quiet [OF l]]
  obtain u where x: "x = Inr u" using assms(2) l by (cases x) (auto simp: FinishRegistration_def)
  obtain c where c: "wn_FinishRegistration W u s (clock w) r = Some c"
    and call: "db_call (insert_passkey newID i (wc_ID c) (hex_EncodeToString (wc_PublicKey c)) (wc_SignCount c) (wc_Transport c) '''') w1 = (Inr (), w')"
    using assms(2) l x q(5) by (auto simp: FinishRegistration_def Let_def split: option.splits prod.splits sum.splits)
  let ?p = "\<lparr>pk_id = newID, pk_user_id = i, pk_credential_id = wc_ID c, pk_public_key = wc_PublicKey c, pk_sign_count = wc_SignCount c,
    pk_transports = wc_Transport c, pk_label = '''', pk_last_used_at = None, pk_created_at = clock w1\<rparr>"
  have "credential_of ?p = c\<lparr>wc_Flags := no_flags, wc_AAGUID := '''', wc_CloneWarning := False, wc_attestation := ''''\<rparr>"
    by (intro Credential.equality) (simp_all add: credential_of_def)
  moreover from db_call_Inr [OF call] q(1) have "pk_user_id ?p = i \<and>
       pk_credential_id ?p \<notin> pk_credential_id ` set (passkeys (db w)) \<and> db w' = (db w)\<lparr>passkeys := passkeys (db w) @ [?p]\<rparr>"
    by (auto simp: insert_passkey_def hex_decode_encode split: if_splits)
  ultimately show ?thesis using c wn_lawsD(5)[OF assms(1) c] loadUser_Inr(1,2)[OF l [unfolded x]] by metis
qed

theorem FinishRegistration_adds_witness:
  "\<exists>w'. FinishRegistration sample_wn 71 2 (sample_ceremony 2) (sample_answer ''c2'') sample_passkey_world = (Inr (), w') \<and>
     length (passkeys (db w')) = 2"
proof -
  obtain w' where run: "FinishRegistration sample_wn 71 2 (sample_ceremony 2) (sample_answer ''c2'') sample_passkey_world = (Inr (), w')"
    using sample_registered by blast
  from FinishRegistration_adds [OF sample_wn_laws run] run show ?thesis by auto
qed

text \<open>What the library does with the flag of eligibility for backup, which is fixed for the life of a passkey: a login is refused when the answer's flag (\<open>be\<close>) differs from that of the credential it was given.\<close>

definition backup_checked :: "wn_lib \<Rightarrow> (request \<Rightarrow> bool) \<Rightarrow> bool" where
  "backup_checked W be \<longleftrightarrow>
     (\<forall>u s t r c. wn_FinishLogin W u s t r = Some c \<longrightarrow>
        (\<forall>k \<in> set (wu_Credentials u). wc_ID k = wc_ID c \<longrightarrow> cf_BackupEligible (wc_Flags k) = be r))"

text \<open>C40. A passkey that is eligible for backup never logs in: with a library that checks the flag, an answer that carries it is refused whatever the state, because no stored passkey comes back with it. Nothing
  has changed then.\<close>

theorem eligible_passkey_never_logs_in:
  assumes "wn_laws W" and "backup_checked W be" and "be r" and "FinishAssertion W s r w = (x, w')"
  shows "(\<exists>e. x = Inl e) \<and> db w' = db w"
proof (cases "uuid_FromBytes W (sd_UserID s)")
  case None
  then show ?thesis using assms(4) by (auto simp: FinishAssertion_def)
next
  case (Some i)
  obtain y w1 where l: "loadUser i w = (y, w1)" by fastforce
  note q = quietD(1)[OF loadUser_quiet [OF l]]
  show ?thesis
  proof (cases y)
    case (Inl e)
    then show ?thesis using assms(4) Some l q by (auto simp: FinishAssertion_def)
  next
    case (Inr u)
    have "wn_FinishLogin W u s (clock w1) r = None"
    proof (rule ccontr)
      assume "wn_FinishLogin W u s (clock w1) r \<noteq> None"
      then obtain c where c: "wn_FinishLogin W u s (clock w1) r = Some c" by blast
      then obtain k where k: "k \<in> set (wu_Credentials u)" "wc_ID k = wc_ID c" using wn_lawsD(7)[OF assms(1)] by force
      then have "cf_BackupEligible (wc_Flags k)" using assms(2,3) c unfolding backup_checked_def by blast
      moreover have "wc_Flags k = no_flags" using k(1) loadUser_Inr(3)[OF l [unfolded Inr]] by (auto simp: credential_of_def)
      ultimately show False by (simp add: no_flags_def)
    qed
    then show ?thesis using assms(4) Some l Inr q by (auto simp: FinishAssertion_def)
  qed
qed

text \<open>The sample library with the check; the flag of an answer is one of its headers.\<close>

definition checking_wn :: wn_lib where
  "checking_wn = sample_wn\<lparr>wn_FinishLogin := (\<lambda>u s t r. if sd_UserID s = wu_ID u
     then find (\<lambda>c. wc_ID c = rq_body r \<and> (\<forall>k \<in> set (wu_Credentials u). wc_ID k = wc_ID c \<longrightarrow>
       cf_BackupEligible (wc_Flags k) = (rq_header r ''BE'' = ''1''))) (wu_Credentials u) else None)\<rparr>"

lemma checking_wn_laws: "wn_laws checking_wn" "backup_checked checking_wn (\<lambda>r. rq_header r ''BE'' = ''1'')"
proof -
  show "wn_laws checking_wn"
    using sample_wn_laws unfolding wn_laws_def checking_wn_def by (auto simp: find_Some_iff split: if_splits)
  show "backup_checked checking_wn (\<lambda>r. rq_header r ''BE'' = ''1'')"
    unfolding backup_checked_def checking_wn_def by (auto simp: find_Some_iff split: if_splits)
qed

lemma checking_accepts: "\<exists>u w'. FinishAssertion checking_wn (sample_ceremony 2) (sample_answer ''c1'') sample_passkey_world = (Inr u, w')"
  by (simp add: FinishAssertion_def checking_wn_def sample_wn_def sample_ceremony_def sample_FromBytes_uuid_bytes sample_loadUser
      db_call_Done update_passkey_def credential_of_def sample_passkey_def no_flags_def)

theorem eligible_passkey_never_logs_in_witness:
  "(\<exists>u w'. FinishAssertion checking_wn (sample_ceremony 2) (sample_answer ''c1'') sample_passkey_world = (Inr u, w')) \<and>
   (\<exists>e w'. FinishAssertion checking_wn (sample_ceremony 2) (sample_request 2 '''' [(''BE'', ''1'')] ''c1'') sample_passkey_world = (Inl e, w'))"
proof -
  obtain x w' where run: "FinishAssertion checking_wn (sample_ceremony 2) (sample_request 2 '''' [(''BE'', ''1'')] ''c1'') sample_passkey_world = (x, w')"
    by fastforce
  from eligible_passkey_never_logs_in [OF checking_wn_laws _ run] run checking_accepts show ?thesis by auto
qed

end
