(* ===== verification/Admin_Console.thy ===== *)
theory Admin_Console
  imports Webauthn
begin

text \<open>
  The admin console, \<^verbatim>\<open>internal/admin/admin.go\<close>: one definition per handler, with the statements of \<open>Admin_Queries\<close>, the
  ceremonies of \<open>Webauthn\<close> and the sessions and invites of \<open>Sessions\<close>.

  The state of the console is the database of the world and the map \<open>waSessions\<close> from nonces to the ceremonies under way, which only the
  public handlers (login and enrollment) use. What a handler draws from outside is the record \<open>draws\<close>: the keys the database
  gives to new rows, the fresh identifier of an invite, the bytes of a nonce, of a session token and of the library's challenge.

  An answer is a status, the address handed to \<open>http.Redirect\<close>, the cookies set and a body; a page is the name of its template with the
  data handed to it (the HTML that the templates make of it is not modelled).
\<close>

section \<open>Answers\<close>

record cookie =
  ck_Name :: string
  ck_Value :: string
  ck_Path :: string
  ck_HttpOnly :: bool
  ck_Secure :: bool
  ck_SameSiteStrict :: bool
  ck_MaxAge :: int

datatype admin_page =
    LoginPage string
  | EnrollPage string json string
  | DashboardPage nat nat "AuditRow list"
  | UsersPage "UserRow list" string string
  | UserPage UserDetail
  | ProjectsPage "project_row list" string
  | ProjectPage project_row string
  | MembersPage project_row "MemberRow list" string
  | FilesPage project_row "file_row list"
  | AuditPage "AuditRow list" int int int AuditFilter
  | SessionsPage "SessionRow list"
  | DevicesPage "PasskeyRow list" string

datatype admin_body = NoBody | ErrorText string | JsonValue json | HtmlPage admin_page

record admin_response =
  as_status :: nat
  as_redirect :: "string option"
  as_cookies :: "cookie list"
  as_body :: admin_body

definition render :: "admin_page \<Rightarrow> admin_response" where
  "render p = \<lparr>as_status = 200, as_redirect = None, as_cookies = [], as_body = HtmlPage p\<rparr>"

definition http_Redirect :: "string \<Rightarrow> nat \<Rightarrow> admin_response" where
  "http_Redirect url code = \<lparr>as_status = code, as_redirect = Some url, as_cookies = [], as_body = NoBody\<rparr>"

definition http_Error :: "string \<Rightarrow> nat \<Rightarrow> admin_response" where
  "http_Error msg code = \<lparr>as_status = code, as_redirect = None, as_cookies = [], as_body = ErrorText msg\<rparr>"

definition http_NotFound :: admin_response where
  "http_NotFound = http_Error ''404 page not found'' 404"

definition writeJSONError :: "string \<Rightarrow> nat \<Rightarrow> admin_response" where
  "writeJSONError msg code =
     \<lparr>as_status = code, as_redirect = None, as_cookies = [], as_body = JsonValue (JObj [(''error'', JStr msg)])\<rparr>"

definition json_answer :: "cookie list \<Rightarrow> json \<Rightarrow> admin_response" where
  "json_answer cks j = \<lparr>as_status = 200, as_redirect = None, as_cookies = cks, as_body = JsonValue j\<rparr>"

definition strict_cookie :: "string \<Rightarrow> string \<Rightarrow> string \<Rightarrow> int \<Rightarrow> cookie" where
  "strict_cookie name val path maxAge = \<lparr>ck_Name = name, ck_Value = val, ck_Path = path, ck_HttpOnly = True, ck_Secure = True,
     ck_SameSiteStrict = True, ck_MaxAge = maxAge\<rparr>"

definition setSessionCookie :: "string \<Rightarrow> cookie" where
  "setSessionCookie val = strict_cookie ''issued_session'' val ''/'' (7 * 24 * 3600)"

definition clearSessionCookie :: cookie where
  "clearSessionCookie = strict_cookie ''issued_session'' '''' ''/'' (-1)"

section \<open>Helpers\<close>

record draws =
  dr_key :: uuid
  dr_jti :: uuid
  dr_passkey :: uuid
  dr_challenge :: bytes
  dr_nonce :: bytes
  dr_token :: "bytes option"

type_synonym ceremonies = "string \<rightharpoonup> SessionData"

definition currentUserID :: "lib \<Rightarrow> request \<Rightarrow> uuid option" where
  "currentUserID L r = (case rq_user r of None \<Rightarrow> None | Some s \<Rightarrow> uuid_Parse L s)"

text \<open>\<^verbatim>\<open>adminID, _ := currentUserID(ctx)\<close>: \<open>uuid.Nil\<close> when there is none.\<close>

definition or_nil :: "uuid option \<Rightarrow> uuid" where
  "or_nil u = (case u of None \<Rightarrow> 0 | Some i \<Rightarrow> i)"

text \<open>A result whose error is only logged: the zero value of its type takes its place.\<close>

definition or_zero :: "'a \<Rightarrow> err + 'a \<Rightarrow> 'a" where
  "or_zero z x = (case x of Inl _ \<Rightarrow> z | Inr a \<Rightarrow> a)"

definition randHex :: "bytes \<Rightarrow> string" where
  "randHex b = hex_EncodeToString b"

definition storeWASession :: "string \<Rightarrow> SessionData \<Rightarrow> ceremonies \<Rightarrow> ceremonies" where
  "storeWASession nonce sess wa = wa(nonce \<mapsto> sess)"

definition popWASession :: "string \<Rightarrow> ceremonies \<Rightarrow> SessionData option \<times> ceremonies" where
  "popWASession nonce wa = (case wa nonce of None \<Rightarrow> (None, wa) | Some s \<Rightarrow> (Some s, wa(nonce := None)))"

text \<open>\<open>strconv.Atoi\<close> with its error dropped: 0 for what is not a number, the nearest \<open>int\<close> for one that is out of range.\<close>

definition Atoi_or_clip :: "string \<Rightarrow> int" where
  "Atoi_or_clip s =
     (let neg = (s \<noteq> [] \<and> hd s = CHR ''-'');
          rest = (if s \<noteq> [] \<and> (hd s = CHR ''-'' \<or> hd s = CHR ''+'') then tl s else s)
      in case ParseUint10 rest of
           None \<Rightarrow> 0
         | Some n \<Rightarrow> if neg then - (min n (2 ^ 63)) else min n (2 ^ 63 - 1))"

section \<open>Login and enrollment\<close>

definition getLogin :: "request \<Rightarrow> world \<Rightarrow> admin_response \<times> world" where
  "getLogin r w = (render (LoginPage (rq_query r ''error'')), w)"

definition dec_loginRequest :: "json \<Rightarrow> string option" where
  "dec_loginRequest j = (case j of JObj kvs \<Rightarrow> dec_string ''email'' kvs | JNull \<Rightarrow> Some '''' | _ \<Rightarrow> None)"

definition postLogin ::
  "lib \<Rightarrow> wn_lib \<Rightarrow> draws \<Rightarrow> request \<Rightarrow> ceremonies \<Rightarrow> world \<Rightarrow> admin_response \<times> ceremonies \<times> world" where
  "postLogin L W g r wa w =
     (case Option.bind (json_tokenise L (rq_body r)) dec_loginRequest of
        None \<Rightarrow> (writeJSONError ''invalid request'' 400, wa, w)
      | Some email \<Rightarrow>
     (case BeginAssertion W (dr_challenge g) (TrimSpace email) w of
        (Inl _, w1) \<Rightarrow> (writeJSONError ''authentication failed'' 401, wa, w1)
      | (Inr (opts, sess), w1) \<Rightarrow>
     let nonce = randHex (dr_nonce g) in
     (json_answer [strict_cookie ''wauthn_nonce'' nonce ''/admin'' 300] opts, storeWASession nonce sess wa, w1)))"

definition postLoginComplete ::
  "wn_lib \<Rightarrow> draws \<Rightarrow> request \<Rightarrow> ceremonies \<Rightarrow> world \<Rightarrow> admin_response \<times> ceremonies \<times> world" where
  "postLoginComplete W g r wa w =
     (case rq_cookie r ''wauthn_nonce'' of
        None \<Rightarrow> (writeJSONError ''missing nonce cookie'' 400, wa, w)
      | Some nonce \<Rightarrow>
     (case popWASession nonce wa of
        (None, wa) \<Rightarrow> (writeJSONError ''session expired'' 400, wa, w)
      | (Some sess, wa) \<Rightarrow>
     (case FinishAssertion W sess r w of
        (Inl _, w) \<Rightarrow> (writeJSONError ''authentication failed'' 401, wa, w)
      | (Inr user, w) \<Rightarrow>
     (case uuid_FromBytes W (wu_ID user) of
        None \<Rightarrow> (writeJSONError ''invalid user id'' 500, wa, w)
      | Some userUUID \<Rightarrow>
     (case IssueWebSession (dr_token g) (dr_key g) userUUID w of
        (Inl _, w) \<Rightarrow> (writeJSONError ''server error'' 500, wa, w)
      | (Inr sessionToken, w) \<Rightarrow>
          (json_answer [setSessionCookie sessionToken] (JObj [(''redirect'', JStr ''/admin'')]), wa, w))))))"

text \<open>The INSERT of \<open>ensureUser\<close> uses the parameter \<open>$2\<close> for \<open>email\<close> (\<open>citext\<close>) and for \<open>display_name\<close> (\<open>text\<close>).\<close>

definition insert_invited :: "lib \<Rightarrow> uuid \<Rightarrow> string \<Rightarrow> string \<Rightarrow> unit stmt" where
  "insert_invited L newID email role t d =
     (if \<not> one_param_two_types L ''citext'' ''text'' then (Inl ErrIO, d)
      else if role \<notin> {''admin'', ''member''} then (Inl ErrConstraint, d)
      else if \<exists>u \<in> set (users d). EqualFold (u_email u) email
      then (Inr (), d\<lparr>users := update_where (\<lambda>u. EqualFold (u_email u) email)
             (\<lambda>u. u\<lparr>u_status := ''active'', u_global_role := role\<rparr>) (users d)\<rparr>)
      else if newID \<in> user_ids d then (Inl ErrConstraint, d)
      else (Inr (), d\<lparr>users := users d @
             [\<lparr>u_id = newID, u_email = email, u_display_name = email, u_global_role = role, u_status = ''active'',
               u_created_at = t, u_updated_at = t\<rparr>]\<rparr>))"

definition user_by_email :: "string \<Rightarrow> world \<Rightarrow> (err + uuid) \<times> world" where
  "user_by_email email = db_call (query (\<lambda>d. one_row (map_option u_id (find (\<lambda>u. EqualFold (u_email u) email) (users d)))))"

text \<open>The loop over the projects of the invite; errors of the single insertions are dropped.\<close>

definition add_memberships :: "lib \<Rightarrow> uuid \<Rightarrow> string list \<Rightarrow> world \<Rightarrow> world" where
  "add_memberships L i projectIDs w =
     fold (\<lambda>pidStr w. case uuid_Parse L pidStr of None \<Rightarrow> w | Some pid \<Rightarrow> snd (AddProjectMember pid i ''editor'' w)) projectIDs w"

definition ensureUser :: "lib \<Rightarrow> uuid \<Rightarrow> string \<Rightarrow> string \<Rightarrow> string list \<Rightarrow> world \<Rightarrow> (err + uuid) \<times> world" where
  "ensureUser L newID email role projectIDs w =
     (case user_by_email email w of
        (Inr i, w) \<Rightarrow> (Inr i, add_memberships L i projectIDs w)
      | (Inl _, w) \<Rightarrow>
     (case db_call (insert_invited L newID email role) w of
        (Inl e, w) \<Rightarrow> (Inl e, w)
      | (Inr _, w) \<Rightarrow>
     (case user_by_email email w of
        (Inl _, w) \<Rightarrow> (Inr newID, add_memberships L newID projectIDs w)
      | (Inr i, w) \<Rightarrow> (Inr i, add_memberships L i projectIDs w))))"

definition getEnroll ::
  "lib \<Rightarrow> wn_lib \<Rightarrow> bytes \<Rightarrow> draws \<Rightarrow> request \<Rightarrow> ceremonies \<Rightarrow> world \<Rightarrow> admin_response \<times> ceremonies \<times> world" where
  "getEnroll L W inviteKey g r wa w =
     (let token = rq_path r ''token'' in
      case RedeemInviteToken L token inviteKey w of
        (Inl _, w) \<Rightarrow> (http_Error ''invalid or expired invite token'' 400, wa, w)
      | (Inr claims, w) \<Rightarrow>
     (case ensureUser L (dr_key g) (inv_Email claims) (inv_Role claims) (inv_ProjectIDs claims) w of
        (Inl _, w) \<Rightarrow> (http_Error ''server error'' 500, wa, w)
      | (Inr userID, w) \<Rightarrow>
     (case BeginRegistration W (dr_challenge g) userID w of
        (Inl _, w) \<Rightarrow> (http_Error ''server error'' 500, wa, w)
      | (Inr (opts, sess), w) \<Rightarrow>
     let nonce = randHex (dr_nonce g) in
     ((render (EnrollPage (inv_Email claims) opts token))\<lparr>as_cookies :=
         [strict_cookie ''wauthn_nonce'' nonce ''/admin'' 300, strict_cookie ''wauthn_uid'' (uuid_String L userID) ''/admin'' 300]\<rparr>,
      storeWASession nonce sess wa, w))))"

definition postEnroll ::
  "lib \<Rightarrow> wn_lib \<Rightarrow> draws \<Rightarrow> request \<Rightarrow> ceremonies \<Rightarrow> world \<Rightarrow> admin_response \<times> ceremonies \<times> world" where
  "postEnroll L W g r wa w =
     (case rq_cookie r ''wauthn_nonce'' of
        None \<Rightarrow> (writeJSONError ''missing nonce cookie'' 400, wa, w)
      | Some nonce \<Rightarrow>
     (case rq_cookie r ''wauthn_uid'' of
        None \<Rightarrow> (writeJSONError ''missing uid cookie'' 400, wa, w)
      | Some uid \<Rightarrow>
     (case popWASession nonce wa of
        (None, wa) \<Rightarrow> (writeJSONError ''session expired'' 400, wa, w)
      | (Some sess, wa) \<Rightarrow>
     (case uuid_Parse L uid of
        None \<Rightarrow> (writeJSONError ''invalid uid'' 400, wa, w)
      | Some userID \<Rightarrow>
     (case FinishRegistration W (dr_passkey g) userID sess r w of
        (Inl _, w) \<Rightarrow> (writeJSONError ''registration failed'' 400, wa, w)
      | (Inr _, w) \<Rightarrow>
     (case IssueWebSession (dr_token g) (dr_key g) userID w of
        (Inl _, w) \<Rightarrow> (writeJSONError ''server error'' 500, wa, w)
      | (Inr sessionToken, w) \<Rightarrow>
          (json_answer [setSessionCookie sessionToken] (JObj [(''redirect'', JStr ''/admin'')]), wa, w)))))))"

section \<open>Dashboard and users\<close>

definition getDashboard :: "lib \<Rightarrow> request \<Rightarrow> world \<Rightarrow> admin_response \<times> world" where
  "getDashboard L r w =
     (case ProjectCount w of (projectCount, w) \<Rightarrow>
      case UserCount w of (userCount, w) \<Rightarrow>
      case RecentActivity L 20 w of (activity, w) \<Rightarrow>
      (render (DashboardPage (or_zero 0 projectCount) (or_zero 0 userCount) (or_zero [] activity)), w))"

definition getUsers :: "lib \<Rightarrow> request \<Rightarrow> world \<Rightarrow> admin_response \<times> world" where
  "getUsers L r w =
     (case AllUsers L w of (us, w) \<Rightarrow> (render (UsersPage (or_zero [] us) (rq_query r ''error'') (rq_query r ''success'')), w))"

definition postUsersInvite :: "lib \<Rightarrow> bytes \<Rightarrow> draws \<Rightarrow> request \<Rightarrow> world \<Rightarrow> admin_response \<times> world" where
  "postUsersInvite L inviteKey g r w =
     (if \<not> rq_form_ok r then (http_Redirect ''/admin/users?error=bad+request'' 303, w)
      else
      let email = TrimSpace (rq_form r ''email'');
          role = (if rq_form r ''role'' = '''' then ''member'' else rq_form r ''role'');
          adminID = or_nil (currentUserID L r) in
      case MintInviteToken L (dr_jti g) (dr_key g) adminID email role [] inviteKey w of
        (Inl _, w) \<Rightarrow> (http_Redirect ''/admin/users?error=failed+to+create+invite'' 303, w)
      | (Inr token, w) \<Rightarrow> (http_Redirect (''/admin/users?success=invite+sent+to+'' @ email) 303, w))"

definition getUserDetail :: "lib \<Rightarrow> request \<Rightarrow> world \<Rightarrow> admin_response \<times> world" where
  "getUserDetail L r w =
     (case uuid_Parse L (rq_path r ''id'') of
        None \<Rightarrow> (http_NotFound, w)
      | Some i \<Rightarrow>
     (case UserWithPasskeysAndSessions i w of
        (Inl _, w) \<Rightarrow> (http_NotFound, w)
      | (Inr detail, w) \<Rightarrow> (render (UserPage detail), w)))"

definition postUserDeactivate :: "lib \<Rightarrow> request \<Rightarrow> world \<Rightarrow> admin_response \<times> world" where
  "postUserDeactivate L r w =
     (case uuid_Parse L (rq_path r ''id'') of
        None \<Rightarrow> (http_NotFound, w)
      | Some i \<Rightarrow> (case DeactivateUser i w of (_, w) \<Rightarrow> (http_Redirect (''/admin/users/'' @ uuid_String L i) 303, w)))"

definition postUserSessionRevoke :: "lib \<Rightarrow> request \<Rightarrow> world \<Rightarrow> admin_response \<times> world" where
  "postUserSessionRevoke L r w =
     (case uuid_Parse L (rq_path r ''id'') of
        None \<Rightarrow> (http_NotFound, w)
      | Some userID \<Rightarrow>
     (case uuid_Parse L (rq_path r ''sid'') of
        None \<Rightarrow> (http_NotFound, w)
      | Some sid \<Rightarrow> (case RevokeSession sid w of (_, w) \<Rightarrow> (http_Redirect (''/admin/users/'' @ uuid_String L userID) 303, w))))"

section \<open>Projects and members\<close>

definition getProjects :: "lib \<Rightarrow> request \<Rightarrow> world \<Rightarrow> admin_response \<times> world" where
  "getProjects L r w = (case AllProjects L w of (ps, w) \<Rightarrow> (render (ProjectsPage (or_zero [] ps) (rq_query r ''error'')), w))"

definition postProjects :: "lib \<Rightarrow> draws \<Rightarrow> request \<Rightarrow> world \<Rightarrow> admin_response \<times> world" where
  "postProjects L g r w =
     (if \<not> rq_form_ok r then (http_Redirect ''/admin/projects?error=bad+request'' 303, w)
      else
      let slug = TrimSpace (rq_form r ''slug'');
          displayName = TrimSpace (rq_form r ''display_name'');
          repoURL = TrimSpace (rq_form r ''repo_url'');
          adminID = or_nil (currentUserID L r) in
      case CreateProject (dr_key g) slug displayName repoURL adminID w of
        (Inl _, w) \<Rightarrow> (http_Redirect ''/admin/projects?error=failed+to+create+project'' 303, w)
      | (Inr _, w) \<Rightarrow> (http_Redirect (''/admin/projects/'' @ slug) 303, w))"

definition getProject :: "request \<Rightarrow> world \<Rightarrow> admin_response \<times> world" where
  "getProject r w =
     (case ProjectBySlug (rq_path r ''slug'') w of
        (Inl _, w) \<Rightarrow> (http_NotFound, w)
      | (Inr project, w) \<Rightarrow> (render (ProjectPage project (rq_query r ''error'')), w))"

definition postProject :: "request \<Rightarrow> world \<Rightarrow> admin_response \<times> world" where
  "postProject r w =
     (let slug = rq_path r ''slug'' in
      if \<not> rq_form_ok r then (http_Redirect (''/admin/projects/'' @ slug @ ''?error=bad+request'') 303, w)
      else
      case ProjectBySlug slug w of
        (Inl _, w) \<Rightarrow> (http_NotFound, w)
      | (Inr project, w) \<Rightarrow>
     let displayName = TrimSpace (rq_form r ''display_name'');
         repoURL = TrimSpace (rq_form r ''repo_url'') in
     (case UpdateProject (p_id project) displayName repoURL w of
        (Inl _, w) \<Rightarrow> (http_Redirect (''/admin/projects/'' @ slug @ ''?error=update+failed'') 303, w)
      | (Inr _, w) \<Rightarrow> (http_Redirect (''/admin/projects/'' @ slug) 303, w)))"

definition postProjectArchive :: "request \<Rightarrow> world \<Rightarrow> admin_response \<times> world" where
  "postProjectArchive r w =
     (case ProjectBySlug (rq_path r ''slug'') w of
        (Inl _, w) \<Rightarrow> (http_NotFound, w)
      | (Inr project, w) \<Rightarrow>
          (case ArchiveProject (p_id project) w of (_, w) \<Rightarrow> (http_Redirect ''/admin/projects'' 303, w)))"

definition getMembers :: "lib \<Rightarrow> request \<Rightarrow> world \<Rightarrow> admin_response \<times> world" where
  "getMembers L r w =
     (case ProjectBySlug (rq_path r ''slug'') w of
        (Inl _, w) \<Rightarrow> (http_NotFound, w)
      | (Inr project, w) \<Rightarrow>
          (case ProjectMembers L (p_id project) w of
             (ms, w) \<Rightarrow> (render (MembersPage project (or_zero [] ms) (rq_query r ''error'')), w)))"

definition members_url :: "string \<Rightarrow> string" where
  "members_url slug = ''/admin/projects/'' @ slug @ ''/members''"

definition postMembers :: "lib \<Rightarrow> request \<Rightarrow> world \<Rightarrow> admin_response \<times> world" where
  "postMembers L r w =
     (let slug = rq_path r ''slug'' in
      if \<not> rq_form_ok r then (http_Redirect (members_url slug @ ''?error=bad+request'') 303, w)
      else
      case ProjectBySlug slug w of
        (Inl _, w) \<Rightarrow> (http_NotFound, w)
      | (Inr project, w) \<Rightarrow>
     (case uuid_Parse L (rq_form r ''user_id'') of
        None \<Rightarrow> (http_Redirect (members_url slug @ ''?error=invalid+user+id'') 303, w)
      | Some userID \<Rightarrow>
     let role = (if rq_form r ''role'' = '''' then ''editor'' else rq_form r ''role'') in
     (case AddProjectMember (p_id project) userID role w of
        (Inl _, w) \<Rightarrow> (http_Redirect (members_url slug @ ''?error=add+failed'') 303, w)
      | (Inr _, w) \<Rightarrow> (http_Redirect (members_url slug) 303, w))))"

definition revoke_access :: "string \<Rightarrow> string \<Rightarrow> world \<Rightarrow> world" where
  "revoke_access pid uid w =
     (case the_hub w of None \<Rightarrow> w | Some h \<Rightarrow> w\<lparr>the_hub := Some (BroadcastAccessRevoked h pid uid)\<rparr>)"

definition postMemberRemove :: "lib \<Rightarrow> request \<Rightarrow> world \<Rightarrow> admin_response \<times> world" where
  "postMemberRemove L r w =
     (let slug = rq_path r ''slug'' in
      case uuid_Parse L (rq_path r ''uid'') of
        None \<Rightarrow> (http_NotFound, w)
      | Some uid \<Rightarrow>
     (case ProjectBySlug slug w of
        (Inl _, w) \<Rightarrow> (http_NotFound, w)
      | (Inr project, w) \<Rightarrow>
     (case RemoveProjectMember (p_id project) uid w of (_, w) \<Rightarrow>
      (http_Redirect (members_url slug) 303, revoke_access (uuid_String L (p_id project)) (uuid_String L uid) w))))"

definition postMemberRole :: "lib \<Rightarrow> request \<Rightarrow> world \<Rightarrow> admin_response \<times> world" where
  "postMemberRole L r w =
     (let slug = rq_path r ''slug'' in
      case uuid_Parse L (rq_path r ''uid'') of
        None \<Rightarrow> (http_NotFound, w)
      | Some uid \<Rightarrow>
      if \<not> rq_form_ok r then (http_Redirect (members_url slug @ ''?error=bad+request'') 303, w)
      else
     (case ProjectBySlug slug w of
        (Inl _, w) \<Rightarrow> (http_NotFound, w)
      | (Inr project, w) \<Rightarrow>
     (case ChangeProjectMemberRole (p_id project) uid (rq_form r ''role'') w of (_, w) \<Rightarrow>
      (http_Redirect (members_url slug) 303, w))))"

definition getFiles :: "lib \<Rightarrow> request \<Rightarrow> world \<Rightarrow> admin_response \<times> world" where
  "getFiles L r w =
     (case ProjectBySlug (rq_path r ''slug'') w of
        (Inl _, w) \<Rightarrow> (http_NotFound, w)
      | (Inr project, w) \<Rightarrow>
          (case ProjectFiles L (p_id project) w of (fs, w) \<Rightarrow> (render (FilesPage project (or_zero [] fs)), w)))"

section \<open>Audit, own sessions, devices, logout\<close>

definition getAudit :: "lib \<Rightarrow> request \<Rightarrow> world \<Rightarrow> admin_response \<times> world" where
  "getAudit L r w =
     (let p = Atoi_or_clip (rq_query r ''page'');
          page = (if p < 1 then 1 else p);
          flt = \<lparr>af_UserID = rq_query r ''user'', af_ProjectID = rq_query r ''project'', af_Action = rq_query r ''action'',
                 af_Page = page, af_PageSize = 50\<rparr> in
      case AuditLog L flt w of (x, w) \<Rightarrow>
      let rows = (case x of Inl _ \<Rightarrow> [] | Inr (rows, _) \<Rightarrow> rows);
          count_all = (case x of Inl _ \<Rightarrow> 0 | Inr (_, n) \<Rightarrow> n);
          pages = (count_all + af_PageSize flt - 1) div af_PageSize flt;
          totalPages = (if pages < 1 then 1 else pages) in
      (render (AuditPage rows count_all page totalPages flt), w))"

definition getSessions :: "lib \<Rightarrow> request \<Rightarrow> world \<Rightarrow> admin_response \<times> world" where
  "getSessions L r w =
     (case currentUserID L r of
        None \<Rightarrow> (http_Redirect ''/admin/login'' 302, w)
      | Some uid \<Rightarrow> (case UserSessions uid w of (ss, w) \<Rightarrow> (render (SessionsPage (or_zero [] ss)), w)))"

definition postSessionRevoke :: "lib \<Rightarrow> request \<Rightarrow> world \<Rightarrow> admin_response \<times> world" where
  "postSessionRevoke L r w =
     (case uuid_Parse L (rq_path r ''sid'') of
        None \<Rightarrow> (http_NotFound, w)
      | Some sid \<Rightarrow> (case RevokeSession sid w of (_, w) \<Rightarrow> (http_Redirect ''/admin/sessions'' 303, w)))"

definition getDevices :: "lib \<Rightarrow> request \<Rightarrow> world \<Rightarrow> admin_response \<times> world" where
  "getDevices L r w =
     (case currentUserID L r of
        None \<Rightarrow> (http_Redirect ''/admin/login'' 302, w)
      | Some uid \<Rightarrow> (case UserPasskeys uid w of (ps, w) \<Rightarrow> (render (DevicesPage (or_zero [] ps) (rq_query r ''error'')), w)))"

definition postDeviceRemove :: "lib \<Rightarrow> request \<Rightarrow> world \<Rightarrow> admin_response \<times> world" where
  "postDeviceRemove L r w =
     (case uuid_Parse L (rq_path r ''id'') of
        None \<Rightarrow> (http_NotFound, w)
      | Some i \<Rightarrow>
     (case DeletePasskey i w of
        (Inl _, w) \<Rightarrow> (http_Redirect ''/admin/devices?error=delete+failed'' 303, w)
      | (Inr _, w) \<Rightarrow> (http_Redirect ''/admin/devices'' 303, w)))"

definition postLogout :: "request \<Rightarrow> world \<Rightarrow> admin_response \<times> world" where
  "postLogout r w =
     (let resp = (http_Redirect ''/admin/login'' 303)\<lparr>as_cookies := [clearSessionCookie]\<rparr> in
      case rq_cookie r ''issued_session'' of
        None \<Rightarrow> (resp, w)
      | Some v \<Rightarrow>
     (case SessionByToken v w of
        (Inl _, w) \<Rightarrow> (resp, w)
      | (Inr (sessionID, _), w) \<Rightarrow> (resp, snd (RevokeSession sessionID w))))"

end
