(* ===== verification/Admin_Schema.thy ===== *)
theory Admin_Schema
  imports Admin_Console
begin

text \<open>
  The routes of the admin console, behind the session check (\<open>console_handle\<close>) and public (\<open>public_handle\<close>), and the proof, handler by
  handler, that none of them breaks a constraint of the schema, whatever fails.
\<close>

section \<open>Routes\<close>

datatype console_op =
    GetDashboard | GetUsers | PostUsersInvite | GetUserDetail | PostUserDeactivate | PostUserSessionRevoke
  | GetProjects | PostProjects | GetProject | PostProject | PostProjectArchive
  | GetMembers | PostMembers | PostMemberRemove | PostMemberRole | GetFiles
  | GetAudit | GetSessions | PostSessionRevoke | GetDevices | PostDeviceRemove | PostLogout

definition console_handler :: "lib \<Rightarrow> bytes \<Rightarrow> draws \<Rightarrow> console_op \<Rightarrow> request \<Rightarrow> world \<Rightarrow> admin_response \<times> world" where
  "console_handler L inviteKey g oper =
     (case oper of
        GetDashboard \<Rightarrow> getDashboard L
      | GetUsers \<Rightarrow> getUsers L
      | PostUsersInvite \<Rightarrow> postUsersInvite L inviteKey g
      | GetUserDetail \<Rightarrow> getUserDetail L
      | PostUserDeactivate \<Rightarrow> postUserDeactivate L
      | PostUserSessionRevoke \<Rightarrow> postUserSessionRevoke L
      | GetProjects \<Rightarrow> getProjects L
      | PostProjects \<Rightarrow> postProjects L g
      | GetProject \<Rightarrow> getProject
      | PostProject \<Rightarrow> postProject
      | PostProjectArchive \<Rightarrow> postProjectArchive
      | GetMembers \<Rightarrow> getMembers L
      | PostMembers \<Rightarrow> postMembers L
      | PostMemberRemove \<Rightarrow> postMemberRemove L
      | PostMemberRole \<Rightarrow> postMemberRole L
      | GetFiles \<Rightarrow> getFiles L
      | GetAudit \<Rightarrow> getAudit L
      | GetSessions \<Rightarrow> getSessions L
      | PostSessionRevoke \<Rightarrow> postSessionRevoke L
      | GetDevices \<Rightarrow> getDevices L
      | PostDeviceRemove \<Rightarrow> postDeviceRemove L
      | PostLogout \<Rightarrow> postLogout)"

definition console_handle :: "lib \<Rightarrow> bytes \<Rightarrow> draws \<Rightarrow> console_op \<Rightarrow> request \<Rightarrow> world \<Rightarrow> admin_response \<times> world" where
  "console_handle L inviteKey g oper = RequireWebAuth L http_Redirect (console_handler L inviteKey g oper)"

datatype public_op = GetLogin | PostLogin | PostLoginComplete | GetEnroll | PostEnroll

definition public_handle ::
  "lib \<Rightarrow> wn_lib \<Rightarrow> bytes \<Rightarrow> draws \<Rightarrow> public_op \<Rightarrow> request \<Rightarrow> ceremonies \<Rightarrow> world \<Rightarrow> admin_response \<times> ceremonies \<times> world" where
  "public_handle L W inviteKey g oper r wa w =
     (case oper of
        GetLogin \<Rightarrow> (case getLogin r w of (resp, w) \<Rightarrow> (resp, wa, w))
      | PostLogin \<Rightarrow> postLogin L W g r wa w
      | PostLoginComplete \<Rightarrow> postLoginComplete W g r wa w
      | GetEnroll \<Rightarrow> getEnroll L W inviteKey g r wa w
      | PostEnroll \<Rightarrow> postEnroll L W g r wa w)"

section \<open>The constraints of the schema are kept\<close>

lemma quiet_ok: "quiet w w' \<Longrightarrow> db_ok (db w) \<Longrightarrow> db_ok (db w')"
  by (simp add: quiet_def)

text \<open>The queries are quiet.\<close>

lemma admin_quiet:
  "AllUsers L w = (x1, w') \<Longrightarrow> quiet w w'" "UserSessions i w = (x2, w') \<Longrightarrow> quiet w w'"
  "UserPasskeys i w = (x3, w') \<Longrightarrow> quiet w w'" "AllProjects L w = (x4, w') \<Longrightarrow> quiet w w'"
  "ProjectBySlug s w = (x5, w') \<Longrightarrow> quiet w w'" "ProjectMembers L i w = (x6, w') \<Longrightarrow> quiet w w'"
  "ProjectFiles L i w = (x7, w') \<Longrightarrow> quiet w w'" "ProjectCount w = (x8, w') \<Longrightarrow> quiet w w'"
  "UserCount w = (x9, w') \<Longrightarrow> quiet w w'" "RecentActivity L n w = (x10, w') \<Longrightarrow> quiet w w'"
  "user_by_email m w = (x11, w') \<Longrightarrow> quiet w w'"
  by (auto simp: AllUsers_def UserSessions_def UserPasskeys_def AllProjects_def ProjectBySlug_def ProjectMembers_def
      ProjectFiles_def ProjectCount_def UserCount_def RecentActivity_def user_by_email_def dest: quiet_query)

lemma UserWithPasskeysAndSessions_quiet: "UserWithPasskeysAndSessions i w = (x, w') \<Longrightarrow> quiet w w'"
  by (auto simp: UserWithPasskeysAndSessions_def split: prod.splits sum.splits
      dest!: quiet_query admin_quiet(2,3) intro: quiet_trans)

lemma AuditLog_quiet: "AuditLog L f w = (x, w') \<Longrightarrow> quiet w w'"
  by (auto simp: AuditLog_def Let_def split: prod.splits sum.splits dest!: quiet_query intro: quiet_trans)

lemma quiet_timed_query:
  assumes "db_call (\<lambda>t. query (f t) t) w = (x, w')" shows "quiet w w'"
proof -
  have "db w' \<in> {db w}" using db_call_db [of "\<lambda>t. query (f t) t" w] assms by (simp add: query_def)
  then show ?thesis
    using db_call_frame [of "\<lambda>t. query (f t) t" w] db_call_fates [of w "\<lambda>t. query (f t) t"] assms by (simp add: quiet_def)
qed

lemma SessionByToken_quiet: "SessionByToken v w = (x, w') \<Longrightarrow> quiet w w'"
  by (auto simp: SessionByToken_def Let_def dest: quiet_timed_query)

lemmas admin_quiets = admin_quiet UserWithPasskeysAndSessions_quiet AuditLog_quiet SessionByToken_quiet

text \<open>The statements keep the constraints.\<close>

lemma admin_stmt_ok:
  "DeactivateUser i w = (x, w') \<Longrightarrow> db_ok (db w) \<Longrightarrow> db_ok (db w')"
  "RevokeSession i w = (x, w') \<Longrightarrow> db_ok (db w) \<Longrightarrow> db_ok (db w')"
  "DeletePasskey i w = (x, w') \<Longrightarrow> db_ok (db w) \<Longrightarrow> db_ok (db w')"
  "CreateProject n s dn url i w = (x, w') \<Longrightarrow> db_ok (db w) \<Longrightarrow> db_ok (db w')"
  "UpdateProject i dn url w = (x, w') \<Longrightarrow> db_ok (db w) \<Longrightarrow> db_ok (db w')"
  "ArchiveProject i w = (x, w') \<Longrightarrow> db_ok (db w) \<Longrightarrow> db_ok (db w')"
  "AddProjectMember p i role w = (x, w') \<Longrightarrow> db_ok (db w) \<Longrightarrow> db_ok (db w')"
  "RemoveProjectMember p i w = (x, w') \<Longrightarrow> db_ok (db w) \<Longrightarrow> db_ok (db w')"
  "ChangeProjectMemberRole p i role w = (x, w') \<Longrightarrow> db_ok (db w) \<Longrightarrow> db_ok (db w')"
  by (auto simp: DeactivateUser_def RevokeSession_def DeletePasskey_def CreateProject_def UpdateProject_def ArchiveProject_def
      AddProjectMember_def RemoveProjectMember_def ChangeProjectMemberRole_def dest: db_call_ok [rotated] intro: keeps_ok_admin)

lemma MintInviteToken_ok: "MintInviteToken L j n c m role ps key w = (x, w') \<Longrightarrow> db_ok (db w) \<Longrightarrow> db_ok (db w')"
  by (auto simp: MintInviteToken_def MintInviteTokenWithDuration_def Let_def split: option.splits prod.splits sum.splits
      dest: db_call_ok [OF keeps_ok_insert_invite])

lemma IssueWebSession_ok: "IssueWebSession rnd n u w = (x, w') \<Longrightarrow> db_ok (db w) \<Longrightarrow> db_ok (db w')"
  by (auto simp: IssueWebSession_def Let_def split: option.splits prod.splits sum.splits dest: db_call_ok [OF keeps_ok_insert_session])

lemma redeem_check_quiet: "redeem_check L tok key w = (x, w') \<Longrightarrow> quiet w w'"
  by (auto simp: redeem_check_def split: option.splits prod.splits sum.splits if_splits dest!: quiet_query)

lemma RedeemInviteToken_ok: "RedeemInviteToken L tok key w = (x, w') \<Longrightarrow> db_ok (db w) \<Longrightarrow> db_ok (db w')"
  by (auto simp: RedeemInviteToken_def redeem_mark_def split: prod.splits sum.splits
      dest!: redeem_check_quiet quiet_ok dest: db_call_ok [OF keeps_ok_mark_used])

lemma ValidateWebSession_ok: "ValidateWebSession L v w = (x, w') \<Longrightarrow> db_ok (db w) \<Longrightarrow> db_ok (db w')"
  by (auto simp: ValidateWebSession_def Let_def split: prod.splits sum.splits if_splits
      dest!: quiet_query quiet_ok intro: db_call_keeps_ok [OF keeps_ok_touch])

lemma keeps_ok_insert_invited: "keeps_ok (insert_invited L n m role)"
proof (rule keeps_okI)
  fix t d assume ok: "db_ok d"
  let ?us = "update_where (\<lambda>u. EqualFold (u_email u) m) (\<lambda>u. u\<lparr>u_status := ''active'', u_global_role := role\<rparr>) (users d)"
  have ids: "user_ids (d\<lparr>users := ?us\<rparr>) = user_ids d" by (simp add: user_ids_def image_update_where)
  have "users_ok (d\<lparr>users := ?us\<rparr>)" if "role \<in> {''admin'', ''member''}"
    using ok that by (simp add: db_ok_def users_ok_def unique_on_update) (auto simp: update_where_def)
  then have upd: "db_ok (d\<lparr>users := ?us\<rparr>)" if "role \<in> {''admin'', ''member''}"
    using ok ids that by (simp add: db_ok_def auth_ok_def projects_ok_def members_ok_def files_ok_def events_ok_def audit_ok_def project_ids_def)
  show "db_ok (snd (insert_invited L n m role t d))"
    using ok upd by (auto simp: insert_invited_def)
      (auto simp: db_ok_def schema_defs unique_on_snoc EqualFold_def image_iff subset_iff)
qed

lemma add_memberships_ok: "db_ok (db w) \<Longrightarrow> db_ok (db (add_memberships L i ps w))"
  unfolding add_memberships_def
proof (induction ps arbitrary: w)
  case (Cons p ps)
  have "db_ok (db (snd (AddProjectMember pid i ''editor'' w)))" for pid
    using admin_stmt_ok(7) Cons.prems by (metis prod.collapse)
  with Cons show ?case by (simp split: option.splits)
qed simp

lemma ensureUser_ok: "ensureUser L n m role ps w = (x, w') \<Longrightarrow> db_ok (db w) \<Longrightarrow> db_ok (db w')"
  by (auto simp: ensureUser_def split: prod.splits sum.splits
      dest!: admin_quiet(11) quiet_ok dest: db_call_ok [OF keeps_ok_insert_invited] intro!: add_memberships_ok)


lemma revoke_access_frame [simp]:
  "db (revoke_access p u w) = db w" "s3 (revoke_access p u w) = s3 w" "cache (revoke_access p u w) = cache w"
  "clock (revoke_access p u w) = clock w" "fates (revoke_access p u w) = fates w"
  by (simp_all add: revoke_access_def split: option.splits)

lemmas console_users = getDashboard_def getUsers_def postUsersInvite_def getUserDetail_def postUserDeactivate_def
  postUserSessionRevoke_def
lemmas console_projects = getProjects_def postProjects_def getProject_def postProject_def postProjectArchive_def getMembers_def
  postMembers_def postMemberRemove_def postMemberRole_def getFiles_def
lemmas console_rest = getAudit_def getSessions_def postSessionRevoke_def getDevices_def postDeviceRemove_def postLogout_def

text \<open>The pages that only show something.\<close>

definition shows_only :: "console_op \<Rightarrow> bool" where
  "shows_only oper \<longleftrightarrow> oper \<in> {GetDashboard, GetUsers, GetUserDetail, GetProjects, GetProject, GetMembers, GetFiles, GetAudit,
     GetSessions, GetDevices}"

lemma shows_only_quiet:
  assumes "shows_only oper" and "console_handler L key g oper r w = (resp, w')"
  shows "quiet w w'"
  using assms unfolding shows_only_def console_handler_def
  by (auto simp: console_users console_projects console_rest Let_def split: prod.splits sum.splits option.splits
      dest!: admin_quiets intro: quiet_trans) (meson quiet_trans)

lemma console_users_ok:
  assumes "db_ok (db w)"
  shows "postUsersInvite L key g r w = (resp, w') \<Longrightarrow> db_ok (db w')"
    and "postUserDeactivate L r w = (resp, w') \<Longrightarrow> db_ok (db w')"
    and "postUserSessionRevoke L r w = (resp, w') \<Longrightarrow> db_ok (db w')"
  using assms by (auto simp: console_users Let_def split: prod.splits sum.splits option.splits if_splits
      dest: MintInviteToken_ok admin_stmt_ok(1,2))

lemma console_projects_ok:
  assumes "db_ok (db w)"
  shows "postProjects L g r w = (resp, w') \<Longrightarrow> db_ok (db w')"
    and "postProject r w = (resp, w') \<Longrightarrow> db_ok (db w')"
    and "postProjectArchive r w = (resp, w') \<Longrightarrow> db_ok (db w')"
    and "postMembers L r w = (resp, w') \<Longrightarrow> db_ok (db w')"
    and "postMemberRemove L r w = (resp, w') \<Longrightarrow> db_ok (db w')"
    and "postMemberRole L r w = (resp, w') \<Longrightarrow> db_ok (db w')"
  using assms by (auto simp: console_projects Let_def split: prod.splits sum.splits option.splits if_splits
      dest!: admin_quiet(5) quiet_ok dest: admin_stmt_ok(4-9))

lemma console_rest_ok:
  assumes "db_ok (db w)"
  shows "postSessionRevoke L r w = (resp, w') \<Longrightarrow> db_ok (db w')"
    and "postDeviceRemove L r w = (resp, w') \<Longrightarrow> db_ok (db w')"
    and "postLogout r w = (resp, w') \<Longrightarrow> db_ok (db w')"
proof -
  show "postSessionRevoke L r w = (resp, w') \<Longrightarrow> db_ok (db w')" "postDeviceRemove L r w = (resp, w') \<Longrightarrow> db_ok (db w')"
    using assms by (auto simp: console_rest split: prod.splits sum.splits option.splits dest: admin_stmt_ok(2,3))
  have "db_ok (db v) \<Longrightarrow> db_ok (db (snd (RevokeSession i v)))" for i v using admin_stmt_ok(2) by (metis prod.collapse)
  then show "postLogout r w = (resp, w') \<Longrightarrow> db_ok (db w')"
    using assms by (auto simp: console_rest Let_def split: prod.splits sum.splits option.splits dest!: SessionByToken_quiet quiet_ok)
qed

lemma console_handler_ok:
  assumes "db_ok (db w)" and "console_handler L key g oper r w = (resp, w')"
  shows "db_ok (db w')"
proof (cases "shows_only oper")
  case True
  with assms show ?thesis by (metis shows_only_quiet quiet_ok)
next
  case False
  then show ?thesis
    using assms console_users_ok [OF assms(1)] console_projects_ok [OF assms(1)] console_rest_ok [OF assms(1)]
    by (cases oper) (simp_all add: shows_only_def console_handler_def)
qed

lemma console_handle_ok:
  assumes "db_ok (db w)" and "console_handle L key g oper r w = (resp, w')"
  shows "db_ok (db w')"
  using assms by (auto simp: console_handle_def RequireWebAuth_def split: option.splits prod.splits sum.splits
      dest: ValidateWebSession_ok console_handler_ok)

lemma public_handle_ok:
  assumes "db_ok (db w)" and "public_handle L W key g oper r wa w = (resp, wa', w')"
  shows "db_ok (db w')"
proof (cases oper)
  case GetLogin
  with assms show ?thesis by (simp add: public_handle_def getLogin_def)
next
  case PostLogin
  with assms show ?thesis
    by (auto simp: public_handle_def postLogin_def Let_def split: option.splits prod.splits sum.splits
        dest!: BeginAssertion_quiet quiet_ok)
next
  case PostLoginComplete
  with assms show ?thesis
    by (auto simp: public_handle_def postLoginComplete_def split: option.splits prod.splits sum.splits
        dest: FinishAssertion_ok IssueWebSession_ok)
next
  case GetEnroll
  with assms show ?thesis
    by (auto simp: public_handle_def getEnroll_def Let_def split: option.splits prod.splits sum.splits
        dest!: BeginRegistration_quiet dest: RedeemInviteToken_ok ensureUser_ok quiet_ok)
next
  case PostEnroll
  with assms show ?thesis
    by (auto simp: public_handle_def postEnroll_def split: option.splits prod.splits sum.splits
        dest: FinishRegistration_ok IssueWebSession_ok)
qed

end
