(* ===== verification/Admin_Safety.thy ===== *)
theory Admin_Safety
  imports Admin_Schema
begin

text \<open>
  What the routes of the admin console guarantee.

  Shown: without a live session a protected route answers with a
  redirection to the login page and does nothing; signing out ends the session; a removed member has no role any more; a login hands out a session
  only to an active user with one of its own passkeys, and no nonce works twice. And three defects: the
  console is open to every signed-in user, an invited user can be enrolled only if Postgres accepts one parameter at two types, and a ceremony begun
  as a login can be finished as a registration.
\<close>

section \<open>The session check\<close>

lemma ValidateWebSession_Inl_quiet: "ValidateWebSession L v w = (Inl e, w') \<Longrightarrow> quiet w w'"
  by (auto simp: ValidateWebSession_def Let_def split: prod.splits sum.splits if_splits dest!: quiet_query)

text \<open>A session that is accepted now.\<close>

definition live_session :: "db \<Rightarrow> time \<Rightarrow> string \<Rightarrow> session_row \<Rightarrow> bool" where
  "live_session d t v s \<longleftrightarrow> session_of d ''web'' (hashToken v) = Some s \<and> s_revoked_at s = None \<and> t \<le> s_expires_at s"

text \<open>Without failures the check accepts a live session, and the only trace is the time it was last seen.\<close>

definition touched :: "string \<Rightarrow> world \<Rightarrow> world" where
  "touched v w = w\<lparr>db := snd (touch_session (hashToken v) (clock w) (db w))\<rparr>"

lemma ValidateWebSession_live:
  assumes "fates w = []" and "live_session (db w) (clock w) v s"
  shows "ValidateWebSession L v w = (Inr (uuid_String L (s_user_id s)), touched v w)"
  using assms by (simp add: ValidateWebSession_def Let_def live_session_def db_call_Done query_def touched_def)

lemma touched_frame [simp]:
  "users (db (touched v w)) = users (db w)" "projects (db (touched v w)) = projects (db w)"
  "project_members (db (touched v w)) = project_members (db w)" "passkeys (db (touched v w)) = passkeys (db w)"
  "invites (db (touched v w)) = invites (db w)"
  "clock (touched v w) = clock w" "fates (touched v w) = fates w" "the_hub (touched v w) = the_hub w"
  by (simp_all add: touched_def touch_session_def)

lemma touched_ids [simp]: "user_ids (db (touched v w)) = user_ids (db w)" "project_ids (db (touched v w)) = project_ids (db w)"
  by (simp_all add: user_ids_def project_ids_def)

lemma touched_ok: "db_ok (db w) \<Longrightarrow> db_ok (db (touched v w))"
  using keeps_ok_touch by (simp add: touched_def keeps_ok_def)

lemma touched_live:
  assumes "db_ok (db w)" and "live_session (db w) t v s"
  shows "live_session (db (touched v w)) t v (s\<lparr>s_last_seen_at := clock w\<rparr>)"
proof -
  have mem: "s \<in> set (sessions (db w))" "s_refresh_token_hash s = hashToken v" "s_kind s = ''web''"
    using assms(2) session_of_Some by (auto simp: live_session_def)
  then have "s\<lparr>s_last_seen_at := clock w\<rparr> \<in> set (sessions (db (touched v w)))"
    by (auto simp: touched_def touch_session_def update_where_def image_iff intro!: bexI [of _ s])
  from session_of_row [OF touched_ok [OF assms(1)] this] mem assms(2) show ?thesis by (simp add: live_session_def)
qed

section \<open>Properties\<close>

text \<open>C11. The gate of the console: a protected route does something only for a request whose cookie names a web session that exists, is not revoked and
  not past its expiry, and it then runs as the user of that session; any other request is sent to the login page and changes nothing.\<close>

theorem console_gate:
  assumes "console_handle L key g oper r w = (resp, w')"
  shows "(\<exists>v s w1. rq_cookie r ''issued_session'' = Some v \<and> live_session (db w) (clock w) v s \<and>
        console_handler L key g oper (r\<lparr>rq_user := Some (uuid_String L (s_user_id s))\<rparr>) w1 = (resp, w')) \<or>
    (resp = http_Redirect ''/admin/login'' 302 \<and> quiet w w')"
proof (cases "rq_cookie r ''issued_session''")
  case None
  with assms show ?thesis by (simp add: console_handle_def RequireWebAuth_def)
next
  case (Some v)
  obtain x w1 where val: "ValidateWebSession L v w = (x, w1)" by fastforce
  show ?thesis
  proof (cases x)
    case (Inl e)
    with assms Some val ValidateWebSession_Inl_quiet [of L v w e w1] show ?thesis by (simp add: console_handle_def RequireWebAuth_def)
  next
    case (Inr uid)
    with val ValidateWebSession_Inr [of L v w uid w1] obtain s where "live_session (db w) (clock w) v s" "uid = uuid_String L (s_user_id s)"
      by (auto simp: live_session_def)
    with assms Some val Inr show ?thesis by (auto simp: console_handle_def RequireWebAuth_def)
  qed
qed

text \<open>User 2 (a plain member) with a web session, in front of the sample project.\<close>

definition sample_web_session :: session_row where
  "sample_web_session = \<lparr>s_id = 50, s_user_id = 2, s_kind = ''web'', s_refresh_token_hash = hashToken ''cookie'', s_client_label = '''',
     s_created_at = 0, s_last_seen_at = 0, s_expires_at = 1000, s_revoked_at = None\<rparr>"

definition sample_draws :: draws where
  "sample_draws = \<lparr>dr_key = 90, dr_jti = 91, dr_passkey = 92, dr_challenge = ''ch'', dr_nonce = ''no'', dr_token = Some ''to''\<rparr>"

definition sample_web_world :: world where
  "sample_web_world = sample_world\<lparr>db := sample_db\<lparr>sessions := [sample_web_session]\<rparr>\<rparr>"

definition sample_web_request :: request where
  "sample_web_request = (sample_request 2 '''' [] '''')\<lparr>rq_user := None, rq_path := (\<lambda>n. if n = ''slug'' then ''demo'' else sample_uuid_String 2),
     rq_form := (\<lambda>n. if n = ''role'' then ''admin'' else sample_uuid_String 2),
     rq_cookie := (\<lambda>n. if n = ''issued_session'' then Some ''cookie'' else None)\<rparr>"

lemma sample_web_world_ok: "db_ok (db sample_web_world)"
  using sample_db_ok by (simp add: sample_web_world_def db_ok_sessions sample_web_session_def)

lemma sample_web_live: "live_session (db sample_web_world) (clock sample_web_world) ''cookie'' sample_web_session"
  by (simp add: live_session_def sample_web_world_def session_of_def sample_web_session_def)

lemma sample_web_simps [simp]:
  "fates sample_web_world = []" "clock sample_web_world = 100" "users (db sample_web_world) = users sample_db"
  "projects (db sample_web_world) = projects sample_db" "project_members (db sample_web_world) = project_members sample_db"
  "rq_cookie sample_web_request ''issued_session'' = Some ''cookie''" "rq_form_ok sample_web_request"
  "rq_path sample_web_request ''slug'' = ''demo''" "rq_path sample_web_request ''uid'' = sample_uuid_String 2"
  "rq_form sample_web_request ''role'' = ''admin''" "rq_form sample_web_request ''user_id'' = sample_uuid_String 2"
  by (simp_all add: sample_web_world_def sample_web_request_def)

theorem console_gate_witness:
  "as_status (fst (console_handle sample_lib ''k'' sample_draws PostProjects (sample_web_request\<lparr>rq_cookie := (\<lambda>_. None)\<rparr>) sample_web_world)) = 302"
proof -
  obtain resp w' where run: "console_handle sample_lib ''k'' sample_draws PostProjects (sample_web_request\<lparr>rq_cookie := (\<lambda>_. None)\<rparr>) sample_web_world = (resp, w')"
    by fastforce
  from console_gate [OF run] show ?thesis by (simp add: run http_Redirect_def)
qed


lemma sessions_revoked:
  assumes "db_ok (db w)" and "fates w = []" and "session_of (db w) ''web'' h = Some s"
  shows "\<exists>s'. session_of (db (snd (RevokeSession (s_id s) w))) ''web'' h = Some s' \<and> s_revoked_at s' = Some (clock w)"
proof -
  let ?w = "snd (RevokeSession (s_id s) w)" and ?s = "s\<lparr>s_revoked_at := Some (clock w)\<rparr>"
  have db: "db ?w = snd (revoke_session (s_id s) (clock w) (db w))" using assms(2) by (simp add: RevokeSession_def db_call_Done)
  have mem: "s \<in> set (sessions (db w))" "s_refresh_token_hash s = h" "s_kind s = ''web''" using session_of_Some [OF assms(3)] by auto
  then have "?s \<in> set (sessions (db ?w))" by (auto simp: db revoke_session_def update_where_def image_iff intro!: bexI [of _ s])
  moreover have "db_ok (db ?w)" using keeps_ok_revoke assms(1) by (simp add: db keeps_ok_def)
  ultimately have "session_of (db ?w) ''web'' h = Some ?s" using session_of_row mem(2,3) by fastforce
  then show ?thesis by simp
qed

lemma SessionByToken_live:
  assumes "db_ok (db w)" and "fates w = []" and "live_session (db w) (clock w) v s" and "clock w < s_expires_at s"
  shows "SessionByToken v w = (Inr (s_id s, s_user_id s), w)"
proof -
  let ?P = "\<lambda>s. s_refresh_token_hash s = hashTokenBytes v \<and> s_kind s = ''web'' \<and> s_revoked_at s = None \<and> clock w < s_expires_at s"
  have mem: "s \<in> set (sessions (db w))" "?P s"
    using assms(3,4) session_of_Some by (auto simp: live_session_def token_hashes_agree)
  obtain s' where f: "find ?P (sessions (db w)) = Some s'" using mem by (cases "find ?P (sessions (db w))") (auto simp: find_None_iff)
  then have "s' \<in> set (sessions (db w))" "s_refresh_token_hash s' = s_refresh_token_hash s" using mem by (auto simp: find_Some_iff)
  then have "s' = s" using mem(1) db_ok_authD(2)[OF assms(1)] unfolding unique_on_def distinct_map inj_on_def by metis
  with f assms(2) show ?thesis by (simp add: SessionByToken_def Let_def db_call_Done query_def)
qed

text \<open>Signing out ends the session: after \<open>postLogout\<close> (without failures) the cookie is refused at every later time.\<close>

theorem logout_ends_session:
  assumes "db_ok (db w)" and "fates w = []" and "rq_cookie r ''issued_session'' = Some v" and "clock w < t"
  shows "\<not> (\<exists>uid. fst (ValidateWebSession L v ((snd (postLogout r w))\<lparr>clock := t\<rparr>)) = Inr uid)"
proof
  let ?w = "(snd (postLogout r w))\<lparr>clock := t\<rparr>"
  assume "\<exists>uid. fst (ValidateWebSession L v ?w) = Inr uid"
  then obtain uid w'' where "ValidateWebSession L v ?w = (Inr uid, w'')" by (metis prod.collapse)
  from ValidateWebSession_Inr [OF this]
  obtain s' where s': "session_of (db ?w) ''web'' (hashToken v) = Some s'" "s_revoked_at s' = None" "t \<le> s_expires_at s'"
    by auto
  show False
  proof (cases "\<exists>s. live_session (db w) (clock w) v s \<and> clock w < s_expires_at s")
    case True
    then obtain s where s: "live_session (db w) (clock w) v s" "clock w < s_expires_at s" by blast
    have "db ?w = db (snd (RevokeSession (s_id s) w))"
      using SessionByToken_live [OF assms(1,2) s] assms(3) by (simp add: postLogout_def)
    with sessions_revoked [OF assms(1,2), of "hashToken v" s] s(1) s' show False by (auto simp: live_session_def)
  next
    case False
    let ?P = "\<lambda>s. s_refresh_token_hash s = hashTokenBytes v \<and> s_kind s = ''web'' \<and> s_revoked_at s = None \<and> clock w < s_expires_at s"
    have "find ?P (sessions (db w)) = None"
      using False session_of_row [OF assms(1), of _ "hashToken v" "''web''"]
      by (fastforce simp: find_None_iff live_session_def token_hashes_agree)
    then have "db ?w = db w" using assms(2,3) by (simp add: postLogout_def SessionByToken_def Let_def db_call_Done query_def)
    with s' False assms(4) show False by (auto simp: live_session_def)
  qed
qed

theorem logout_ends_session_witness:
  "\<not> (\<exists>uid. fst (ValidateWebSession sample_lib ''cookie'' ((snd (postLogout sample_web_request sample_web_world))\<lparr>clock := 101\<rparr>)) = Inr uid)"
  by (rule logout_ends_session [OF sample_web_world_ok]) simp_all


lemma ProjectBySlug_Done: "fates w = [] \<Longrightarrow> lookup_by p_slug sl (projects (db w)) = Some p \<Longrightarrow> ProjectBySlug sl w = (Inr p, w)"
  by (simp add: ProjectBySlug_def db_call_query_Done)

text \<open>Removing a member takes the access away: after \<open>postMemberRemove\<close> (without failures) the user has no role in the project, so the API
  refuses it unless it is a global admin; every other membership is as it was, and the hub has sent the notice for this project and user to
  the connected clients.\<close>

theorem member_removed:
  assumes "db_ok (db w)" and "fates w = []" and "uuid_Parse L (rq_path r ''uid'') = Some u"
    and "lookup_by p_slug (rq_path r ''slug'') (projects (db w)) = Some p" and "postMemberRemove L r w = (resp, w')"
  shows "role_of (db w') = (role_of (db w))((p_id p, u) := None) \<and>
    (rank_in (db w') u (p_id p) = None \<or> (\<exists>usr. lookup_by u_id u (users (db w)) = Some usr \<and> u_global_role usr = ''admin'')) \<and>
    the_hub w' = map_option (\<lambda>h. BroadcastAccessRevoked h (uuid_String L (p_id p)) (uuid_String L u)) (the_hub w)"
proof -
  let ?d = "snd (remove_member (p_id p) u (clock w) (db w))"
  have rm: "RemoveProjectMember (p_id p) u w = (Inr (), w\<lparr>db := ?d\<rparr>)"
    using assms(2) by (simp add: RemoveProjectMember_def db_call_Done remove_member_def)
  have w': "w' = revoke_access (uuid_String L (p_id p)) (uuid_String L u) (w\<lparr>db := ?d\<rparr>)"
    using assms(5) ProjectBySlug_Done [OF assms(2,4)] assms(3) rm by (simp add: postMemberRemove_def Let_def)
  have role: "role_of ?d = (role_of (db w))((p_id p, u) := None)"
    by (rule remove_member_role [OF assms(1), of _ _ "clock w"]) (simp add: remove_member_def)
  have "lookup_by member_key (p_id p, u) (project_members ?d) = None"
    using fun_cong [OF role, of "(p_id p, u)"] by (simp add: role_of_def)
  moreover have "users ?d = users (db w)" by (simp add: remove_member_def)
  ultimately have "rank_in ?d u (p_id p) = None \<or> (\<exists>usr. lookup_by u_id u (users (db w)) = Some usr \<and> u_global_role usr = ''admin'')"
    by (auto simp: rank_in_def split: option.splits)
  with role show ?thesis by (auto simp: w' revoke_access_def split: option.splits)
qed

theorem member_removed_witness:
  "role_of (db (snd (postMemberRemove sample_lib sample_web_request sample_web_world))) (7, 2) = None"
proof -
  obtain resp w' where run: "postMemberRemove sample_lib sample_web_request sample_web_world = (resp, w')" by fastforce
  from member_removed [OF sample_web_world_ok _ _ _ run, of 2
      "\<lparr>p_id = 7, p_slug = ''demo'', p_display_name = ''Demo'', p_repo_url = ''git'', p_created_by = 1, p_created_at = 0, p_archived_at = None\<rparr>"]
  show ?thesis by (simp add: run) (simp add: sample_db_def empty_db_def)
qed

text \<open>The console is open to every signed-in user: whoever has a live web session, with whatever role, can use \<open>postMembers\<close> to make itself
  admin of any project (without failures), because no handler of the console looks at the role of the user.\<close>

theorem console_not_restricted_to_admins:
  assumes "uuid_laws L" and "db_ok (db w)" and "fates w = []" and "rq_cookie r ''issued_session'' = Some v" and "live_session (db w) (clock w) v s"
    and "lookup_by p_slug (rq_path r ''slug'') (projects (db w)) = Some p" and "rq_form_ok r"
    and "rq_form r ''user_id'' = uuid_String L (s_user_id s)" and "rq_form r ''role'' = ''admin''"
    and "console_handle L key g PostMembers r w = (resp, w')"
  shows "rank_in (db w') (s_user_id s) (p_id p) = Some 3"
proof -
  let ?u = "s_user_id s" and ?w = "touched v w"
  note calm = touched_frame(7)[of v w, unfolded assms(3)]
  have run: "postMembers L (r\<lparr>rq_user := Some (uuid_String L ?u)\<rparr>) ?w = (resp, w')"
    using assms(10) ValidateWebSession_live [OF assms(3,5), of L] assms(4)
    by (simp add: console_handle_def RequireWebAuth_def console_handler_def)
  obtain x w1 where add: "AddProjectMember (p_id p) ?u ''admin'' ?w = (x, w1)" by fastforce
  have "db w' = db w1"
    using run add ProjectBySlug_Done [OF calm] assms(1,6-9)
    by (auto simp: postMembers_def Let_def uuid_laws_def split: sum.splits)
  have ids: "?u \<in> user_ids (db w)" "p_id p \<in> project_ids (db w)"
    using assms(5,6) session_of_Some db_ok_authD(3)[OF assms(2)] lookup_by_Some
    by (fastforce simp: live_session_def project_ids_def)+
  have ok: "role_of (db w1) (p_id p, ?u) = Some ''admin''" and ms: "\<exists>ms. db w1 = (db ?w)\<lparr>project_members := ms\<rparr>"
    using AddProjectMember_effect [OF touched_ok [OF assms(2)] add] calm ids by (simp_all add: member_roles_def)
  obtain usr where usr: "lookup_by u_id ?u (users (db w)) = Some usr"
    using ids(1) by (cases "lookup_by u_id ?u (users (db w))") (auto simp: lookup_by_None user_ids_def)
  have "users (db w1) = users (db w)" using ms by auto
  with ok usr show ?thesis using \<open>db w' = db w1\<close> by (auto simp: rank_in_def role_of_def roleRank_def)
qed

theorem console_not_restricted_to_admins_witness:
  "rank_in (db (snd (console_handle sample_lib ''k'' sample_draws PostMembers sample_web_request sample_web_world))) 2 7 = Some 3"
proof -
  obtain resp w' where run: "console_handle sample_lib ''k'' sample_draws PostMembers sample_web_request sample_web_world = (resp, w')" by fastforce
  have "rank_in (db w') (s_user_id sample_web_session) (p_id (hd (projects sample_db))) = Some 3"
    by (rule console_not_restricted_to_admins [OF sample_lib_laws sample_web_world_ok _ _ sample_web_live _ _ _ _ run])
       (simp_all add: sample_web_session_def, simp add: sample_db_def)
  then show ?thesis by (simp add: run sample_web_session_def) (simp add: sample_db_def)
qed


section \<open>Login and enrollment\<close>

lemma popWASession_simps:
  "wa n = None \<Longrightarrow> popWASession n wa = (None, wa)" "wa n = Some s \<Longrightarrow> popWASession n wa = (Some s, wa(n := None))"
  by (simp_all add: popWASession_def)

lemma IssueWebSession_Inr:
  assumes "db_ok (db w)" and "IssueWebSession rnd n u w = (Inr tok, w')"
  shows "\<exists>s. live_session (db w') (clock w) tok s \<and> s_user_id s = u \<and> s_expires_at s = clock w + webSessionDuration"

proof -
  let ?st = "insert_session n u ''web'' (hashToken tok) '''' (clock w + webSessionDuration)"
  have call: "db_call ?st w = (Inr (), w')"
    using assms(2) by (auto simp: IssueWebSession_def Let_def split: option.splits prod.splits sum.splits)
  show "\<exists>s. live_session (db w') (clock w) tok s \<and> s_user_id s = u \<and> s_expires_at s = clock w + webSessionDuration"
    using new_session(2)[OF assms(1) call] by (auto simp: live_session_def webSessionDuration_def)

qed

text \<open>C12. A login is sound: when \<open>postLoginComplete\<close> answers 200, the nonce of the cookie named a ceremony under way, that ceremony was for an existing
  active user, and the library's \<open>FinishLogin\<close>, given this user with exactly its own passkeys, that ceremony and the request, has verified one of them; the one cookie it sets is a live session of this user, good for seven days; the nonce is used up, so
  a second completion with it is refused.\<close>

theorem login_sound:
  assumes "wn_laws W" and "db_ok (db w)" and "postLoginComplete W g r wa w = (resp, wa', w')" and "as_status resp = 200"
  shows "\<exists>nonce sess i u c p tok s. rq_cookie r ''wauthn_nonce'' = Some nonce \<and> wa nonce = Some sess \<and> sd_UserID sess = uuid_bytes i \<and>
    active_user (db w) i \<and> wu_ID u = uuid_bytes i \<and>
    wu_Credentials u = map credential_of (filter (\<lambda>p. pk_user_id p = i) (passkeys (db w))) \<and>
    wn_FinishLogin W u sess (clock w) r = Some c \<and>
    p \<in> set (passkeys (db w)) \<and> pk_user_id p = i \<and> pk_credential_id p = wc_ID c \<and>
    as_cookies resp = [setSessionCookie tok] \<and> live_session (db w') (clock w) tok s \<and> s_user_id s = i \<and>
    s_expires_at s = clock w + webSessionDuration \<and>
    wa' = wa(nonce := None) \<and> as_status (fst (postLoginComplete W g' r wa' w'')) = 400"
proof -
  obtain nonce where nonce: "rq_cookie r ''wauthn_nonce'' = Some nonce"
    using assms(3,4) by (auto simp: postLoginComplete_def writeJSONError_def split: option.splits)
  obtain sess where sess: "wa nonce = Some sess"
    using assms(3,4) nonce by (cases "wa nonce") (auto simp: postLoginComplete_def writeJSONError_def popWASession_simps)
  obtain x w1 where fin: "FinishAssertion W sess r w = (x, w1)" by fastforce
  obtain u where x: "x = Inr u"
    using assms(3,4) nonce sess fin by (cases x) (auto simp: postLoginComplete_def writeJSONError_def popWASession_simps)
  obtain i p c where i: "wu_ID u = uuid_bytes i" "sd_UserID sess = uuid_bytes i" "active_user (db w) i" "p \<in> set (passkeys (db w))" "pk_user_id p = i"
    "wu_Credentials u = map credential_of (filter (\<lambda>p. pk_user_id p = i) (passkeys (db w)))" "wn_FinishLogin W u sess (clock w) r = Some c"
    "pk_credential_id p = wc_ID c"
    using FinishAssertion_sound_aux [OF assms(1,2) fin [unfolded x]] by blast
  obtain y w2 where iss: "IssueWebSession (dr_token g) (dr_key g) i w1 = (y, w2)" by fastforce
  note run = assms(3) nonce sess fin x iss i(1) wn_lawsD(1)[OF assms(1), of i]
  obtain tok where y: "y = Inr tok"
    using run assms(4) by (cases y) (auto simp: postLoginComplete_def writeJSONError_def popWASession_simps)
  have res: "resp = json_answer [setSessionCookie tok] (JObj [(''redirect'', JStr ''/admin'')])" "wa' = wa(nonce := None)" "w' = w2"
    using run y by (simp_all add: postLoginComplete_def popWASession_simps)
  have ok1: "db_ok (db w1)" by (rule FinishAssertion_ok [OF assms(2) fin])
  have c1: "clock w1 = clock w" by (rule FinishAssertion_clock [OF fin])
  obtain s where s: "live_session (db w') (clock w) tok s" "s_user_id s = i" "s_expires_at s = clock w + webSessionDuration"
    using IssueWebSession_Inr [OF ok1 iss [unfolded y]] c1 res(3) by auto
  have again: "as_status (fst (postLoginComplete W g' r wa' w'')) = 400"
    by (simp add: postLoginComplete_def nonce res(2) popWASession_simps writeJSONError_def)
  have "as_cookies resp = [setSessionCookie tok]" by (simp add: res(1) json_answer_def)
  with nonce sess i s res(2) again show ?thesis by blast
qed


text \<open>The sample user 2 completes a login with its passkey.\<close>

definition sample_nonce_request :: "bytes \<Rightarrow> request" where
  "sample_nonce_request b = (sample_answer b)\<lparr>rq_cookie :=
     (\<lambda>n. if n = ''wauthn_nonce'' then Some ''n1'' else if n = ''wauthn_uid'' then Some (sample_uuid_String 2) else None)\<rparr>"

lemma sample_nonce_request_simps [simp]:
  "rq_cookie (sample_nonce_request b) ''wauthn_nonce'' = Some ''n1''"
  "rq_cookie (sample_nonce_request b) ''wauthn_uid'' = Some (sample_uuid_String 2)" "rq_body (sample_nonce_request b) = b"
  by (simp_all add: sample_nonce_request_def)

lemma sample_sessions_empty [simp]: "sessions (db sample_passkey_world) = []"
  by (simp add: sample_passkey_world_def sample_db_def empty_db_def)

lemma sample_login_200:
  "as_status (fst (postLoginComplete sample_wn sample_draws (sample_nonce_request ''c1'') [''n1'' \<mapsto> sample_ceremony 2] sample_passkey_world)) = 200"
  by (simp add: postLoginComplete_def popWASession_def FinishAssertion_def sample_wn_def sample_ceremony_def sample_FromBytes_uuid_bytes sample_loadUser
      db_call_Done update_passkey_def credential_of_def sample_passkey_def IssueWebSession_def sample_draws_def Let_def insert_session_def
      json_answer_def user_ids_def) (simp add: sample_db_def sample_user_def)

theorem login_sound_witness:
  "\<exists>tok s. as_cookies (fst (postLoginComplete sample_wn sample_draws (sample_nonce_request ''c1'') [''n1'' \<mapsto> sample_ceremony 2] sample_passkey_world)) =
       [setSessionCookie tok] \<and> s_expires_at s = 100 + webSessionDuration \<and>
     live_session (db (snd (snd (postLoginComplete sample_wn sample_draws (sample_nonce_request ''c1'') [''n1'' \<mapsto> sample_ceremony 2] sample_passkey_world)))) 100 tok s"
proof -
  obtain resp wa' w' where run: "postLoginComplete sample_wn sample_draws (sample_nonce_request ''c1'') [''n1'' \<mapsto> sample_ceremony 2] sample_passkey_world = (resp, wa', w')"
    by (metis prod.collapse)
  have "as_status resp = 200" using sample_login_200 run by simp
  from login_sound [OF sample_wn_laws sample_passkey_world_ok run this, of sample_draws sample_passkey_world] run show ?thesis by auto
qed

text \<open>C33. A new user cannot be enrolled on a database that refuses one parameter at two column types, as Postgres documents it does: when the invite of an address that has no
  user yet is opened (without failures), it is redeemed, the INSERT of \<open>ensureUser\<close> is refused, the answer is 500, no user was created, and the invite is spent: opening it
  again is answered 400.\<close>

theorem new_user_enrollment_fails:
  assumes "db_ok (db w)" and "\<not> one_param_two_types L ''citext'' ''text''" and "fates w = []"
    and "RedeemInviteToken L (rq_path r ''token'') key w = (Inr claims, w1)"
    and "\<not> (\<exists>u \<in> set (users (db w)). EqualFold (u_email u) (inv_Email claims))"
    and "getEnroll L W key g r wa w = (resp, wa', w')"
  shows "as_status resp = 500 \<and> users (db w') = users (db w) \<and> wa' = wa \<and>
    as_status (fst (getEnroll L W key g' r wa' w')) = 400"
proof -
  note calm = RedeemInviteToken_Done [OF assms(4,3)]
  have none: "user_by_email (inv_Email claims) w1 = (Inl ErrNoRows, w1)"
  proof -
    have "find (\<lambda>u. EqualFold (u_email u) (inv_Email claims)) (users (db w1)) = None"
      using calm(2) assms(5) by (auto simp: find_None_iff)
    then show ?thesis using calm(1) by (simp add: user_by_email_def db_call_query_Done)
  qed
  have ens: "ensureUser L (dr_key g) (inv_Email claims) (inv_Role claims) (inv_ProjectIDs claims) w1 = (Inl ErrIO, w1)"
    using none calm(1) assms(2) by (simp add: ensureUser_def db_call_Done insert_invited_def)
  have run: "resp = http_Error ''server error'' 500" "wa' = wa" "w' = w1"
    using assms(4,6) ens by (simp_all add: getEnroll_def Let_def)
  obtain x w2 where again: "RedeemInviteToken L (rq_path r ''token'') key w1 = (x, w2)" by fastforce
  obtain e where "x = Inl e"
    using RedeemInviteToken_spent [OF assms(1,4) refl, of key] again by (cases x) auto
  with again run calm(2) show ?thesis by (simp add: getEnroll_def Let_def http_Error_def)
qed


definition sample_enroll_request :: request where
  "sample_enroll_request = (sample_answer '''')\<lparr>rq_path := (\<lambda>_. sample_enc64 1000 @ ''n@x'')\<rparr>"

theorem new_user_enrollment_fails_witness:
  "as_status (fst (getEnroll sample_lib sample_wn ''k'' sample_draws sample_enroll_request Map.empty sample_invite_world)) = 500"
proof -
  have path: "rq_path sample_enroll_request ''token'' = sample_enc64 1000 @ ''n@x''" by (simp add: sample_enroll_request_def)
  obtain w0 where chk: "redeem_check sample_lib (sample_enc64 1000 @ ''n@x'') ''k'' sample_invite_world =
      (Inr \<lparr>inv_Email = ''n@x'', inv_Role = ''member'', inv_ProjectIDs = []\<rparr>, w0)" "fates w0 = []"
    by (simp add: redeem_check_def sample_invite_world_def db_call_query_Done sample_lib_def seconds_def sample_dec64_enc64)
  obtain w1 where red: "RedeemInviteToken sample_lib (rq_path sample_enroll_request ''token'') ''k'' sample_invite_world =
      (Inr \<lparr>inv_Email = ''n@x'', inv_Role = ''member'', inv_ProjectIDs = []\<rparr>, w1)"
    unfolding path using chk by (simp add: RedeemInviteToken_def redeem_mark_def mark_used_def db_call_Done)
  obtain resp wa' w' where run: "getEnroll sample_lib sample_wn ''k'' sample_draws sample_enroll_request Map.empty sample_invite_world = (resp, wa', w')"
    by (metis prod.collapse)
  have "as_status resp = 500"
    by (rule conjunct1 [OF new_user_enrollment_fails [OF sample_invite_world_ok _ _ red _ run, of sample_draws]])
       (simp_all add: sample_invite_world_def sample_db_def sample_user_def sample_lib_def EqualFold_def ToLower_def lower_char_def)
  with run show ?thesis by simp
qed

text \<open>The console does not tell the two kinds of ceremony apart: both are kept under the same nonces, and \<open>postEnroll\<close> asks for no invite. With a library that, like the
  sample one, finishes a registration for any session of the user, a stranger who begins a login for an address and knows that user's identifier
  (it is the \<open>actor\<close> of every event) ends up with a passkey and a session of that user.\<close>

lemma login_ceremony_finishes_as_registration:
  "\<exists>wa w1 nonce. postLogin (sample_lib\<lparr>json_tokenise := \<lambda>b. Some (JObj [(''email'', JStr ''e@x'')])\<rparr>) sample_wn sample_draws
       (sample_answer '''') Map.empty sample_passkey_world = (json_answer [strict_cookie ''wauthn_nonce'' nonce ''/admin'' 300] (JStr ''ch''), wa, w1) \<and>
     as_status (fst (postEnroll sample_lib sample_wn sample_draws ((sample_nonce_request ''stranger'')\<lparr>rq_cookie :=
       (\<lambda>n. Some (if n = ''wauthn_nonce'' then nonce else sample_uuid_String 2))\<rparr>) wa w1)) = 200"
proof -
  let ?L = "sample_lib\<lparr>json_tokenise := \<lambda>b. Some (JObj [(''email'', JStr ''e@x'')])\<rparr>"
  have "loadUserByEmail ''e@x'' sample_passkey_world =
      (Inr \<lparr>wu_ID = uuid_bytes 2, wu_Name = ''e@x'', wu_DisplayName = ''e@x'', wu_Credentials = [credential_of sample_passkey]\<rparr>, sample_passkey_world)"
    by (simp add: loadUserByEmail_def loadCredentials_def db_call_query_Done sample_db_def sample_user_def sample_passkey_def
        EqualFold_def ToLower_def lower_char_def)
  then have login: "postLogin ?L sample_wn sample_draws (sample_answer '''') Map.empty sample_passkey_world =
      (json_answer [strict_cookie ''wauthn_nonce'' (randHex ''no'') ''/admin'' 300] (JStr ''ch''),
       [randHex ''no'' \<mapsto> \<lparr>sd_UserID = uuid_bytes 2, sd_opaque = ''ch''\<rparr>], sample_passkey_world)"
    by (simp add: postLogin_def dec_loginRequest_def wire_dec TrimSpace_def is_space_def BeginAssertion_def sample_wn_def sample_draws_def storeWASession_def)
  show ?thesis
    by (rule exI, rule exI, rule exI [of _ "randHex ''no''"], rule conjI, rule login)
       (simp add: postEnroll_def popWASession_def FinishRegistration_def sample_wn_def sample_loadUser Let_def hex_decode_encode
         db_call_Done insert_passkey_def sample_passkey_def IssueWebSession_def insert_session_def sample_draws_def json_answer_def user_ids_def,
        simp add: sample_db_def sample_user_def)
qed

end
