(* ===== verification/Write_Api.thy ===== *)
theory Write_Api
  imports Api_Common
begin

text \<open>
  The six write handlers of \<^verbatim>\<open>internal/api/v1/write.go\<close>, each in full and in the order of the source,
  with the helpers they call.

  The three PUT handlers have the same shape: checks, precondition headers, body, upload, conditional
  upsert, cache invalidation, audit row, event. \<open>guarded\<close> and \<open>put_file\<close> spell that shape out once,
  the lemmas \<open>PutIssueHandler_eq\<close>, \<open>PutAttachmentHandler_eq\<close> and \<open>PutProjectJSONHandler_eq\<close> show
  that the handlers are instances of it, and the locale \<open>put_handler\<close> derives what holds of
  every instance.
\<close>

section \<open>Helpers\<close>

definition maxBodySize :: nat where "maxBodySize = 25 * 1024 * 1024"

definition clientIP :: "request \<Rightarrow> string" where
  "clientIP r = (let xff = rq_header r ''X-Forwarded-For'' in if xff \<noteq> '''' then xff else rq_remote r)"

definition readBody :: "request \<Rightarrow> world \<Rightarrow> (response + bytes) \<times> world" where
  "readBody r w =
     (if length (rq_body r) > maxBodySize then (Inl (writeError 413 ''request body too large''), w)
      else if \<not> rq_body_eof r then (Inl (writeError 400 ''failed to read body''), w)
      else (Inr (rq_body r), w))"

definition detectContentType :: "lib \<Rightarrow> bytes \<Rightarrow> string" where
  "detectContentType L body =
     (let sniff = (if length body > 512 then take 512 body else body);
          ct = DetectContentType L sniff
      in if ct = '''' then ''application/octet-stream'' else ct)"

definition writeETagJSON :: "nat \<Rightarrow> string \<Rightarrow> response" where
  "writeETagJSON status etag =
     \<lparr>rs_status = status, rs_headers = [(''ETag'', quoted etag), (''Content-Type'', ''application/json'')],
      rs_content = JsonBody (JObj [(''etag'', JStr etag)])\<rparr>"

definition nowTS :: "lib \<Rightarrow> world \<Rightarrow> string" where
  "nowTS L w = format_ts L (clock w)"

definition fanOutEvent :: "lib \<Rightarrow> uuid \<Rightarrow> uuid \<Rightarrow> json \<Rightarrow> world \<Rightarrow> world" where
  "fanOutEvent L projectID actorID payload w =
     (case the_hub w of
        None \<Rightarrow> w
      | Some h \<Rightarrow>
          (snd (AppendEvent projectID actorID payload w))
            \<lparr>the_hub := Some (hub_Broadcast h (uuid_String L projectID) payload)\<rparr>)"

text \<open>\<^verbatim>\<open>if deps.Cache != nil { deps.Cache.Delete(key) }\<close>\<close>

definition cache_drop :: "string \<Rightarrow> world \<Rightarrow> world" where
  "cache_drop key w = w\<lparr>cache := map_option (\<lambda>c. lru_Delete c key) (cache w)\<rparr>"

definition userAgent :: "request \<Rightarrow> string" where
  "userAgent r = rq_header r ''User-Agent''"

definition no_content :: response where
  "no_content = \<lparr>rs_status = 204, rs_headers = [], rs_content = NoContent\<rparr>"

definition old_etag :: "err + (string \<times> bool) \<Rightarrow> string" where
  "old_etag x = (case x of Inl _ \<Rightarrow> '''' | Inr (etag, _) \<Rightarrow> etag)"

text \<open>The message of the 400 for an issue identifier (\<open>CHR 0x5C\<close> is the backslash).\<close>

definition bad_issue_id :: string where
  "bad_issue_id = ''invalid issue id: must match ^'' @ [CHR 0x5C] @ ''d{4}$''"

abbreviation markdown :: string where
  "markdown \<equiv> ''text/markdown; charset=utf-8''"

section \<open>Issues\<close>

definition PutIssueHandler :: "lib \<Rightarrow> request \<Rightarrow> world \<Rightarrow> response \<times> world" where
  "PutIssueHandler L r w =
     or_return (resolveUser L r w) (\<lambda>(userID, _) w.
     or_return (parseFolderID L r w) (\<lambda>folderID w.
     let issueID = rq_path r ''id'' in
     if \<not> issueIDPattern_MatchString issueID
     then (writeError 400 bad_issue_id, w)
     else
     or_return (checked (ProjectRole userID folderID w)) (\<lambda>role w.
     or_return (checked (RequireRole role ''editor'', w)) (\<lambda>_ w.
     let ifMatch = rq_header r ''If-Match'';
         ifNoneMatch = rq_header r ''If-None-Match'';
         isCreate = (ifNoneMatch = ''*'') in
     if \<not> isCreate \<and> ifMatch = ''''
     then (writeError 428 ''If-Match or If-None-Match: * required'', w)
     else
     or_return (readBody r w) (\<lambda>body w.
     let newETag = computeETag body;
         s3Key = ''projects/'' @ uuid_String L folderID @ ''/issues/'' @ issueID @ ''.md'';
         path = issueID @ ''.md'';
         ct = markdown in
     case FileExists folderID path w of (old, w) \<Rightarrow>
     let oldETag = old_etag old in
     (case PutObject s3Key body ct newETag w of
        (Inl _, w) \<Rightarrow> (writeError 500 ''internal error'', w)
      | (Inr _, w) \<Rightarrow>
     let matchEtag = (if \<not> isCreate then ifMatch else '''') in
     (case UpsertFile folderID path newETag (int (length body)) ct userID matchEtag w of
        (Inl e, w) \<Rightarrow>
          (if e = ErrETagConflict then writeError 409 ''etag conflict'' else writeError 500 ''internal error'', w)
      | (Inr _, w) \<Rightarrow>
     let w = cache_drop s3Key w;
         w = snd (WriteAuditLog L userID ''put_issue'' (uuid_String L folderID) path oldETag newETag
                    (clientIP r) (userAgent r) w);
         op = (if isCreate then ''created'' else ''updated'');
         ev = enc_IssueChangedEvent
                \<lparr>ic_folderId = uuid_String L folderID, ic_issueId = issueID, ic_op = op, ic_etag = Some newETag,
                 ic_actor = uuid_String L userID, ic_ts = nowTS L w\<rparr>;
         w = fanOutEvent L folderID userID ev w
     in (writeETagJSON 200 newETag, w))))))))"

definition PostIssueHandler :: "lib \<Rightarrow> request \<Rightarrow> world \<Rightarrow> response \<times> world" where
  "PostIssueHandler L r w =
     or_return (resolveUser L r w) (\<lambda>(userID, _) w.
     or_return (parseFolderID L r w) (\<lambda>folderID w.
     or_return (checked (ProjectRole userID folderID w)) (\<lambda>role w.
     or_return (checked (RequireRole role ''editor'', w)) (\<lambda>_ w.
     case Option.bind (json_tokenise L (rq_body r)) dec_postIssueRequest of
       None \<Rightarrow> (writeError 400 ''invalid JSON body'', w)
     | Some req \<Rightarrow>
     if \<not> issueIDPattern_MatchString (pr_id req)
     then (writeError 400 bad_issue_id, w)
     else
     let path = pr_id req @ ''.md'' in
     (case FileExists folderID path w of
        (Inl _, w) \<Rightarrow> (writeError 500 ''internal error'', w)
      | (Inr (_, ex), w) \<Rightarrow>
     if ex then (writeError 409 ''issue already exists'', w)
     else
     let bodyBytes = pr_body req;
         newETag = computeETag bodyBytes;
         s3Key = ''projects/'' @ uuid_String L folderID @ ''/issues/'' @ pr_id req @ ''.md'';
         ct = markdown in
     (case PutObject s3Key bodyBytes ct newETag w of
        (Inl _, w) \<Rightarrow> (writeError 500 ''internal error'', w)
      | (Inr _, w) \<Rightarrow>
     (case UpsertFile folderID path newETag (int (length bodyBytes)) ct userID '''' w of
        (Inl e, w) \<Rightarrow>
          (if e = ErrETagConflict then writeError 409 ''issue already exists'' else writeError 500 ''internal error'', w)
      | (Inr _, w) \<Rightarrow>
     let w = cache_drop s3Key w;
         w = snd (WriteAuditLog L userID ''post_issue'' (uuid_String L folderID) path '''' newETag
                    (clientIP r) (userAgent r) w);
         ev = enc_IssueChangedEvent
                \<lparr>ic_folderId = uuid_String L folderID, ic_issueId = pr_id req, ic_op = ''created'', ic_etag = Some newETag,
                 ic_actor = uuid_String L userID, ic_ts = nowTS L w\<rparr>;
         w = fanOutEvent L folderID userID ev w
     in (writeETagJSON 201 newETag, w))))))))"

definition DeleteIssueHandler :: "lib \<Rightarrow> request \<Rightarrow> world \<Rightarrow> response \<times> world" where
  "DeleteIssueHandler L r w =
     or_return (resolveUser L r w) (\<lambda>(userID, _) w.
     or_return (parseFolderID L r w) (\<lambda>folderID w.
     let issueID = rq_path r ''id'' in
     if \<not> issueIDPattern_MatchString issueID
     then (writeError 400 bad_issue_id, w)
     else
     or_return (checked (ProjectRole userID folderID w)) (\<lambda>role w.
     or_return (checked (RequireRole role ''editor'', w)) (\<lambda>_ w.
     let ifMatch = rq_header r ''If-Match'' in
     if ifMatch = '''' then (writeError 428 ''If-Match required'', w)
     else
     let path = issueID @ ''.md'';
         s3Key = ''projects/'' @ uuid_String L folderID @ ''/issues/'' @ issueID @ ''.md'' in
     (case DeleteFile folderID path ifMatch w of
        (Inl e, w) \<Rightarrow>
          (if e = ErrETagConflict then writeError 409 ''etag conflict''
           else if e = ErrNoRows then writeError 404 ''issue not found''
           else writeError 500 ''internal error'', w)
      | (Inr _, w) \<Rightarrow>
     let w = snd (DeleteS3Object s3Key w);
         w = cache_drop s3Key w;
         w = snd (WriteAuditLog L userID ''delete_issue'' (uuid_String L folderID) path ifMatch ''''
                    (clientIP r) (userAgent r) w);
         ev = enc_IssueChangedEvent
                \<lparr>ic_folderId = uuid_String L folderID, ic_issueId = issueID, ic_op = ''deleted'', ic_etag = None,
                 ic_actor = uuid_String L userID, ic_ts = nowTS L w\<rparr>;
         w = fanOutEvent L folderID userID ev w
     in (no_content, w))))))"

section \<open>Attachments\<close>

definition PutAttachmentHandler :: "lib \<Rightarrow> request \<Rightarrow> world \<Rightarrow> response \<times> world" where
  "PutAttachmentHandler L r w =
     or_return (resolveUser L r w) (\<lambda>(userID, _) w.
     or_return (parseFolderID L r w) (\<lambda>folderID w.
     let issueID = rq_path r ''id'' in
     if \<not> issueIDPattern_MatchString issueID
     then (writeError 400 bad_issue_id, w)
     else
     let name = rq_path r ''name'' in
     if name = '''' then (writeError 400 ''missing attachment name'', w)
     else
     or_return (checked (ProjectRole userID folderID w)) (\<lambda>role w.
     or_return (checked (RequireRole role ''editor'', w)) (\<lambda>_ w.
     let ifMatch = rq_header r ''If-Match'';
         ifNoneMatch = rq_header r ''If-None-Match'';
         isCreate = (ifNoneMatch = ''*'') in
     if \<not> isCreate \<and> ifMatch = ''''
     then (writeError 428 ''If-Match or If-None-Match: * required'', w)
     else
     or_return (readBody r w) (\<lambda>body w.
     let newETag = computeETag body;
         ct = detectContentType L body;
         path = issueID @ ''/'' @ name;
         s3Key = ''projects/'' @ uuid_String L folderID @ ''/issues/'' @ issueID @ ''/'' @ name in
     case FileExists folderID path w of (old, w) \<Rightarrow>
     let oldETag = old_etag old in
     (case PutObject s3Key body ct newETag w of
        (Inl _, w) \<Rightarrow> (writeError 500 ''internal error'', w)
      | (Inr _, w) \<Rightarrow>
     let matchEtag = (if \<not> isCreate then ifMatch else '''') in
     (case UpsertFile folderID path newETag (int (length body)) ct userID matchEtag w of
        (Inl e, w) \<Rightarrow>
          (if e = ErrETagConflict then writeError 409 ''etag conflict'' else writeError 500 ''internal error'', w)
      | (Inr _, w) \<Rightarrow>
     let w = cache_drop s3Key w;
         w = snd (WriteAuditLog L userID ''put_attachment'' (uuid_String L folderID) path oldETag newETag
                    (clientIP r) (userAgent r) w);
         attachOp = (if isCreate then ''created'' else ''updated'');
         ev = enc_AttachmentChangedEvent
                \<lparr>ac_folderId = uuid_String L folderID, ac_issueId = issueID, ac_name = name, ac_op = attachOp,
                 ac_etag = Some newETag, ac_actor = uuid_String L userID, ac_ts = nowTS L w\<rparr>;
         w = fanOutEvent L folderID userID ev w;
         status = (if isCreate then 201 else 200)
     in (writeETagJSON status newETag, w))))))))"

definition DeleteAttachmentHandler :: "lib \<Rightarrow> request \<Rightarrow> world \<Rightarrow> response \<times> world" where
  "DeleteAttachmentHandler L r w =
     or_return (resolveUser L r w) (\<lambda>(userID, _) w.
     or_return (parseFolderID L r w) (\<lambda>folderID w.
     let issueID = rq_path r ''id'' in
     if \<not> issueIDPattern_MatchString issueID
     then (writeError 400 bad_issue_id, w)
     else
     let name = rq_path r ''name'' in
     if name = '''' then (writeError 400 ''missing attachment name'', w)
     else
     or_return (checked (ProjectRole userID folderID w)) (\<lambda>role w.
     or_return (checked (RequireRole role ''editor'', w)) (\<lambda>_ w.
     let path = issueID @ ''/'' @ name;
         s3Key = ''projects/'' @ uuid_String L folderID @ ''/issues/'' @ issueID @ ''/'' @ name in
     (case db_call (delete_file_any folderID path) w of
        (Inl _, w) \<Rightarrow> (writeError 500 ''internal error'', w)
      | (Inr _, w) \<Rightarrow>
     let w = snd (DeleteS3Object s3Key w);
         w = cache_drop s3Key w;
         w = snd (WriteAuditLog L userID ''delete_attachment'' (uuid_String L folderID) path '''' ''''
                    (clientIP r) (userAgent r) w);
         ev = enc_AttachmentChangedEvent
                \<lparr>ac_folderId = uuid_String L folderID, ac_issueId = issueID, ac_name = name, ac_op = ''deleted'',
                 ac_etag = None, ac_actor = uuid_String L userID, ac_ts = nowTS L w\<rparr>;
         w = fanOutEvent L folderID userID ev w
     in (no_content, w))))))"

section \<open>project.json\<close>

definition PutProjectJSONHandler :: "lib \<Rightarrow> request \<Rightarrow> world \<Rightarrow> response \<times> world" where
  "PutProjectJSONHandler L r w =
     or_return (resolveUser L r w) (\<lambda>(userID, _) w.
     or_return (parseFolderID L r w) (\<lambda>folderID w.
     or_return (checked (ProjectRole userID folderID w)) (\<lambda>role w.
     or_return (checked (RequireRole role ''admin'', w)) (\<lambda>_ w.
     let ifMatch = rq_header r ''If-Match'';
         ifNoneMatch = rq_header r ''If-None-Match'';
         isCreate = (ifNoneMatch = ''*'') in
     if \<not> isCreate \<and> ifMatch = ''''
     then (writeError 428 ''If-Match or If-None-Match: * required'', w)
     else
     or_return (readBody r w) (\<lambda>body w.
     let newETag = computeETag body;
         ct = ''application/json'';
         path = ''project.json'';
         s3Key = ''projects/'' @ uuid_String L folderID @ ''/project.json'' in
     case FileExists folderID path w of (old, w) \<Rightarrow>
     let oldETag = old_etag old in
     (case PutObject s3Key body ct newETag w of
        (Inl _, w) \<Rightarrow> (writeError 500 ''internal error'', w)
      | (Inr _, w) \<Rightarrow>
     let matchEtag = (if \<not> isCreate then ifMatch else '''') in
     (case UpsertFile folderID path newETag (int (length body)) ct userID matchEtag w of
        (Inl e, w) \<Rightarrow>
          (if e = ErrETagConflict then writeError 409 ''etag conflict'' else writeError 500 ''internal error'', w)
      | (Inr _, w) \<Rightarrow>
     let w = cache_drop s3Key w;
         w = snd (WriteAuditLog L userID ''put_project_json'' (uuid_String L folderID) path oldETag newETag
                    (clientIP r) (userAgent r) w);
         ev = enc_ProjectMetaChangedEvent
                \<lparr>pm_folderId = uuid_String L folderID, pm_etag = Some newETag, pm_actor = uuid_String L userID,
                 pm_ts = nowTS L w\<rparr>;
         w = fanOutEvent L folderID userID ev w
     in (writeETagJSON 200 newETag, w))))))))"

section \<open>The common shape\<close>

text \<open>The checks in front of every write, with the handler's own check on the path (\<open>bad\<close>) where
  the source has it: after the folder, before the role.\<close>

definition guarded ::
  "lib \<Rightarrow> request \<Rightarrow> response option \<Rightarrow> string \<Rightarrow> (uuid \<Rightarrow> uuid \<Rightarrow> world \<Rightarrow> response \<times> world) \<Rightarrow> world \<Rightarrow> response \<times> world" where
  "guarded L r bad minRole k w =
     or_return (resolveUser L r w) (\<lambda>(userID, _) w.
     or_return (parseFolderID L r w) (\<lambda>folderID w.
     case bad of Some resp \<Rightarrow> (resp, w) | None \<Rightarrow>
     or_return (checked (ProjectRole userID folderID w)) (\<lambda>role w.
     or_return (checked (RequireRole role minRole, w)) (\<lambda>_ w. k userID folderID w))))"

text \<open>What follows a successful change of the \<open>files\<close> table.\<close>

definition finish ::
  "lib \<Rightarrow> request \<Rightarrow> string \<Rightarrow> string \<Rightarrow> string \<Rightarrow> string \<Rightarrow> string \<Rightarrow> (string \<Rightarrow> json) \<Rightarrow> uuid \<Rightarrow> uuid \<Rightarrow> world \<Rightarrow> world" where
  "finish L r action path key before after ev userID folderID w =
     (let w = cache_drop key w;
          w = snd (WriteAuditLog L userID action (uuid_String L folderID) path before after (clientIP r) (userAgent r) w)
      in fanOutEvent L folderID userID (ev (nowTS L w)) w)"

text \<open>Upload, conditional upsert, and the rest.\<close>

definition store_file ::
  "lib \<Rightarrow> request \<Rightarrow> string \<Rightarrow> string \<Rightarrow> string \<Rightarrow> string \<Rightarrow> string \<Rightarrow> nat \<Rightarrow> string \<Rightarrow> (string \<Rightarrow> string \<Rightarrow> json) \<Rightarrow>
   uuid \<Rightarrow> uuid \<Rightarrow> string \<Rightarrow> bytes \<Rightarrow> world \<Rightarrow> response \<times> world" where
  "store_file L r action path key ct conflict status before ev userID folderID matchEtag body w =
     (case PutObject key body ct (computeETag body) w of
        (Inl _, w) \<Rightarrow> (writeError 500 ''internal error'', w)
      | (Inr _, w) \<Rightarrow>
     (case UpsertFile folderID path (computeETag body) (int (length body)) ct userID matchEtag w of
        (Inl e, w) \<Rightarrow>
          (if e = ErrETagConflict then writeError 409 conflict else writeError 500 ''internal error'', w)
      | (Inr _, w) \<Rightarrow>
     (writeETagJSON status (computeETag body),
      finish L r action path key before (computeETag body) (ev (computeETag body)) userID folderID w)))"

text \<open>A PUT after the checks.\<close>

definition put_file ::
  "lib \<Rightarrow> request \<Rightarrow> string \<Rightarrow> string \<Rightarrow> (uuid \<Rightarrow> string) \<Rightarrow> (bytes \<Rightarrow> string) \<Rightarrow> (bool \<Rightarrow> nat) \<Rightarrow>
   (uuid \<Rightarrow> uuid \<Rightarrow> bool \<Rightarrow> string \<Rightarrow> string \<Rightarrow> json) \<Rightarrow> uuid \<Rightarrow> uuid \<Rightarrow> world \<Rightarrow> response \<times> world" where
  "put_file L r action path key ct status ev userID folderID w =
     (let isCreate = (rq_header r ''If-None-Match'' = ''*'');
          ifMatch = rq_header r ''If-Match'' in
      if \<not> isCreate \<and> ifMatch = '''' then (writeError 428 ''If-Match or If-None-Match: * required'', w)
      else or_return (readBody r w) (\<lambda>body w.
        case FileExists folderID path w of (old, w) \<Rightarrow>
          store_file L r action path (key folderID) (ct body) ''etag conflict'' (status isCreate) (old_etag old)
            (ev folderID userID isCreate) userID folderID (if \<not> isCreate then ifMatch else '''') body w))"

definition bad_id :: "request \<Rightarrow> response option" where
  "bad_id r = (if issueIDPattern_MatchString (rq_path r ''id'') then None else Some (writeError 400 bad_issue_id))"

definition bad_attachment :: "request \<Rightarrow> response option" where
  "bad_attachment r =
     (if \<not> issueIDPattern_MatchString (rq_path r ''id'') then Some (writeError 400 bad_issue_id)
      else if rq_path r ''name'' = '''' then Some (writeError 400 ''missing attachment name'')
      else None)"

definition op_name :: "bool \<Rightarrow> string" where
  "op_name isCreate = (if isCreate then ''created'' else ''updated'')"

lemma PutIssueHandler_eq:
  "PutIssueHandler L r w =
     guarded L r (bad_id r) ''editor''
       (put_file L r ''put_issue'' (rq_path r ''id'' @ ''.md'') (\<lambda>f. issue_key L f (rq_path r ''id'')) (\<lambda>_. markdown) (\<lambda>_. 200)
         (\<lambda>f u c etag ts. enc_IssueChangedEvent
            \<lparr>ic_folderId = uuid_String L f, ic_issueId = rq_path r ''id'', ic_op = op_name c, ic_etag = Some etag,
             ic_actor = uuid_String L u, ic_ts = ts\<rparr>)) w"
  unfolding PutIssueHandler_def guarded_def bad_id_def put_file_def store_file_def finish_def issue_key_def op_name_def
    Let_def
  by (cases "issueIDPattern_MatchString (rq_path r ''id'')") (simp_all only: if_True if_False option.case not_True_eq_False not_False_eq_True refl)

lemma PutAttachmentHandler_eq:
  "PutAttachmentHandler L r w =
     guarded L r (bad_attachment r) ''editor''
       (put_file L r ''put_attachment'' (rq_path r ''id'' @ ''/'' @ rq_path r ''name'')
         (\<lambda>f. attachment_key L f (rq_path r ''id'') (rq_path r ''name'')) (detectContentType L) (\<lambda>c. if c then 201 else 200)
         (\<lambda>f u c etag ts. enc_AttachmentChangedEvent
            \<lparr>ac_folderId = uuid_String L f, ac_issueId = rq_path r ''id'', ac_name = rq_path r ''name'', ac_op = op_name c,
             ac_etag = Some etag, ac_actor = uuid_String L u, ac_ts = ts\<rparr>)) w"
  unfolding PutAttachmentHandler_def guarded_def bad_attachment_def put_file_def store_file_def finish_def
    attachment_key_def op_name_def Let_def
  by (cases "issueIDPattern_MatchString (rq_path r ''id'')"; cases "rq_path r ''name'' = ''''")
     (simp_all only: if_True if_False option.case not_True_eq_False not_False_eq_True refl)

definition project_json_key :: "lib \<Rightarrow> uuid \<Rightarrow> string" where
  "project_json_key L f = ''projects/'' @ uuid_String L f @ ''/project.json''"

lemma PutProjectJSONHandler_eq:
  "PutProjectJSONHandler L r w =
     guarded L r None ''admin''
       (put_file L r ''put_project_json'' ''project.json'' (project_json_key L) (\<lambda>_. ''application/json'') (\<lambda>_. 200)
         (\<lambda>f u c etag ts. enc_ProjectMetaChangedEvent
            \<lparr>pm_folderId = uuid_String L f, pm_etag = Some etag, pm_actor = uuid_String L u, pm_ts = ts\<rparr>)) w"
  unfolding PutProjectJSONHandler_def guarded_def put_file_def store_file_def finish_def project_json_key_def
    Let_def option.case ..

lemma PostIssueHandler_eq:
  "PostIssueHandler L r w =
     guarded L r None ''editor'' (\<lambda>u f w.
       case Option.bind (json_tokenise L (rq_body r)) dec_postIssueRequest of
         None \<Rightarrow> (writeError 400 ''invalid JSON body'', w)
       | Some req \<Rightarrow>
       if \<not> issueIDPattern_MatchString (pr_id req) then (writeError 400 bad_issue_id, w)
       else
       (case FileExists f (pr_id req @ ''.md'') w of
          (Inl _, w) \<Rightarrow> (writeError 500 ''internal error'', w)
        | (Inr (_, ex), w) \<Rightarrow>
       if ex then (writeError 409 ''issue already exists'', w)
       else store_file L r ''post_issue'' (pr_id req @ ''.md'') (issue_key L f (pr_id req)) markdown ''issue already exists'' 201 ''''
         (\<lambda>etag ts. enc_IssueChangedEvent
            \<lparr>ic_folderId = uuid_String L f, ic_issueId = pr_id req, ic_op = ''created'', ic_etag = Some etag,
             ic_actor = uuid_String L u, ic_ts = ts\<rparr>) u f '''' (pr_body req) w)) w"
  unfolding PostIssueHandler_def guarded_def store_file_def finish_def issue_key_def Let_def option.case ..

lemma DeleteIssueHandler_eq:
  "DeleteIssueHandler L r w =
     guarded L r (bad_id r) ''editor'' (\<lambda>u f w.
       if rq_header r ''If-Match'' = '''' then (writeError 428 ''If-Match required'', w)
       else
       (case DeleteFile f (rq_path r ''id'' @ ''.md'') (rq_header r ''If-Match'') w of
          (Inl e, w) \<Rightarrow>
            (if e = ErrETagConflict then writeError 409 ''etag conflict''
             else if e = ErrNoRows then writeError 404 ''issue not found''
             else writeError 500 ''internal error'', w)
        | (Inr _, w) \<Rightarrow>
       (no_content,
        finish L r ''delete_issue'' (rq_path r ''id'' @ ''.md'') (issue_key L f (rq_path r ''id'')) (rq_header r ''If-Match'') ''''
          (\<lambda>ts. enc_IssueChangedEvent
             \<lparr>ic_folderId = uuid_String L f, ic_issueId = rq_path r ''id'', ic_op = ''deleted'', ic_etag = None,
              ic_actor = uuid_String L u, ic_ts = ts\<rparr>) u f
          (snd (DeleteS3Object (issue_key L f (rq_path r ''id'')) w))))) w"
  unfolding DeleteIssueHandler_def guarded_def bad_id_def finish_def issue_key_def Let_def
  by (cases "issueIDPattern_MatchString (rq_path r ''id'')")
     (simp_all only: if_True if_False option.case not_True_eq_False not_False_eq_True refl)

lemma DeleteAttachmentHandler_eq:
  "DeleteAttachmentHandler L r w =
     guarded L r (bad_attachment r) ''editor'' (\<lambda>u f w.
       (case db_call (delete_file_any f (rq_path r ''id'' @ ''/'' @ rq_path r ''name'')) w of
          (Inl _, w) \<Rightarrow> (writeError 500 ''internal error'', w)
        | (Inr _, w) \<Rightarrow>
       (no_content,
        finish L r ''delete_attachment'' (rq_path r ''id'' @ ''/'' @ rq_path r ''name'')
          (attachment_key L f (rq_path r ''id'') (rq_path r ''name'')) '''' ''''
          (\<lambda>ts. enc_AttachmentChangedEvent
             \<lparr>ac_folderId = uuid_String L f, ac_issueId = rq_path r ''id'', ac_name = rq_path r ''name'', ac_op = ''deleted'',
              ac_etag = None, ac_actor = uuid_String L u, ac_ts = ts\<rparr>) u f
          (snd (DeleteS3Object (attachment_key L f (rq_path r ''id'') (rq_path r ''name'')) w))))) w"
  unfolding DeleteAttachmentHandler_def guarded_def bad_attachment_def finish_def attachment_key_def Let_def
  by (cases "issueIDPattern_MatchString (rq_path r ''id'')"; cases "rq_path r ''name'' = ''''")
     (simp_all only: if_True if_False option.case not_True_eq_False not_False_eq_True refl)

section \<open>What the shape guarantees\<close>

lemma db_call_query_one_row_Inl: "db_call (query (\<lambda>d. one_row (g d))) w = (Inl e, w') \<Longrightarrow> e \<in> {ErrNoRows, ErrIO}"
  by (auto simp: db_call_def query_def one_row_def split: prod.splits fate.splits option.splits)

lemma ProjectRole_Inl: "ProjectRole u f w = (Inl e, w') \<Longrightarrow> e \<in> {ErrForbidden, ErrIO}"
  by (auto simp: ProjectRole_def storage_ProjectRole_def split: prod.splits sum.splits err.splits if_splits
      dest!: db_call_query_one_row_Inl)

lemma role_checkE:
  assumes "or_return (checked (ProjectRole u f w)) (\<lambda>role w.
             or_return (checked (RequireRole role minRole, w)) (\<lambda>_ w. k w)) = (resp, w')"
  obtains (refused) "quiet w w'" "rs_status resp \<in> {403, 500}"
  | (passed) role w1 where "quiet w w1" "rank_in (db w) u f = Some (roleRank role)" "roleRank role \<ge> roleRank minRole"
      "k w1 = (resp, w')"
proof -
  obtain x w1 where proj: "ProjectRole u f w = (x, w1)" by fastforce
  note q = ProjectRole_quiet [OF proj]
  show thesis
  proof (cases x)
    case (Inl e)
    with proj assms have "resp = writeErrStatus e \<and> w' = w1" by (simp add: checked_def)
    with q ProjectRole_Inl [OF proj [unfolded Inl]] show thesis
      by (intro refused) (auto simp: writeErrStatus_def writeError_def)
  next
    case (Inr role)
    with proj assms have "or_return (checked (RequireRole role minRole, w1)) (\<lambda>_ w. k w) = (resp, w')"
      by (simp add: checked_def)
    then show thesis
      using passed [OF q ProjectRole_Inr [OF proj [unfolded Inr]]] refused q
      by (auto simp: RequireRole_def checked_def writeErrStatus_def writeError_def split: if_splits)
  qed
qed

lemma guardedE:
  assumes "guarded L r bad minRole k w = (resp, w')"
  obtains (refused) "quiet w w'" "rs_status resp \<in> {400, 401, 403, 500} \<or> bad = Some resp"
  | (passed) u f w1 s where "quiet w w1" "k u f w1 = (resp, w')" "rq_user r = Some s" "uuid_Parse L s = Some u"
      "uuid_Parse L (rq_path r ''folderId'') = Some f" "bad = None"
      "\<exists>rank. rank_in (db w) u f = Some rank \<and> rank \<ge> roleRank minRole" "u \<in> user_ids (db w)"
proof -
  obtain x w1 where res: "resolveUser L r w = (x, w1)" by fastforce
  note q1 = resolveUser_quiet [OF res]
  show thesis
  proof (cases x)
    case (Inl resp1)
    with assms res have "resp = resp1 \<and> w' = w1" by (simp add: guarded_def)
    with res Inl q1 show thesis
      by (intro refused) (auto simp: resolveUser_def writeError_def split: option.splits prod.splits sum.splits)
  next
    case (Inr a)
    obtain u adm where a: "a = (u, adm)" by fastforce
    obtain s usr where user: "rq_user r = Some s" "uuid_Parse L s = Some u" "lookup_by u_id u (users (db w)) = Some usr"
      using resolveUser_Inr [OF res [unfolded Inr a]] by blast
    have u: "u \<in> user_ids (db w)" using lookup_by_Some [OF user(3)] by (auto simp: user_ids_def)
    show thesis
    proof (cases "uuid_Parse L (rq_path r ''folderId'') = None \<or> bad \<noteq> None")
      case True
      with assms res Inr a q1 show thesis
        by (intro refused) (auto simp: guarded_def parseFolderID_def writeError_def split: option.splits)
    next
      case False
      then obtain f where f: "uuid_Parse L (rq_path r ''folderId'') = Some f" "bad = None" by auto
      with assms res Inr a have "or_return (checked (ProjectRole u f w1)) (\<lambda>role w.
            or_return (checked (RequireRole role minRole, w)) (\<lambda>_ w. k u f w)) = (resp, w')"
        by (simp add: guarded_def parseFolderID_def)
      then show thesis
      proof (cases rule: role_checkE)
        case refused
        with q1 show thesis by (auto intro!: that(1) intro: quiet_trans)
      next
        case (passed role w2)
        then show thesis
          using that(2)[OF quiet_trans [OF q1 passed(1)] passed(4) user(1,2) f] u quietD(1)[OF q1] by auto
      qed
    qed
  qed
qed

text \<open>The two logs only grow; nothing else of the database changes.\<close>

definition logs_grow :: "db \<Rightarrow> db \<Rightarrow> bool" where
  "logs_grow d d' \<longleftrightarrow>
     users d' = users d \<and> passkeys d' = passkeys d \<and> invites d' = invites d \<and> sessions d' = sessions d \<and>
     projects d' = projects d \<and> project_members d' = project_members d \<and> files d' = files d \<and>
     (\<exists>es. events d' = events d @ es) \<and> (\<exists>as. audit_log d' = audit_log d @ as)"

lemma logs_grow_refl [simp]: "logs_grow d d"
  by (simp add: logs_grow_def)

lemma logs_grow_trans: "logs_grow d d1 \<Longrightarrow> logs_grow d1 d2 \<Longrightarrow> logs_grow d d2"
  by (auto simp: logs_grow_def)

lemma logs_growD:
  "logs_grow d d' \<Longrightarrow> files d' = files d" "logs_grow d d' \<Longrightarrow> users d' = users d"
  "logs_grow d d' \<Longrightarrow> projects d' = projects d" "logs_grow d d' \<Longrightarrow> project_members d' = project_members d"
  "logs_grow d d' \<Longrightarrow> tag_of d' = tag_of d" "logs_grow d d' \<Longrightarrow> file_of d' = file_of d"
  by (auto simp: logs_grow_def tag_of_def file_of_def fun_eq_iff)

lemma logs_grow_insert_event: "logs_grow d (snd (insert_event f u p t d))"
  by (simp add: insert_event_def logs_grow_def)

lemma logs_grow_insert_audit: "logs_grow d (snd (insert_audit L u act proj path eb ea ip ua t d))"
  by (simp add: insert_audit_def logs_grow_def)

lemma logged_call:
  assumes "\<And>t d. logs_grow d (snd (st t d))" and "keeps_ok st" and "w' = snd (db_call st w)"
  shows "logs_grow (db w) (db w')" "db_ok (db w) \<Longrightarrow> db_ok (db w')"
    "s3 w' = s3 w" "cache w' = cache w" "the_hub w' = the_hub w" "clock w' = clock w"
  using assms(1) [where t = "clock w" and d = "db w"] db_call_db [of st w] db_call_frame [of st w]
    db_call_keeps_ok [OF assms(2), of w]
  unfolding assms(3) by auto

lemma WriteAuditLog_effect:
  assumes "w' = snd (WriteAuditLog L u act proj path eb ea ip ua w)"
  shows "logs_grow (db w) (db w')" "db_ok (db w) \<Longrightarrow> db_ok (db w')"
    "s3 w' = s3 w" "cache w' = cache w" "the_hub w' = the_hub w" "clock w' = clock w"
  using logged_call [OF logs_grow_insert_audit keeps_ok_insert_audit assms [unfolded WriteAuditLog_def Let_def]]
  by simp_all

lemma AppendEvent_effect:
  assumes "w' = snd (AppendEvent f u p w)"
  shows "logs_grow (db w) (db w')" "db_ok (db w) \<Longrightarrow> db_ok (db w')"
    "s3 w' = s3 w" "cache w' = cache w" "the_hub w' = the_hub w" "clock w' = clock w"
  using logged_call [OF logs_grow_insert_event keeps_ok_insert_event assms [unfolded AppendEvent_def]] by simp_all

lemma fanOutEvent_effect:
  assumes "w' = fanOutEvent L f u p w"
  shows "logs_grow (db w) (db w')" "db_ok (db w) \<Longrightarrow> db_ok (db w')" "s3 w' = s3 w" "cache w' = cache w"
    "the_hub w' = map_option (\<lambda>h. hub_Broadcast h (uuid_String L f) p) (the_hub w)" "clock w' = clock w"
  using assms AppendEvent_effect [where f = f and u = u and p = p and w = w, OF refl]
  by (auto simp: fanOutEvent_def split: option.splits)

lemma finish_effect:
  assumes "w' = finish L r action path key before after ev u f w"
  shows "logs_grow (db w) (db w')" "db_ok (db w) \<Longrightarrow> db_ok (db w')" "s3 w' = s3 w" "clock w' = clock w"
    "cache w' = map_option (\<lambda>c. lru_Delete c key) (cache w)"
    "the_hub w' = map_option (\<lambda>h. hub_Broadcast h (uuid_String L f) (ev (nowTS L w))) (the_hub w)"
proof -
  let ?w1 = "cache_drop key w"
  let ?w2 = "snd (WriteAuditLog L u action (uuid_String L f) path before after (clientIP r) (userAgent r) ?w1)"
  have a: "logs_grow (db ?w1) (db ?w2)" "db_ok (db ?w1) \<Longrightarrow> db_ok (db ?w2)" "s3 ?w2 = s3 ?w1" "cache ?w2 = cache ?w1"
    "the_hub ?w2 = the_hub ?w1" "clock ?w2 = clock ?w1"
    by (rule WriteAuditLog_effect [OF refl], assumption?)+
  note e = fanOutEvent_effect [where w = ?w2 and L = L and f = f and u = u and p = "ev (nowTS L ?w2)", OF refl]
  have w': "w' = fanOutEvent L f u (ev (nowTS L ?w2)) ?w2"
    using assms by (simp add: finish_def Let_def)
  have c: "db ?w1 = db w" "s3 ?w1 = s3 w" "clock ?w1 = clock w" "the_hub ?w1 = the_hub w"
    "cache ?w1 = map_option (\<lambda>c. lru_Delete c key) (cache w)" by (simp_all add: cache_drop_def)
  show "logs_grow (db w) (db w')" using logs_grow_trans [OF a(1) e(1)] w' c(1) by simp
  show "db_ok (db w) \<Longrightarrow> db_ok (db w')" using a(2) e(2) w' c(1) by simp
  show "s3 w' = s3 w" "clock w' = clock w" "cache w' = map_option (\<lambda>c. lru_Delete c key) (cache w)"
    using a e c w' by simp_all
  show "the_hub w' = map_option (\<lambda>h. hub_Broadcast h (uuid_String L f) (ev (nowTS L w))) (the_hub w)"
    using a e c w' by (simp add: nowTS_def)
qed

text \<open>Without failures, the two logs after \<open>finish\<close>: the event, when there is a hub, and the audit row,
  when the address of the client can be stored.\<close>

definition audit_entry ::
  "request \<Rightarrow> string \<Rightarrow> string \<Rightarrow> string \<Rightarrow> string \<Rightarrow> uuid \<Rightarrow> uuid \<Rightarrow> world \<Rightarrow> audit_row" where
  "audit_entry r action path before after u f w =
     \<lparr>a_id = audit_seq (db w), a_actor = u, a_action = action, a_project_id = Some f, a_path = path,
      a_etag_before = nullStr before, a_etag_after = nullStr after, a_ip = nullStr (clientIP r),
      a_user_agent = userAgent r, a_created_at = clock w\<rparr>"

definition event_entry :: "json \<Rightarrow> uuid \<Rightarrow> uuid \<Rightarrow> world \<Rightarrow> event_row" where
  "event_entry payload u f w = \<lparr>ev_id = events_seq (db w), ev_project_id = f, ev_payload = payload, ev_actor = u,
     ev_created_at = clock w\<rparr>"

definition storable_ip :: "lib \<Rightarrow> request \<Rightarrow> bool" where
  "storable_ip L r \<longleftrightarrow> clientIP r = '''' \<or> inet_cast L (clientIP r)"

lemma finish_Done:
  assumes "fates w = []" and "uuid_laws L" and "u \<in> user_ids (db w)" and "f \<in> project_ids (db w)"
    and "w' = finish L r action path key before after ev u f w"
  shows "audit_log (db w') = audit_log (db w) @ (if storable_ip L r then [audit_entry r action path before after u f w] else [])"
    and "events (db w') = events (db w) @ (if the_hub w = None then [] else [event_entry (ev (nowTS L w)) u f w])"
proof -
  have ne: "uuid_String L f \<noteq> ''''" "uuid_Parse L (uuid_String L f) = Some f"
    using assms(2) by (auto simp: uuid_laws_def) (metis option.distinct(1))
  define w2 where "w2 = snd (WriteAuditLog L u action (uuid_String L f) path before after (clientIP r) (userAgent r) (cache_drop key w))"
  have w2: "fates w2 = []" "user_ids (db w2) = user_ids (db w)" "project_ids (db w2) = project_ids (db w)"
      "events (db w2) = events (db w)" "events_seq (db w2) = events_seq (db w)" "the_hub w2 = the_hub w" "clock w2 = clock w"
      "audit_log (db w2) = audit_log (db w) @ (if storable_ip L r then [audit_entry r action path before after u f w] else [])"
    using assms(1,3,4) ne
    by (auto simp: w2_def WriteAuditLog_def Let_def db_call_Done cache_drop_def insert_audit_def user_ids_def project_ids_def
        storable_ip_def audit_entry_def nullStr_def)
  have "w' = fanOutEvent L f u (ev (nowTS L w)) w2"
    using assms(5) w2(7) by (simp add: finish_def Let_def w2_def nowTS_def)
  then show "audit_log (db w') = audit_log (db w) @ (if storable_ip L r then [audit_entry r action path before after u f w] else [])"
    and "events (db w') = events (db w) @ (if the_hub w = None then [] else [event_entry (ev (nowTS L w)) u f w])"
    using assms(3,4) w2
    by (auto simp: fanOutEvent_def AppendEvent_def db_call_Done insert_event_def event_entry_def split: option.splits)
qed

section \<open>Storing a file\<close>

definition stored :: "bytes \<Rightarrow> string \<Rightarrow> object" where
  "stored body ct = \<lparr>o_body = body, o_content_type = ct, o_meta_etag = computeETag body\<rparr>"

text \<open>The row that a successful upsert leaves.\<close>

definition row_written :: "db \<Rightarrow> uuid \<Rightarrow> string \<Rightarrow> bytes \<Rightarrow> string \<Rightarrow> time \<Rightarrow> uuid \<Rightarrow> bool" where
  "row_written d f path body ct t u \<longleftrightarrow>
     (case file_of d f path of
        None \<Rightarrow> False
      | Some row \<Rightarrow> f_etag row = computeETag body \<and> f_size row = int (length body) \<and> f_content_type row = ct \<and>
          f_modified_at row = t \<and> f_modified_by row = u)"

text \<open>Only the rows of \<open>files\<close> and the two logs have changed, and the schema's constraints hold.\<close>

definition files_step :: "db \<Rightarrow> db \<Rightarrow> bool" where
  "files_step d d' \<longleftrightarrow> db_ok d' \<and> (\<exists>fs. logs_grow (d\<lparr>files := fs\<rparr>) d')"

lemma files_stepI: "db_ok d' \<Longrightarrow> d' = d\<lparr>files := fs\<rparr> \<Longrightarrow> files_step d d'"
  by (auto simp: files_step_def intro: exI [of _ fs])

lemma files_step_refl: "db_ok d \<Longrightarrow> files_step d d"
  by (rule files_stepI [where fs = "files d"]) simp_all

lemma files_step_users: "files_step d d' \<Longrightarrow> users d' = users d \<and> projects d' = projects d \<and> project_members d' = project_members d"
  by (auto simp: files_step_def logs_grow_def)

lemma written_project: "row_written d f path body ct t u \<Longrightarrow> files_step d0 d \<Longrightarrow> f \<in> project_ids d"
  using db_ok_filesD(2)[of d]
  by (auto simp: row_written_def files_step_def file_of_def file_key_def split: option.splits dest!: lookup_by_Some)

lemma fates_put: "PutObject key body ct etag w = (x, w') \<Longrightarrow> fates w = [] \<longrightarrow> fates w' = []"
  using s3_call_fates by (metis PutObject_def snd_conv)

lemma fates_upsert: "UpsertFile f path etag sz ct u m w = (x, w') \<Longrightarrow> fates w = [] \<longrightarrow> fates w' = []"
  using db_call_fates [of w "upsert_stmt f path etag sz ct u m"]
  by (auto simp: UpsertFile_upsert_stmt split: prod.splits sum.splits if_splits)

lemma store_fileE:
  assumes ok: "db_ok (db w)"
    and run: "store_file L r action path key ct conflict status before ev u f m body w = (resp, w')"
  obtains
    (stored) "resp = writeETagJSON status (computeETag body)" "tag_of (db w) (f, path) = expected_tag m"
      "tag_of (db w') = (tag_of (db w))((f, path) := Some (computeETag body))"
      "row_written (db w') f path body ct (clock w) u" "s3 w' = (s3 w)(key \<mapsto> stored body ct)" "files_step (db w) (db w')"
      "cache w' = map_option (\<lambda>c. lru_Delete c key) (cache w)"
      "the_hub w' = map_option (\<lambda>h. hub_Broadcast h (uuid_String L f) (ev (computeETag body) (nowTS L w))) (the_hub w)"
      "\<exists>w2 fs. w' = finish L r action path key before (computeETag body) (ev (computeETag body)) u f w2 \<and>
         db w2 = (db w)\<lparr>files := fs\<rparr> \<and> the_hub w2 = the_hub w \<and> clock w2 = clock w \<and> (fates w = [] \<longrightarrow> fates w2 = [])"
  | (conflict) "resp = writeError 409 conflict" "tag_of (db w) (f, path) \<noteq> expected_tag m" "tag_of (db w') = tag_of (db w)"
      "s3 w' = (s3 w)(key \<mapsto> stored body ct)" "files_step (db w) (db w')"
  | (failed) "resp = writeError 500 ''internal error''" "s3 w' \<in> {s3 w, (s3 w)(key \<mapsto> stored body ct)}"
      "tag_of (db w') = tag_of (db w) \<or> tag_of (db w) (f, path) = expected_tag m \<and>
         tag_of (db w') = (tag_of (db w))((f, path) := Some (computeETag body))"
      "files_step (db w) (db w')"
proof -
  let ?etag = "computeETag body"
  obtain p w1 where put: "PutObject key body ct ?etag w = (p, w1)" by fastforce
  have w1: "db w1 = db w" "cache w1 = cache w" "the_hub w1 = the_hub w" "clock w1 = clock w"
    using PutObject_frame [of key body ct ?etag w] put by simp_all
  have s3': "s3 w1 \<in> {s3 w, (s3 w)(key \<mapsto> stored body ct)}"
    using PutObject_s3 [of key body ct ?etag w] put by (simp add: stored_def)
  show thesis
  proof (cases p)
    case (Inl e)
    with run put have "resp = writeError 500 ''internal error'' \<and> w' = w1" by (simp add: store_file_def)
    then show thesis using failed s3' w1(1) files_step_refl [OF ok] by simp
  next
    case (Inr _)
    then have s3_1: "s3 w1 = (s3 w)(key \<mapsto> stored body ct)" using PutObject_Inr put by (simp add: stored_def)
    obtain q w2 where ups: "UpsertFile f path ?etag (int (length body)) ct u m w1 = (q, w2)" by fastforce
    note res = UpsertFile_result [OF ok [folded w1(1)] ups, unfolded w1 s3_1]
    obtain fs where fs: "db w2 = (db w)\<lparr>files := fs\<rparr>" using res(5) by blast
    show thesis
    proof (cases q)
      case e: (Inl e)
      have "resp = (if e = ErrETagConflict then writeError 409 conflict else writeError 500 ''internal error'') \<and> w' = w2"
        using run put Inr ups e by (simp add: store_file_def)
      then show thesis
        using conflict failed res(3,4) e res(6) files_stepI [OF res(1) fs] by (cases "e = ErrETagConflict") simp_all
    next
      case dn: (Inr _)
      have resp: "resp = writeETagJSON status ?etag"
        and w': "w' = finish L r action path key before ?etag (ev ?etag) u f w2"
        using run put Inr ups dn by (simp_all add: store_file_def)
      note fin = finish_effect [OF w']
      have "files_step (db w) (db w')"
        using fin(1,2) res(1) fs by (auto simp: files_step_def)
      moreover have "row_written (db w') f path body ct (clock w) u"
        using res(2) dn by (auto simp: row_written_def logs_growD(6)[OF fin(1)])
      moreover have "tag_of (db w') = tag_of (db w2)" by (rule logs_growD(5)[OF fin(1)])
      moreover have "\<exists>w2 fs. w' = finish L r action path key before ?etag (ev ?etag) u f w2 \<and> db w2 = (db w)\<lparr>files := fs\<rparr> \<and>
          the_hub w2 = the_hub w \<and> clock w2 = clock w \<and> (fates w = [] \<longrightarrow> fates w2 = [])"
        using w' fs res(8,9) fates_put [OF put] fates_upsert [OF ups] by blast
      ultimately show thesis
        using stored resp res(2,6-9) dn fin by (simp add: nowTS_def)
    qed
  qed
qed

section \<open>The contract of a PUT\<close>

definition match_etag :: "request \<Rightarrow> string" where
  "match_etag r = (if rq_header r ''If-None-Match'' \<noteq> ''*'' then rq_header r ''If-Match'' else '''')"

text \<open>The user of the request holds at least the given role in the folder of the request.\<close>

definition allowed :: "lib \<Rightarrow> request \<Rightarrow> string \<Rightarrow> db \<Rightarrow> uuid \<Rightarrow> uuid \<Rightarrow> bool" where
  "allowed L r minRole d u f \<longleftrightarrow>
     Option.bind (rq_user r) (uuid_Parse L) = Some u \<and> uuid_Parse L (rq_path r ''folderId'') = Some f \<and>
     u \<in> user_ids d \<and> (case rank_in d u f of None \<Rightarrow> False | Some k \<Rightarrow> roleRank minRole \<le> k)"

lemma FileExists_quiet: "FileExists f path w = (x, w') \<Longrightarrow> quiet w w'"
  by (auto simp: FileExists_def split: prod.splits sum.splits err.splits dest: quiet_query)

locale put_handler =
  fixes handler :: "lib \<Rightarrow> request \<Rightarrow> world \<Rightarrow> response \<times> world"
    and bad :: "request \<Rightarrow> response option"
    and minRole :: string
    and action :: string
    and path :: "request \<Rightarrow> string"
    and key :: "lib \<Rightarrow> request \<Rightarrow> uuid \<Rightarrow> string"
    and ct :: "lib \<Rightarrow> bytes \<Rightarrow> string"
    and status :: "bool \<Rightarrow> nat"
    and ev :: "lib \<Rightarrow> request \<Rightarrow> uuid \<Rightarrow> uuid \<Rightarrow> bool \<Rightarrow> string \<Rightarrow> string \<Rightarrow> json"
  assumes shape: "handler L r w =
      guarded L r (bad r) minRole (put_file L r action (path r) (key L r) (ct L) status (ev L r)) w"
    and bad_400: "bad r = Some resp \<Longrightarrow> rs_status resp = 400"
    and ok_status: "status c \<in> {200, 201}"
begin

text \<open>A PUT either stops before it touches anything, or it gets to \<open>store_file\<close> with everything checked.\<close>

lemma handlerE:
  assumes "handler L r w = (resp, w')"
  obtains (stopped) "quiet w w'" "rs_status resp \<in> {400, 401, 403, 413, 428, 500}"
  | (reached) u f w1 old where "quiet w w1" "allowed L r minRole (db w) u f" "bad r = None"
      "length (rq_body r) \<le> maxBodySize" "rq_header r ''If-None-Match'' = ''*'' \<or> rq_header r ''If-Match'' \<noteq> ''''"
      "store_file L r action (path r) (key L r f) (ct L (rq_body r)) ''etag conflict''
         (status (rq_header r ''If-None-Match'' = ''*'')) old (ev L r f u (rq_header r ''If-None-Match'' = ''*''))
         u f (match_etag r) (rq_body r) w1 = (resp, w')"
  using assms [unfolded shape]
proof (cases rule: guardedE)
  case refused
  then show thesis using stopped bad_400 by fastforce
next
  case (passed u f w1 s)
  have al: "allowed L r minRole (db w) u f" using passed by (auto simp: allowed_def)
  show thesis
  proof (cases "rq_header r ''If-None-Match'' \<noteq> ''*'' \<and> rq_header r ''If-Match'' = '''' \<or>
      length (rq_body r) > maxBodySize \<or> \<not> rq_body_eof r")
    case True
    with passed(2) have "w' = w1 \<and> rs_status resp \<in> {400, 413, 428}"
      by (auto simp: put_file_def Let_def readBody_def writeError_def split: if_splits)
    with passed(1) show thesis by (intro stopped) auto
  next
    case False
    obtain x w2 where fe: "FileExists f (path r) w1 = (x, w2)" by fastforce
    show thesis
      using reached [OF quiet_trans [OF passed(1) FileExists_quiet [OF fe]] al passed(6)] passed(2) False fe
      by (auto simp: put_file_def Let_def readBody_def match_etag_def split: if_splits)
  qed
qed

lemma accepted:
  assumes ok: "db_ok (db w)" and run: "handler L r w = (resp, w')" and st: "rs_status resp \<in> {200, 201}"
  shows "\<exists>u f. allowed L r minRole (db w) u f \<and> bad r = None \<and> length (rq_body r) \<le> maxBodySize \<and>
    resp = writeETagJSON (status (rq_header r ''If-None-Match'' = ''*'')) (computeETag (rq_body r)) \<and>
    tag_of (db w) (f, path r) = expected_tag (match_etag r) \<and>
    tag_of (db w') = (tag_of (db w))((f, path r) := Some (computeETag (rq_body r))) \<and>
    row_written (db w') f (path r) (rq_body r) (ct L (rq_body r)) (clock w) u \<and>
    s3 w' = (s3 w)(key L r f \<mapsto> stored (rq_body r) (ct L (rq_body r))) \<and> files_step (db w) (db w') \<and>
    cache w' = map_option (\<lambda>c. lru_Delete c (key L r f)) (cache w) \<and>
    the_hub w' = map_option (\<lambda>h. hub_Broadcast h (uuid_String L f)
      (ev L r f u (rq_header r ''If-None-Match'' = ''*'') (computeETag (rq_body r)) (nowTS L w))) (the_hub w)"
  using run
proof (cases rule: handlerE)
  case stopped
  with st show ?thesis by auto
next
  case (reached u f w1 old)
  note w1 = quietD [OF reached(1)]
  from ok [folded w1(1)] reached(6) show ?thesis
  proof (cases rule: store_fileE)
    case stored
    then show ?thesis using reached w1 by (intro exI [of _ u] exI [of _ f]) (simp add: nowTS_def)
  qed (use st in \<open>simp_all add: writeError_def\<close>)
qed

lemma accepted_logs:
  assumes ok: "db_ok (db w)" and run: "handler L r w = (resp, w')" and st: "rs_status resp \<in> {200, 201}"
    and calm: "fates w = []" "uuid_laws L"
  shows "\<exists>u f old. allowed L r minRole (db w) u f \<and>
    events (db w') = events (db w) @ (if the_hub w = None then [] else
      [event_entry (ev L r f u (rq_header r ''If-None-Match'' = ''*'') (computeETag (rq_body r)) (nowTS L w)) u f w]) \<and>
    audit_log (db w') = audit_log (db w) @ (if storable_ip L r then
      [audit_entry r action (path r) old (computeETag (rq_body r)) u f w] else [])"
  using run
proof (cases rule: handlerE)
  case stopped
  with st show ?thesis by auto
next
  case (reached u f w1 old)
  note w1 = quietD(1-5)[OF reached(1)] quietD(6)[OF reached(1) calm(1)]
  from ok [folded w1(1)] reached(6) show ?thesis
  proof (cases rule: store_fileE)
    case stored
    obtain w2 fs where w2: "w' = finish L r action (path r) (key L r f) old (computeETag (rq_body r))
        (ev L r f u (rq_header r ''If-None-Match'' = ''*'') (computeETag (rq_body r))) u f w2"
      "db w2 = (db w1)\<lparr>files := fs\<rparr>" "the_hub w2 = the_hub w1" "clock w2 = clock w1" "fates w1 = [] \<longrightarrow> fates w2 = []"
      using stored(9) by blast
    have "f \<in> project_ids (db w')"
      using stored(4,6) by (rule written_project)
    then have uf: "u \<in> user_ids (db w2)" "f \<in> project_ids (db w2)"
      using files_step_users [OF stored(6)] reached(2) w2(2) w1 by (simp_all add: allowed_def user_ids_def project_ids_def)
    have calm2: "fates w2 = []" using w2(5) w1 by simp
    note fin = finish_Done [OF calm2 calm(2) uf w2(1)]
    have same: "event_entry p u f w2 = event_entry p u f w" "audit_entry r action (path r) old a u f w2 = audit_entry r action (path r) old a u f w"
      "nowTS L w2 = nowTS L w" for p a
      using w2 w1 by (simp_all add: event_entry_def audit_entry_def nowTS_def)
    show ?thesis
      using fin reached(2) w2(2,3) w1 unfolding same by (intro exI [of _ u] exI [of _ f] exI [of _ old]) simp
  qed (use st in \<open>simp_all add: writeError_def\<close>)
qed

lemma statuses:
  assumes "db_ok (db w)" and "handler L r w = (resp, w')"
  shows "rs_status resp \<in> {200, 201, 400, 401, 403, 409, 413, 428, 500}"
    and "rs_status resp \<in> {400, 401, 403, 413, 428} \<Longrightarrow> quiet w w'"
proof -
  have "rs_status resp \<in> {200, 201, 409, 500} \<or> quiet w w' \<and> rs_status resp \<in> {400, 401, 403, 413, 428, 500}"
    using assms(2)
  proof (cases rule: handlerE)
    case (reached u f w1 old)
    have "rs_status resp \<in> {200, 201, 409, 500}"
      using assms(1) [folded quietD(1)[OF reached(1)]] reached(6)
      by (cases rule: store_fileE) (use ok_status in \<open>auto simp: writeError_def writeETagJSON_def\<close>)
    then show ?thesis ..
  qed simp
  then show "rs_status resp \<in> {200, 201, 400, 401, 403, 409, 413, 428, 500}"
    and "rs_status resp \<in> {400, 401, 403, 413, 428} \<Longrightarrow> quiet w w'" by auto
qed

lemma conflicted:
  assumes ok: "db_ok (db w)" and run: "handler L r w = (resp, w')" and st: "rs_status resp = 409"
  shows "\<exists>u f. allowed L r minRole (db w) u f \<and> tag_of (db w) (f, path r) \<noteq> expected_tag (match_etag r) \<and>
    tag_of (db w') = tag_of (db w) \<and> s3 w' = (s3 w)(key L r f \<mapsto> stored (rq_body r) (ct L (rq_body r)))"
  using run
proof (cases rule: handlerE)
  case stopped
  with st show ?thesis by auto
next
  case (reached u f w1 old)
  note w1 = quietD [OF reached(1)]
  from ok [folded w1(1)] reached(6) show ?thesis
  proof (cases rule: store_fileE)
    case conflict
    then show ?thesis using reached w1 by (intro exI [of _ u] exI [of _ f]) simp
  next
    case stored
    then show ?thesis using st ok_status [of "rq_header r ''If-None-Match'' = ''*''"] by (auto simp: writeETagJSON_def)
  qed (use st in \<open>simp_all add: writeError_def\<close>)
qed

lemma keeps_schema:
  assumes ok: "db_ok (db w)" and run: "handler L r w = (resp, w')"
  shows "files_step (db w) (db w')"
  using run
proof (cases rule: handlerE)
  case stopped
  then show ?thesis using files_step_refl ok by (simp add: quietD)
next
  case (reached u f w1 old)
  from ok [folded quietD(1)[OF reached(1)]] reached(6) show ?thesis
    by (cases rule: store_fileE) (simp_all add: quietD(1)[OF reached(1)])
qed

text \<open>Whatever the answer, the tags move by at most the request's own write, and only over the tag
  that the request expects.\<close>

lemma tags_move:
  assumes ok: "db_ok (db w)" and run: "handler L r w = (resp, w')"
  shows "tag_of (db w') = tag_of (db w) \<or>
    (\<exists>f. uuid_Parse L (rq_path r ''folderId'') = Some f \<and> tag_of (db w) (f, path r) = expected_tag (match_etag r) \<and>
       tag_of (db w') = (tag_of (db w))((f, path r) := Some (computeETag (rq_body r))))"
  using run
proof (cases rule: handlerE)
  case stopped
  then show ?thesis by (simp add: quietD)
next
  case (reached u f w1 old)
  note w1 = quietD [OF reached(1)]
  have f: "uuid_Parse L (rq_path r ''folderId'') = Some f" using reached(2) by (simp add: allowed_def)
  from ok [folded w1(1)] reached(6) show ?thesis
    by (cases rule: store_fileE) (use f w1 in auto)
qed

end

section \<open>The three PUT handlers meet the contract\<close>

definition issue_event :: "lib \<Rightarrow> request \<Rightarrow> uuid \<Rightarrow> uuid \<Rightarrow> bool \<Rightarrow> string \<Rightarrow> string \<Rightarrow> json" where
  "issue_event L r f u c etag ts = enc_IssueChangedEvent
     \<lparr>ic_folderId = uuid_String L f, ic_issueId = rq_path r ''id'', ic_op = op_name c, ic_etag = Some etag,
      ic_actor = uuid_String L u, ic_ts = ts\<rparr>"

definition attachment_event :: "lib \<Rightarrow> request \<Rightarrow> uuid \<Rightarrow> uuid \<Rightarrow> bool \<Rightarrow> string \<Rightarrow> string \<Rightarrow> json" where
  "attachment_event L r f u c etag ts = enc_AttachmentChangedEvent
     \<lparr>ac_folderId = uuid_String L f, ac_issueId = rq_path r ''id'', ac_name = rq_path r ''name'', ac_op = op_name c,
      ac_etag = Some etag, ac_actor = uuid_String L u, ac_ts = ts\<rparr>"

definition meta_event :: "lib \<Rightarrow> request \<Rightarrow> uuid \<Rightarrow> uuid \<Rightarrow> bool \<Rightarrow> string \<Rightarrow> string \<Rightarrow> json" where
  "meta_event L r f u c etag ts = enc_ProjectMetaChangedEvent
     \<lparr>pm_folderId = uuid_String L f, pm_etag = Some etag, pm_actor = uuid_String L u, pm_ts = ts\<rparr>"

definition issue_path :: "request \<Rightarrow> string" where
  "issue_path r = rq_path r ''id'' @ ''.md''"

definition attachment_path :: "request \<Rightarrow> string" where
  "attachment_path r = rq_path r ''id'' @ ''/'' @ rq_path r ''name''"

lemma bad_path_400:
  "bad_id r = Some resp \<Longrightarrow> rs_status resp = 400" "bad_attachment r = Some resp \<Longrightarrow> rs_status resp = 400"
  by (auto simp: bad_id_def bad_attachment_def writeError_def split: if_splits)

interpretation put_issue: put_handler PutIssueHandler bad_id "''editor''" "''put_issue''" issue_path
  "\<lambda>L r f. issue_key L f (rq_path r ''id'')" "\<lambda>L _. markdown" "\<lambda>_. 200" issue_event
  by unfold_locales (simp_all add: PutIssueHandler_eq issue_path_def issue_event_def [abs_def] bad_path_400)

interpretation put_attachment: put_handler PutAttachmentHandler bad_attachment "''editor''" "''put_attachment''"
  attachment_path "\<lambda>L r f. attachment_key L f (rq_path r ''id'') (rq_path r ''name'')" detectContentType
  "\<lambda>c. if c then 201 else 200" attachment_event
  by unfold_locales (simp_all add: PutAttachmentHandler_eq attachment_path_def attachment_event_def [abs_def] bad_path_400)

interpretation put_project_json: put_handler PutProjectJSONHandler "\<lambda>_. None" "''admin''" "''put_project_json''"
  "\<lambda>_. ''project.json''" "\<lambda>L r. project_json_key L" "\<lambda>L _. ''application/json''" "\<lambda>_. 200" meta_event
  by unfold_locales (simp_all add: PutProjectJSONHandler_eq meta_event_def [abs_def])

section \<open>POST and DELETE\<close>

definition post_request :: "lib \<Rightarrow> request \<Rightarrow> postIssueRequest option" where
  "post_request L r = Option.bind (json_tokenise L (rq_body r)) dec_postIssueRequest"

lemma FileExists_Inr: "FileExists f path w = (Inr (t, ex), w') \<Longrightarrow> tag_of (db w) (f, path) = (if ex then Some t else None)"
  by (auto simp: FileExists_def tag_of_def one_row_def db_call_def query_def next_fate_keeps
      split: prod.splits sum.splits err.splits option.splits fate.splits)

lemma PostIssueHandlerE:
  assumes "PostIssueHandler L r w = (resp, w')"
  obtains (stopped) "quiet w w'" "rs_status resp \<in> {400, 401, 403, 409, 500}"
  | (reached) u f req w1 where "quiet w w1" "allowed L r ''editor'' (db w) u f" "post_request L r = Some req"
      "issueIDPattern_MatchString (pr_id req)" "tag_of (db w) (f, pr_id req @ ''.md'') = None"
      "store_file L r ''post_issue'' (pr_id req @ ''.md'') (issue_key L f (pr_id req)) markdown ''issue already exists'' 201 ''''
         (\<lambda>etag ts. enc_IssueChangedEvent
            \<lparr>ic_folderId = uuid_String L f, ic_issueId = pr_id req, ic_op = ''created'', ic_etag = Some etag,
             ic_actor = uuid_String L u, ic_ts = ts\<rparr>) u f '''' (pr_body req) w1 = (resp, w')"
  using assms [unfolded PostIssueHandler_eq]
proof (cases rule: guardedE)
  case refused
  then show thesis using stopped by fastforce
next
  case (passed u f w1 s)
  have al: "allowed L r ''editor'' (db w) u f" using passed by (auto simp: allowed_def)
  show thesis
  proof (cases "post_request L r")
    case None
    with passed(2) have "w' = w1 \<and> rs_status resp = 400" by (auto simp: post_request_def writeError_def)
    with passed(1) show thesis by (intro stopped) auto
  next
    case (Some req)
    obtain x w2 where fe: "FileExists f (pr_id req @ ''.md'') w1 = (x, w2)" by fastforce
    note q = quiet_trans [OF passed(1) FileExists_quiet [OF fe]]
    show thesis
    proof (cases "issueIDPattern_MatchString (pr_id req) \<and> (\<exists>t. x = Inr (t, False))")
      case True
      then obtain t where t: "x = Inr (t, False)" by blast
      have "tag_of (db w) (f, pr_id req @ ''.md'') = None"
        using FileExists_Inr fe t quietD(1)[OF passed(1)] by fastforce
      with reached [OF q al Some] passed(2) Some fe True t show thesis by (simp add: post_request_def)
    next
      case False
      with passed(2) Some fe q passed(1) show thesis
        by (intro stopped) (auto simp: post_request_def writeError_def split: if_splits sum.splits)
    qed
  qed
qed

text \<open>The world after a completed DELETE: the row is gone, and the object unless the bucket failed.\<close>

lemma DeleteIssueHandlerE:
  assumes ok: "db_ok (db w)" and run: "DeleteIssueHandler L r w = (resp, w')"
  obtains (stopped) "quiet w w'" "rs_status resp \<in> {400, 401, 403, 428, 500}"
  | (deleted) u f where "resp = no_content" "allowed L r ''editor'' (db w) u f" "bad_id r = None"
      "tag_of (db w) (f, issue_path r) = Some (rq_header r ''If-Match'')"
      "tag_of (db w') = (tag_of (db w))((f, issue_path r) := None)" "files_step (db w) (db w')"
      "s3 w' \<in> {s3 w, (s3 w)(issue_key L f (rq_path r ''id'') := None)}"
  | (failed) u f where "rs_status resp \<in> {404, 409, 500}" "allowed L r ''editor'' (db w) u f" "s3 w' = s3 w"
      "files_step (db w) (db w')"
      "tag_of (db w') = tag_of (db w) \<or> tag_of (db w) (f, issue_path r) = Some (rq_header r ''If-Match'') \<and>
         tag_of (db w') = (tag_of (db w))((f, issue_path r) := None)"
  using run [unfolded DeleteIssueHandler_eq]
proof (cases rule: guardedE)
  case refused
  then show thesis using stopped bad_path_400(1) by fastforce
next
  case (passed u f w1 s)
  have al: "allowed L r ''editor'' (db w) u f" using passed by (auto simp: allowed_def)
  note w1 = quietD [OF passed(1)]
  show thesis
  proof (cases "rq_header r ''If-Match'' = ''''")
    case True
    with passed(1,2) show thesis by (intro stopped) (auto simp: writeError_def)
  next
    case False
    obtain q w2 where del: "DeleteFile f (issue_path r) (rq_header r ''If-Match'') w1 = (q, w2)" by fastforce
    note res = DeleteFile_result [OF ok [folded w1(1)] del, unfolded w1]
    obtain fs where fs: "db w2 = (db w)\<lparr>files := fs\<rparr>" using res(4) by blast
    show thesis
    proof (cases q)
      case (Inl e)
      with passed(2) False del have "w' = w2 \<and> rs_status resp \<in> {404, 409, 500}"
        by (auto simp: issue_path_def writeError_def split: if_splits)
      then show thesis using failed al res(3,5) Inl files_stepI [OF res(1) fs] by auto
    next
      case (Inr _)
      let ?key = "issue_key L f (rq_path r ''id'')"
      let ?ev = "\<lambda>ts. enc_IssueChangedEvent \<lparr>ic_folderId = uuid_String L f, ic_issueId = rq_path r ''id'',
        ic_op = ''deleted'', ic_etag = None, ic_actor = uuid_String L u, ic_ts = ts\<rparr>"
      have resp: "resp = no_content" and w': "w' = finish L r ''delete_issue'' (issue_path r) ?key
          (rq_header r ''If-Match'') '''' ?ev u f (snd (DeleteS3Object ?key w2))"
        using passed(2) False del Inr by (simp_all add: issue_path_def)
      note fin = finish_effect [OF w', unfolded DeleteS3Object_frame]
      have "files_step (db w) (db w')" using fin(1,2) res(1) fs by (auto simp: files_step_def)
      moreover have "s3 w' \<in> {s3 w, (s3 w)(?key := None)}"
        using fin(3) DeleteS3Object_s3 [of ?key w2] res(5) by simp
      ultimately show thesis
        using deleted [OF resp al passed(6)] res(2) Inr logs_growD(5)[OF fin(1)] by simp
    qed
  qed
qed

lemma DeleteAttachmentHandlerE:
  assumes ok: "db_ok (db w)" and run: "DeleteAttachmentHandler L r w = (resp, w')"
  obtains (stopped) "quiet w w'" "rs_status resp \<in> {400, 401, 403, 500}"
  | (deleted) u f where "resp = no_content" "allowed L r ''editor'' (db w) u f" "bad_attachment r = None"
      "tag_of (db w') = (tag_of (db w))((f, attachment_path r) := None)" "files_step (db w) (db w')"
      "s3 w' \<in> {s3 w, (s3 w)(attachment_key L f (rq_path r ''id'') (rq_path r ''name'') := None)}"
  | (failed) u f where "rs_status resp = 500" "allowed L r ''editor'' (db w) u f" "s3 w' = s3 w"
      "files_step (db w) (db w')"
      "tag_of (db w') = tag_of (db w) \<or> tag_of (db w') = (tag_of (db w))((f, attachment_path r) := None)"
  using run [unfolded DeleteAttachmentHandler_eq]
proof (cases rule: guardedE)
  case refused
  then show thesis using stopped bad_path_400(2) by fastforce
next
  case (passed u f w1 s)
  have al: "allowed L r ''editor'' (db w) u f" using passed by (auto simp: allowed_def)
  note w1 = quietD [OF passed(1)]
  obtain q w2 where del: "db_call (delete_file_any f (attachment_path r)) w1 = (q, w2)" by fastforce
  have s3_2: "s3 w2 = s3 w" using db_call_frame(1) [of "delete_file_any f (attachment_path r)" w1] del w1 by simp
  note res = delete_any_tags [OF ok [folded w1(1)] del, unfolded w1]
  obtain fs where fs: "db w2 = (db w)\<lparr>files := fs\<rparr>" using res(4) by blast
  show thesis
  proof (cases q)
    case (Inl e)
    with passed(2) del have "w' = w2 \<and> rs_status resp = 500" by (auto simp: attachment_path_def writeError_def)
    then show thesis using failed al res(3) s3_2 files_stepI [OF res(1) fs] by auto
  next
    case (Inr _)
    let ?key = "attachment_key L f (rq_path r ''id'') (rq_path r ''name'')"
    let ?ev = "\<lambda>ts. enc_AttachmentChangedEvent \<lparr>ac_folderId = uuid_String L f, ac_issueId = rq_path r ''id'',
      ac_name = rq_path r ''name'', ac_op = ''deleted'', ac_etag = None, ac_actor = uuid_String L u, ac_ts = ts\<rparr>"
    have resp: "resp = no_content" and w': "w' = finish L r ''delete_attachment'' (attachment_path r) ?key
        '''' '''' ?ev u f (snd (DeleteS3Object ?key w2))"
      using passed(2) del Inr by (simp_all add: attachment_path_def)
    note fin = finish_effect [OF w', unfolded DeleteS3Object_frame]
    have "files_step (db w) (db w')" using fin(1,2) res(1) fs by (auto simp: files_step_def)
    moreover have "s3 w' \<in> {s3 w, (s3 w)(?key := None)}"
      using fin(3) DeleteS3Object_s3 [of ?key w2] s3_2 by simp
    ultimately show thesis
      using deleted [OF resp al passed(6)] res(2) Inr logs_growD(5)[OF fin(1)] by simp
  qed
qed

section \<open>Requests that succeed\<close>

lemma checks_pass:
  assumes f: "fates w = []" and al: "allowed L r minRole (db w) u f"
  obtains adm role where "resolveUser L r w = (Inr (u, adm), w)" "parseFolderID L r w = (Inr f, w)"
    "checked (ProjectRole u f w) = (Inr role, w)" "RequireRole role minRole = Inr ()"
proof -
  obtain s where s: "rq_user r = Some s" "uuid_Parse L s = Some u" "uuid_Parse L (rq_path r ''folderId'') = Some f"
    using al by (auto simp: allowed_def bind_eq_Some_conv)
  obtain usr where usr: "lookup_by u_id u (users (db w)) = Some usr"
    using al by (cases "lookup_by u_id u (users (db w))") (auto simp: allowed_def rank_in_def)
  obtain role where role: "ProjectRole u f w = (Inr role, w)" "roleRank minRole \<le> roleRank role"
    using al usr f by (cases "lookup_by member_key (f, u) (project_members (db w))")
      (auto simp: allowed_def rank_in_def ProjectRole_def storage_ProjectRole_def db_call_query_Done roleRank_def
        split: if_splits)
  have "resolveUser L r w = (Inr (u, u_global_role usr = ''admin''), w)"
    using s usr f by (simp add: resolveUser_def UserByID_def db_call_query_Done)
  moreover have "parseFolderID L r w = (Inr f, w)" "checked (ProjectRole u f w) = (Inr role, w)" "RequireRole role minRole = Inr ()"
    using s role by (simp_all add: parseFolderID_def checked_def RequireRole_def)
  ultimately show thesis by (rule that)
qed

lemma guarded_passes:
  assumes "fates w = []" and "allowed L r minRole (db w) u f"
  shows "guarded L r None minRole k w = k u f w"
proof -
  obtain adm role where "resolveUser L r w = (Inr (u, adm), w)" "parseFolderID L r w = (Inr f, w)"
    "checked (ProjectRole u f w) = (Inr role, w)" "RequireRole role minRole = Inr ()" by (rule checks_pass [OF assms])
  then show ?thesis by (simp add: guarded_def checked_def)
qed

lemma FileExists_Done: "fates w = [] \<Longrightarrow> \<exists>x. FileExists f path w = (x, w)"
  by (auto simp: FileExists_def db_call_query_Done one_row_def split: option.splits)

lemma store_file_succeeds:
  assumes "db_ok (db w)" and "fates w = []" and "tag_of (db w) (f, path) = expected_tag m"
    and "f \<in> project_ids (db w)" and "u \<in> user_ids (db w)"
  shows "fst (store_file L r action path key ct conflict status before ev u f m body w) = writeETagJSON status (computeETag body)"
proof -
  obtain w1 where put: "PutObject key body ct (computeETag body) w = (Inr (), w1)" and w1: "fates w1 = []" "db w1 = db w"
    using assms(2) by (simp add: PutObject_def s3_call_Done)
  obtain w2 where "UpsertFile f path (computeETag body) (int (length body)) ct u m w1 = (Inr (), w2)"
    using UpsertFile_Done [of w1 f path m u] assms w1 by metis
  with put show ?thesis by (simp add: store_file_def)
qed

context put_handler
begin

lemma completes:
  assumes "db_ok (db w)" and "fates w = []" and "allowed L r minRole (db w) u f" and "f \<in> project_ids (db w)"
    and "bad r = None" and "rq_body_eof r" and "length (rq_body r) \<le> maxBodySize"
    and "rq_header r ''If-None-Match'' = ''*'' \<or> rq_header r ''If-Match'' \<noteq> ''''"
    and "tag_of (db w) (f, path r) = expected_tag (match_etag r)"
  shows "fst (handler L r w) = writeETagJSON (status (rq_header r ''If-None-Match'' = ''*'')) (computeETag (rq_body r))"
proof -
  have u: "u \<in> user_ids (db w)" using assms(3) by (simp add: allowed_def)
  obtain x where x: "FileExists f (path r) w = (x, w)" using FileExists_Done [OF assms(2)] by blast
  have me: "match_etag r = (if rq_header r ''If-None-Match'' \<noteq> ''*'' then rq_header r ''If-Match'' else '''')"
    by (simp add: match_etag_def)
  show ?thesis
    using store_file_succeeds [OF assms(1,2) assms(9) [unfolded me] assms(4) u] x assms(5-8)
    by (auto simp: shape guarded_passes [OF assms(2,3)] put_file_def Let_def readBody_def)
qed

end

end
