(* ===== verification/Write_Safety.thy ===== *)
theory Write_Safety
  imports Write_Api
begin

text \<open>
  What the write handlers guarantee, over every world with a consistent schema and every pattern of
  failures: authorisation, preconditions, the state after each answer, and the guarantee of
  optimistic concurrency over any sequence of write requests (the interface
  \<open>versioned_store\<close> interpreted on the six handlers). Two theorems show where the
  guarantee stops: a refused PUT has already replaced the object in the bucket, and the tag as
  it is sent in the ETag header is never accepted back in If-Match.
\<close>

section \<open>The handlers as operations on a versioned store\<close>

datatype write_op =
    PutIssue request
  | PostIssue request
  | DeleteIssue request
  | PutAttachment request
  | DeleteAttachment request
  | PutProjectJSON request

fun write_handle :: "lib \<Rightarrow> write_op \<Rightarrow> world \<Rightarrow> response \<times> world" where
  "write_handle L (PutIssue r) = PutIssueHandler L r"
| "write_handle L (PostIssue r) = PostIssueHandler L r"
| "write_handle L (DeleteIssue r) = DeleteIssueHandler L r"
| "write_handle L (PutAttachment r) = PutAttachmentHandler L r"
| "write_handle L (DeleteAttachment r) = DeleteAttachmentHandler L r"
| "write_handle L (PutProjectJSON r) = PutProjectJSONHandler L r"

fun op_request :: "write_op \<Rightarrow> request" where
  "op_request (PutIssue r) = r"
| "op_request (PostIssue r) = r"
| "op_request (DeleteIssue r) = r"
| "op_request (PutAttachment r) = r"
| "op_request (DeleteAttachment r) = r"
| "op_request (PutProjectJSON r) = r"

fun write_path :: "lib \<Rightarrow> write_op \<Rightarrow> string" where
  "write_path L (PostIssue r) = (case post_request L r of None \<Rightarrow> '''' | Some req \<Rightarrow> pr_id req @ ''.md'')"
| "write_path L (PutIssue r) = issue_path r"
| "write_path L (DeleteIssue r) = issue_path r"
| "write_path L (PutAttachment r) = attachment_path r"
| "write_path L (DeleteAttachment r) = attachment_path r"
| "write_path L (PutProjectJSON r) = ''project.json''"

definition write_key :: "lib \<Rightarrow> write_op \<Rightarrow> uuid \<times> string" where
  "write_key L oper =
     (case uuid_Parse L (rq_path (op_request oper) ''folderId'') of None \<Rightarrow> 0 | Some f \<Rightarrow> f, write_path L oper)"

fun write_guard :: "write_op \<Rightarrow> string option \<Rightarrow> bool" where
  "write_guard (PostIssue r) t \<longleftrightarrow> t = None"
| "write_guard (DeleteIssue r) t \<longleftrightarrow> t = Some (rq_header r ''If-Match'')"
| "write_guard (DeleteAttachment r) t \<longleftrightarrow> True"
| "write_guard (PutIssue r) t \<longleftrightarrow> t = expected_tag (match_etag r)"
| "write_guard (PutAttachment r) t \<longleftrightarrow> t = expected_tag (match_etag r)"
| "write_guard (PutProjectJSON r) t \<longleftrightarrow> t = expected_tag (match_etag r)"

fun write_tag :: "lib \<Rightarrow> write_op \<Rightarrow> string option" where
  "write_tag L (PostIssue r) = map_option (\<lambda>req. computeETag (pr_body req)) (post_request L r)"
| "write_tag L (DeleteIssue r) = None"
| "write_tag L (DeleteAttachment r) = None"
| "write_tag L (PutIssue r) = Some (computeETag (rq_body r))"
| "write_tag L (PutAttachment r) = Some (computeETag (rq_body r))"
| "write_tag L (PutProjectJSON r) = Some (computeETag (rq_body r))"

definition write_exec :: "lib \<Rightarrow> write_op \<Rightarrow> world \<Rightarrow> bool \<times> world" where
  "write_exec L oper w = (case write_handle L oper w of (resp, w') \<Rightarrow> (rs_status resp \<in> {200, 201, 204}, w'))"

text \<open>One lemma per handler: the schema is kept, and the tags move as the interface says.\<close>

definition op_meets :: "lib \<Rightarrow> write_op \<Rightarrow> world \<Rightarrow> response \<Rightarrow> world \<Rightarrow> bool" where
  "op_meets L oper w resp w' \<longleftrightarrow>
     files_step (db w) (db w') \<and>
     (let moved = (write_guard oper (tag_of (db w) (write_key L oper)) \<and>
                   tag_of (db w') = (tag_of (db w))(write_key L oper := write_tag L oper))
      in if rs_status resp \<in> {200, 201, 204} then moved else moved \<or> tag_of (db w') = tag_of (db w))"

lemma op_meets_moved:
  "files_step (db w) (db w') \<Longrightarrow> write_key L oper = k \<Longrightarrow> write_guard oper (tag_of (db w) k) \<Longrightarrow>
   tag_of (db w') = (tag_of (db w))(k := write_tag L oper) \<Longrightarrow> op_meets L oper w resp w'"
  by (simp add: op_meets_def)

lemma op_meets_kept:
  "files_step (db w) (db w') \<Longrightarrow> rs_status resp \<notin> {200, 201, 204} \<Longrightarrow> tag_of (db w') = tag_of (db w) \<Longrightarrow>
   op_meets L oper w resp w'"
  by (simp add: op_meets_def)

lemma op_meets_quiet:
  "db_ok (db w) \<Longrightarrow> quiet w w' \<Longrightarrow> rs_status resp \<notin> {200, 201, 204} \<Longrightarrow> op_meets L oper w resp w'"
  by (simp add: op_meets_kept quietD files_step_refl)

context put_handler
begin

lemma meets:
  assumes oper: "op_request oper = r" "write_path L oper = path r" "\<And>t. write_guard oper t \<longleftrightarrow> t = expected_tag (match_etag r)"
      "write_tag L oper = Some (computeETag (rq_body r))"
    and ok: "db_ok (db w)" and run: "handler L r w = (resp, w')"
  shows "op_meets L oper w resp w'"
proof (cases "rs_status resp \<in> {200, 201}")
  case True
  from accepted [OF ok run True] obtain u f where "allowed L r minRole (db w) u f" "files_step (db w) (db w')"
    "tag_of (db w) (f, path r) = expected_tag (match_etag r)"
    "tag_of (db w') = (tag_of (db w))((f, path r) := Some (computeETag (rq_body r)))" by blast
  with oper show ?thesis by (intro op_meets_moved [where k = "(f, path r)"]) (simp_all add: write_key_def allowed_def)
next
  case False
  then have st: "rs_status resp \<notin> {200, 201, 204}" using statuses(1)[OF ok run] by auto
  note step = keeps_schema [OF ok run]
  from tags_move [OF ok run] show ?thesis
  proof
    assume "tag_of (db w') = tag_of (db w)"
    with step st show ?thesis by (rule op_meets_kept)
  next
    assume "\<exists>f. uuid_Parse L (rq_path r ''folderId'') = Some f \<and>
      tag_of (db w) (f, path r) = expected_tag (match_etag r) \<and>
      tag_of (db w') = (tag_of (db w))((f, path r) := Some (computeETag (rq_body r)))"
    then obtain f where "uuid_Parse L (rq_path r ''folderId'') = Some f"
      "tag_of (db w) (f, path r) = expected_tag (match_etag r)"
      "tag_of (db w') = (tag_of (db w))((f, path r) := Some (computeETag (rq_body r)))" by blast
    with oper step show ?thesis by (intro op_meets_moved [where k = "(f, path r)"]) (simp_all add: write_key_def)
  qed
qed

end

lemma not_success: "s \<in> S \<Longrightarrow> S \<inter> {200, 201, 204} = {} \<Longrightarrow> s \<notin> {200, 201, 204 :: nat}"
  by blast

lemma PostIssue_meets:
  assumes ok: "db_ok (db w)" and run: "PostIssueHandler L r w = (resp, w')"
  shows "op_meets L (PostIssue r) w resp w'"
  using run
proof (cases rule: PostIssueHandlerE)
  case stopped
  show ?thesis by (rule op_meets_quiet [OF ok stopped(1)]) (rule not_success [OF stopped(2)], simp)
next
  case (reached u f req w1)
  note w1 = quietD [OF reached(1)]
  let ?k = "(f, pr_id req @ ''.md'')"
  have key: "write_key L (PostIssue r) = ?k" "write_tag L (PostIssue r) = Some (computeETag (pr_body req))"
    using reached(2,3) by (simp_all add: write_key_def allowed_def)
  from ok [folded w1(1)] reached(6) show ?thesis
  proof (cases rule: store_fileE)
    case stored
    show ?thesis by (rule op_meets_moved [OF _ key(1)]) (use stored(2,3,6) w1 reached(3) in \<open>simp_all add: expected_tag_def\<close>)
  next
    case conflict
    show ?thesis by (rule op_meets_kept) (use conflict(1,3,5) w1 in \<open>simp_all add: writeError_def\<close>)
  next
    case failed
    from failed(3) show ?thesis
    proof
      assume "tag_of (db w') = tag_of (db w1)"
      with failed(1,4) w1 show ?thesis by (intro op_meets_kept) (simp_all add: writeError_def)
    next
      assume "tag_of (db w1) ?k = expected_tag '''' \<and>
        tag_of (db w') = (tag_of (db w1))(?k := Some (computeETag (pr_body req)))"
      with failed(4) w1 reached(3) show ?thesis by (intro op_meets_moved [OF _ key(1)]) (simp_all add: expected_tag_def)
    qed
  qed
qed

lemma DeleteIssue_meets:
  assumes ok: "db_ok (db w)" and run: "DeleteIssueHandler L r w = (resp, w')"
  shows "op_meets L (DeleteIssue r) w resp w'"
  using ok run
proof (cases rule: DeleteIssueHandlerE)
  case stopped
  show ?thesis by (rule op_meets_quiet [OF ok stopped(1)]) (rule not_success [OF stopped(2)], simp)
next
  case (deleted u f)
  have key: "write_key L (DeleteIssue r) = (f, issue_path r)" using deleted(2) by (simp add: write_key_def allowed_def)
  show ?thesis by (rule op_meets_moved [OF deleted(6) key]) (use deleted(4,5) in simp_all)
next
  case (failed u f)
  have key: "write_key L (DeleteIssue r) = (f, issue_path r)" using failed(2) by (simp add: write_key_def allowed_def)
  from failed(5) show ?thesis
  proof
    assume "tag_of (db w') = tag_of (db w)"
    then show ?thesis by (rule op_meets_kept [OF failed(4) not_success [OF failed(1)], rotated]) simp
  next
    assume "tag_of (db w) (f, issue_path r) = Some (rq_header r ''If-Match'') \<and>
      tag_of (db w') = (tag_of (db w))((f, issue_path r) := None)"
    then show ?thesis by (intro op_meets_moved [OF failed(4) key]) simp_all
  qed
qed

lemma DeleteAttachment_meets:
  assumes ok: "db_ok (db w)" and run: "DeleteAttachmentHandler L r w = (resp, w')"
  shows "op_meets L (DeleteAttachment r) w resp w'"
  using ok run
proof (cases rule: DeleteAttachmentHandlerE)
  case stopped
  show ?thesis by (rule op_meets_quiet [OF ok stopped(1)]) (rule not_success [OF stopped(2)], simp)
next
  case (deleted u f)
  have key: "write_key L (DeleteAttachment r) = (f, attachment_path r)" using deleted(2) by (simp add: write_key_def allowed_def)
  show ?thesis by (rule op_meets_moved [OF deleted(5) key]) (use deleted(4) in simp_all)
next
  case (failed u f)
  have key: "write_key L (DeleteAttachment r) = (f, attachment_path r)" using failed(2) by (simp add: write_key_def allowed_def)
  from failed(5) show ?thesis
  proof
    assume "tag_of (db w') = tag_of (db w)"
    with failed(1) show ?thesis by (intro op_meets_kept [OF failed(4)]) auto
  next
    assume "tag_of (db w') = (tag_of (db w))((f, attachment_path r) := None)"
    then show ?thesis by (intro op_meets_moved [OF failed(4) key]) simp_all
  qed
qed

lemma write_meets:
  assumes "db_ok (db w)" and "write_handle L oper w = (resp, w')"
  shows "op_meets L oper w resp w'"
  using assms
  by (cases oper)
     (simp_all add: PostIssue_meets DeleteIssue_meets DeleteAttachment_meets
        put_issue.meets put_attachment.meets put_project_json.meets)

interpretation api: versioned_store "\<lambda>w :: world. db_ok (db w)" "\<lambda>w. tag_of (db w)"
  "write_exec L" "write_key L" write_guard "write_tag L" for L
proof
  fix w :: world and oper assume ok: "db_ok (db w)"
  show "db_ok (db (snd (write_exec L oper w)))"
    using write_meets [OF ok, of L oper] by (auto simp: write_exec_def op_meets_def files_step_def split: prod.splits)
next
  fix w :: world and oper w' assume "db_ok (db w)" "write_exec L oper w = (True, w')"
  then show "write_guard oper (tag_of (db w) (write_key L oper)) \<and>
      tag_of (db w') = (tag_of (db w))(write_key L oper := write_tag L oper)"
    using write_meets [of w L oper] by (auto simp: write_exec_def op_meets_def Let_def split: prod.splits)
next
  fix w :: world and oper w' assume "db_ok (db w)" "write_exec L oper w = (False, w')"
  then show "tag_of (db w') = tag_of (db w) \<or> write_guard oper (tag_of (db w) (write_key L oper)) \<and>
      tag_of (db w') = (tag_of (db w))(write_key L oper := write_tag L oper)"
    using write_meets [of w L oper] by (auto simp: write_exec_def op_meets_def Let_def split: prod.splits if_splits)
qed

section \<open>Properties\<close>

fun op_role :: "write_op \<Rightarrow> string" where
  "op_role (PutProjectJSON r) = ''admin''"
| "op_role (PutIssue r) = ''editor''"
| "op_role (PostIssue r) = ''editor''"
| "op_role (DeleteIssue r) = ''editor''"
| "op_role (PutAttachment r) = ''editor''"
| "op_role (DeleteAttachment r) = ''editor''"

lemmas handler_eval = resolveUser_def UserByID_def parseFolderID_def ProjectRole_def storage_ProjectRole_def checked_def
  RequireRole_def roleRank_def readBody_def maxBodySize_def FileExists_def PutObject_def s3_call_def
  issueIDPattern_MatchString_def is_digit_def member_key_def queries_eval sample_defs

abbreviation sample_put :: request where
  "sample_put \<equiv> sample_request 2 ''0001'' [(''If-None-Match'', ''*'')] ''hello''"

lemma sample_put_200: "rs_status (fst (PutIssueHandler sample_lib sample_put sample_world)) = 200"
  by (simp add: PutIssueHandler_def handler_eval writeETagJSON_def Let_def)

text \<open>C6. What a PUT of an issue that is answered 200 means: the user is a member of the project with
  the role of editor or above (or a global admin), the body is within the limit, the precondition of
  the request held (the row had the tag of If-Match, or there was no row), and now the row has
  the tag, size, type, time and author of this write, the bucket holds exactly the body under the issue's key, no other
  tag and no other object has changed, the cache has dropped the key and the event is queued for the subscribers.\<close>

theorem PutIssueHandler_accepted:
  assumes "db_ok (db w)" and "PutIssueHandler L r w = (resp, w')" and "rs_status resp = 200"
  shows "\<exists>u f. allowed L r ''editor'' (db w) u f \<and> issueIDPattern_MatchString (rq_path r ''id'') \<and>
    length (rq_body r) \<le> maxBodySize \<and> resp = writeETagJSON 200 (computeETag (rq_body r)) \<and>
    tag_of (db w) (f, issue_path r) = expected_tag (match_etag r) \<and>
    tag_of (db w') = (tag_of (db w))((f, issue_path r) := Some (computeETag (rq_body r))) \<and>
    row_written (db w') f (issue_path r) (rq_body r) markdown (clock w) u \<and>
    s3 w' = (s3 w)(issue_key L f (rq_path r ''id'') \<mapsto> stored (rq_body r) markdown) \<and>
    cache w' = map_option (\<lambda>c. lru_Delete c (issue_key L f (rq_path r ''id''))) (cache w) \<and>
    the_hub w' = map_option (\<lambda>h. hub_Broadcast h (uuid_String L f)
      (issue_event L r f u (rq_header r ''If-None-Match'' = ''*'') (computeETag (rq_body r)) (nowTS L w))) (the_hub w)"
proof -
  have st: "rs_status resp \<in> {200, 201}" using assms(3) by simp
  have "bad_id r = None \<Longrightarrow> issueIDPattern_MatchString (rq_path r ''id'')" by (simp add: bad_id_def split: if_splits)
  with put_issue.accepted [OF assms(1,2) st] show ?thesis by blast
qed

theorem PutIssueHandler_accepted_witness:
  "\<exists>resp w'. PutIssueHandler sample_lib sample_put sample_world = (resp, w') \<and>
     (\<exists>f. s3 w' (issue_key sample_lib f ''0001'') = Some (stored ''hello'' markdown))"
proof -
  obtain resp w' where run: "PutIssueHandler sample_lib sample_put sample_world = (resp, w')" by fastforce
  then have "rs_status resp = 200" using sample_put_200 by simp
  from PutIssueHandler_accepted [OF _ run this] run show ?thesis by auto
qed

text \<open>Either the request stopped at a check, or its user is allowed.\<close>

definition gated :: "lib \<Rightarrow> request \<Rightarrow> string \<Rightarrow> world \<Rightarrow> response \<Rightarrow> world \<Rightarrow> bool" where
  "gated L r role w resp w' \<longleftrightarrow>
     quiet w w' \<and> rs_status resp \<notin> {200, 201, 204} \<or> (\<exists>u f. allowed L r role (db w) u f)"

lemma gated_stopped: "quiet w w' \<Longrightarrow> rs_status resp \<in> S \<Longrightarrow> S \<inter> {200, 201, 204} = {} \<Longrightarrow> gated L r role w resp w'"
  unfolding gated_def by blast

lemma gated_allowed: "allowed L r role (db w) u f \<Longrightarrow> gated L r role w resp w'"
  unfolding gated_def by blast

context put_handler
begin

lemma put_gated: "handler L r w = (resp, w') \<Longrightarrow> gated L r minRole w resp w'"
  by (erule handlerE) (erule (1) gated_stopped, simp, erule gated_allowed)

end

lemma PostIssue_gated: "PostIssueHandler L r w = (resp, w') \<Longrightarrow> gated L r ''editor'' w resp w'"
  by (erule PostIssueHandlerE) (erule (1) gated_stopped, simp, erule gated_allowed)

lemma DeleteIssue_gated: "db_ok (db w) \<Longrightarrow> DeleteIssueHandler L r w = (resp, w') \<Longrightarrow> gated L r ''editor'' w resp w'"
  by (erule (1) DeleteIssueHandlerE) (erule (1) gated_stopped, simp, erule gated_allowed, erule gated_allowed)

lemma DeleteAttachment_gated:
  "db_ok (db w) \<Longrightarrow> DeleteAttachmentHandler L r w = (resp, w') \<Longrightarrow> gated L r ''editor'' w resp w'"
  by (erule (1) DeleteAttachmentHandlerE) (erule (1) gated_stopped, simp, erule gated_allowed, erule gated_allowed)

lemma write_gated:
  assumes "db_ok (db w)" and "write_handle L oper w = (resp, w')"
  shows "gated L (op_request oper) (op_role oper) w resp w'"
  using assms by (cases oper)
    (simp_all add: PostIssue_gated DeleteIssue_gated DeleteAttachment_gated put_issue.put_gated put_attachment.put_gated
      put_project_json.put_gated)

text \<open>C7. Nothing happens without permission: whatever a write request is answered, and whatever
  fails on the way, either nothing has changed (database, bucket, cache, hub) and the answer is not a
  success, or the request carries a known user who holds the required role in the project: editor for issues and attachments, admin for
  \<open>project.json\<close>.\<close>

theorem write_only_if_allowed:
  assumes ok: "db_ok (db w)" and run: "write_handle L oper w = (resp, w')"
  shows "(db w' = db w \<and> s3 w' = s3 w \<and> cache w' = cache w \<and> the_hub w' = the_hub w \<and> rs_status resp \<notin> {200, 201, 204}) \<or>
    (\<exists>u f. allowed L (op_request oper) (op_role oper) (db w) u f)"
  using write_gated [OF ok run] by (auto simp only: gated_def quietD)

text \<open>User 2 is an editor of project 7, user 3 is in no project.\<close>

lemma sample_editor: "allowed sample_lib (sample_request 2 issue hs body) ''editor'' sample_db 2 7"
  by (simp add: allowed_def rank_in_def roleRank_def user_ids_def sample_db_def sample_user_def empty_db_def member_key_def)

lemma sample_outsider: "\<not> allowed sample_lib (sample_request 3 ''0001'' hs body) ''editor'' sample_db u f"
  by (auto simp: allowed_def rank_in_def sample_db_def sample_user_def empty_db_def member_key_def)

theorem write_only_if_allowed_witness:
  "s3 (snd (write_handle sample_lib (PutIssue (sample_request 3 ''0001'' [(''If-None-Match'', ''*'')] ''x'')) sample_world)) = Map.empty"
proof -
  obtain resp w' where run: "write_handle sample_lib (PutIssue (sample_request 3 ''0001'' [(''If-None-Match'', ''*'')] ''x'')) sample_world = (resp, w')"
    by fastforce
  from write_only_if_allowed [OF _ run] run show ?thesis by (simp add: sample_outsider)
qed

text \<open>A refused PUT is not without effect: when a PUT of an issue is answered 409, the row and every
  other tag are as before, but the object under the issue's key has already been replaced by the
  refused body, because the upload comes before the conditional update.\<close>

theorem PutIssueHandler_conflict_overwrites:
  assumes "db_ok (db w)" and "PutIssueHandler L r w = (resp, w')" and "rs_status resp = 409"
  shows "\<exists>f. uuid_Parse L (rq_path r ''folderId'') = Some f \<and>
    tag_of (db w) (f, issue_path r) \<noteq> expected_tag (match_etag r) \<and> tag_of (db w') = tag_of (db w) \<and>
    s3 w' = (s3 w)(issue_key L f (rq_path r ''id'') \<mapsto> stored (rq_body r) markdown)"
  using put_issue.conflicted [OF assms] by (auto simp: allowed_def)

abbreviation sample_stale :: request where
  "sample_stale \<equiv> sample_request 2 ''0001'' [(''If-Match'', ''stale'')] ''lost''"

lemma sample_stale_409: "rs_status (fst (PutIssueHandler sample_lib sample_stale sample_world)) = 409"
  by (simp add: PutIssueHandler_def handler_eval writeError_def Let_def)

theorem PutIssueHandler_conflict_overwrites_witness:
  "\<exists>resp w' f. PutIssueHandler sample_lib sample_stale sample_world = (resp, w') \<and> rs_status resp = 409 \<and>
     s3 w' (issue_key sample_lib f ''0001'') = Some (stored ''lost'' markdown)"
proof -
  obtain resp w' where run: "PutIssueHandler sample_lib sample_stale sample_world = (resp, w')" by fastforce
  then have st: "rs_status resp = 409" using sample_stale_409 by simp
  from PutIssueHandler_conflict_overwrites [OF _ run st] run st show ?thesis by auto
qed

text \<open>No lost update through the API: in any sequence of write requests of all six kinds, with any failures
  and lost answers, after a PUT of an issue was accepted, a second PUT of the same issue
  conditioned on another state than the first one wrote is accepted only if a request in between
  wrote that state.\<close>

theorem write_no_lost_update:
  assumes "db_ok (db w)" and "run_ops (write_exec L) ops w = (bs, w')"
    and "i < j" and "j < length ops" and "bs ! i" and "bs ! j"
    and "ops ! i = PutIssue r" and "ops ! j = PutIssue r'" and "write_key L (ops ! i) = write_key L (ops ! j)"
    and "expected_tag (match_etag r') \<noteq> Some (computeETag (rq_body r))"
  shows "\<exists>m. i < m \<and> m < j \<and> write_key L (ops ! m) = write_key L (ops ! i) \<and>
    write_tag L (ops ! m) = expected_tag (match_etag r')"
  by (rule api.no_lost_update [OF assms(1-6) assms(9)]) (use assms(7,8,10) in auto)

text \<open>Create, delete, create again: the second creation relies on the deletion in between (from an
  address that the audit log cannot store).\<close>

definition sample_writes :: "write_op list" where
  "sample_writes =
     (let ip = (''X-Forwarded-For'', ''unknown'') in
      [PutIssue (sample_request 2 ''0001'' [(''If-None-Match'', ''*''), ip] ''a''),
       DeleteIssue (sample_request 2 ''0001'' [(''If-Match'', computeETag ''a''), ip] ''''),
       PutIssue (sample_request 2 ''0001'' [(''If-None-Match'', ''*''), ip] ''b'')])"

definition plain_world :: world where
  "plain_world = sample_world\<lparr>the_hub := None, cache := None\<rparr>"

lemmas effects_eval = cache_drop_def WriteAuditLog_def insert_audit_def fanOutEvent_def
  DeleteS3Object_def writeETagJSON_def no_content_def clientIP_def userAgent_def nullStr_def

lemma sample_writes_run: "fst (run_ops (write_exec sample_lib) sample_writes plain_world) = [True, True, True]"
  by (simp add: sample_writes_def plain_world_def write_exec_def PutIssueHandler_def DeleteIssueHandler_def handler_eval effects_eval
      computeETag_ne_Nil Let_def)

lemma plain_world_simps [simp]: "db plain_world = sample_db" "fates plain_world = []" "s3 plain_world = Map.empty"
  by (simp_all add: plain_world_def)

theorem write_no_lost_update_witness:
  "fst (run_ops (write_exec sample_lib) sample_writes plain_world) = [True, True, True] \<and>
   (\<exists>m. 0 < m \<and> m < 2 \<and> write_tag sample_lib (sample_writes ! m) = None)"
proof -
  obtain w' where run: "run_ops (write_exec sample_lib) sample_writes plain_world = ([True, True, True], w')"
    using sample_writes_run by (cases "run_ops (write_exec sample_lib) sample_writes plain_world") simp
  let ?r = "\<lambda>b. sample_request 2 ''0001'' [(''If-None-Match'', ''*''), (''X-Forwarded-For'', ''unknown'')] b"
  have "\<exists>m. 0 < m \<and> m < 2 \<and> write_key sample_lib (sample_writes ! m) = write_key sample_lib (sample_writes ! 0) \<and>
      write_tag sample_lib (sample_writes ! m) = expected_tag (match_etag (?r ''b''))"
    by (rule write_no_lost_update [OF _ run, where r = "?r ''a''" and r' = "?r ''b''"])
       (simp_all add: sample_writes_def Let_def write_key_def issue_path_def match_etag_def expected_tag_def numeral_2_eq_2)
  with run show ?thesis by (auto simp: match_etag_def expected_tag_def)
qed

lemma run_files_step:
  "db_ok (db w) \<Longrightarrow> run_ops (write_exec L) ops w = (bs, w') \<Longrightarrow> files_step (db w) (db w')"
proof (induction ops arbitrary: w bs)
  case Nil
  then show ?case by (simp add: files_step_refl)
next
  case (Cons oper ops)
  obtain resp w1 where h: "write_handle L oper w = (resp, w1)" by fastforce
  have s1: "files_step (db w) (db w1)" using write_meets [OF Cons.prems(1) h] by (simp add: op_meets_def)
  have "snd (write_exec L oper w) = w1" using h by (simp add: write_exec_def)
  then obtain cs where run: "run_ops (write_exec L) ops w1 = (cs, w')"
    using Cons.prems(2) by (auto split: prod.splits)
  have "db_ok (db w1)" using s1 by (simp add: files_step_def)
  then have "files_step (db w1) (db w')" using Cons.IH run by blast
  with s1 show ?case by (auto simp: files_step_def logs_grow_def)
qed

text \<open>The schema survives every history: after any sequence of write requests, failures included,
  all constraints of the database hold (keys, foreign keys, checks), users, projects and members are as
  before, and the event log and the audit log have only been appended to.\<close>

theorem write_history_keeps_schema:
  assumes "db_ok (db w)" and "run_ops (write_exec L) ops w = (bs, w')"
  shows "db_ok (db w') \<and> users (db w') = users (db w) \<and> projects (db w') = projects (db w) \<and>
    project_members (db w') = project_members (db w) \<and>
    (\<exists>es. events (db w') = events (db w) @ es) \<and> (\<exists>as. audit_log (db w') = audit_log (db w) @ as)"
  using run_files_step [OF assms] by (auto simp: files_step_def logs_grow_def)

theorem write_history_keeps_schema_witness:
  "db_ok (db (snd (run_ops (write_exec sample_lib) sample_writes sample_world)))"
  using write_history_keeps_schema [of sample_world sample_lib sample_writes] by (metis prod.collapse sample_db_ok sample_world_simps(1))

text \<open>C27. A write that should succeed does: without failures, an allowed PUT of an issue of an existing project,
  with a complete body within the limit and a precondition that holds, is answered 200 with the
  digest of the body.\<close>

theorem PutIssueHandler_completes:
  assumes "db_ok (db w)" and "fates w = []" and "allowed L r ''editor'' (db w) u f" and "f \<in> project_ids (db w)"
    and "issueIDPattern_MatchString (rq_path r ''id'')" and "rq_body_eof r" and "length (rq_body r) \<le> maxBodySize"
    and "rq_header r ''If-None-Match'' = ''*'' \<or> rq_header r ''If-Match'' \<noteq> ''''"
    and "tag_of (db w) (f, issue_path r) = expected_tag (match_etag r)"
  shows "fst (PutIssueHandler L r w) = writeETagJSON 200 (computeETag (rq_body r))"
  by (rule put_issue.completes [OF assms(1-4) _ assms(6-9)]) (simp add: bad_id_def assms(5))

theorem PutIssueHandler_completes_witness:
  "fst (PutIssueHandler sample_lib sample_put sample_world) = writeETagJSON 200 (computeETag ''hello'')"
  by (rule PutIssueHandler_completes [where u = 2 and f = 7, of sample_world sample_lib sample_put, unfolded sample_request_simps])
     (simp_all add: sample_editor issueIDPattern_MatchString_def is_digit_def maxBodySize_def tag_of_def file_of_def
       expected_tag_def match_etag_def)

text \<open>The tags in the database are hexadecimal digests.\<close>

definition plain_tags :: "db \<Rightarrow> bool" where
  "plain_tags d \<longleftrightarrow> (\<forall>k t. tag_of d k = Some t \<longrightarrow> CHR 0x22 \<notin> set t)"

lemma computeETag_no_quote: "CHR 0x22 \<notin> set (computeETag b)"
  using set_computeETag [of b] by (auto simp: hextable_def)

lemma write_tag_no_quote: "write_tag L oper = Some t \<Longrightarrow> CHR 0x22 \<notin> set t"
  by (cases oper) (auto simp: computeETag_no_quote)

lemma run_plain_tags:
  "db_ok (db w) \<Longrightarrow> plain_tags (db w) \<Longrightarrow> run_ops (write_exec L) ops w = (bs, w') \<Longrightarrow> plain_tags (db w')"
proof (induction ops arbitrary: w bs)
  case (Cons oper ops)
  obtain b w1 where e: "write_exec L oper w = (b, w1)" by fastforce
  obtain cs where run: "run_ops (write_exec L) ops w1 = (cs, w')" using Cons.prems(3) e by (auto split: prod.splits)
  have ok: "db_ok (db w1)" using api.keeps [OF Cons.prems(1), of L oper] e by simp
  have "plain_tags (db w1)"
    using api.step_tag [OF Cons.prems(1) e] Cons.prems(2) by (auto simp: plain_tags_def write_tag_no_quote split: if_splits)
  from Cons.IH [OF ok this run] show ?case .
qed simp

text \<open>The tag as the server sends it is not the tag it accepts: the ETag header puts the digest in double quotes,
  If-Match is compared as it stands. After any history of write requests from a database whose tags are unquoted
  (the empty one, say), a PUT of an issue that echoes a quoted tag in If-Match is never answered 200.\<close>

theorem quoted_If_Match_never_accepted:
  assumes "db_ok (db w)" and "plain_tags (db w)" and "run_ops (write_exec L) ops w = (bs, w1)"
    and "PutIssueHandler L r w1 = (resp, w')"
    and "rq_header r ''If-None-Match'' \<noteq> ''*''" and "rq_header r ''If-Match'' = quoted t"
  shows "rs_status resp \<noteq> 200"
proof
  assume "rs_status resp = 200"
  then have st: "rs_status resp \<in> {200, 201}" by simp
  have ok: "db_ok (db w1)" using api.run_keeps [OF assms(1,3)] .
  have tags: "plain_tags (db w1)" using run_plain_tags [OF assms(1-3)] .
  obtain f where "tag_of (db w1) (f, issue_path r) = expected_tag (match_etag r)"
    using put_issue.accepted [OF ok assms(4) st] by blast
  moreover have "expected_tag (match_etag r) = Some (quoted t)"
    using assms(5,6) by (simp add: match_etag_def expected_tag_def quoted_def)
  ultimately show False using tags by (fastforce simp: plain_tags_def quoted_def)
qed

theorem quoted_If_Match_never_accepted_witness:
  "rs_status (fst (PutIssueHandler sample_lib
      (sample_request 2 ''0001'' [(''If-Match'', quoted (computeETag ''a''))] ''b'')
      (snd (run_ops (write_exec sample_lib) sample_writes sample_world)))) \<noteq> 200"
proof -
  let ?r = "sample_request 2 ''0001'' [(''If-Match'', quoted (computeETag ''a''))] ''b''"
  obtain bs w1 where run: "run_ops (write_exec sample_lib) sample_writes sample_world = (bs, w1)" by fastforce
  obtain resp w' where put: "PutIssueHandler sample_lib ?r w1 = (resp, w')" by fastforce
  have "rs_status resp \<noteq> 200"
    by (rule quoted_If_Match_never_accepted [OF _ _ run put, where t = "computeETag ''a''"])
       (simp_all add: plain_tags_def tag_of_def file_of_def)
  with run put show ?thesis by simp
qed

text \<open>POST creates and never overwrites: an answer of 201 means that the user is an editor, that the identifier of the
  body is four digits, that there was no row of that name, and that now there is one with the digest of the posted
  text, which is what the bucket holds; nothing else has changed in the bucket or among the tags.\<close>

theorem PostIssueHandler_created:
  assumes ok: "db_ok (db w)" and run: "PostIssueHandler L r w = (resp, w')" and st: "rs_status resp = 201"
  shows "\<exists>u f req. allowed L r ''editor'' (db w) u f \<and> post_request L r = Some req \<and>
    issueIDPattern_MatchString (pr_id req) \<and> tag_of (db w) (f, pr_id req @ ''.md'') = None \<and>
    tag_of (db w') = (tag_of (db w))((f, pr_id req @ ''.md'') := Some (computeETag (pr_body req))) \<and>
    row_written (db w') f (pr_id req @ ''.md'') (pr_body req) markdown (clock w) u \<and>
    s3 w' = (s3 w)(issue_key L f (pr_id req) \<mapsto> stored (pr_body req) markdown)"
  using run
proof (cases rule: PostIssueHandlerE)
  case stopped
  with st show ?thesis by auto
next
  case (reached u f req w1)
  note w1 = quietD [OF reached(1)]
  from ok [folded w1(1)] reached(6) show ?thesis
  proof (cases rule: store_fileE)
    case stored
    then show ?thesis using reached w1 by (intro exI [of _ u] exI [of _ f] exI [of _ req]) simp
  qed (use st in \<open>simp_all add: writeError_def\<close>)
qed

lemma sample_post_201: "rs_status (fst (PostIssueHandler sample_lib (sample_request 2 '''' [] ''text'') sample_world)) = 201"
  by (simp add: PostIssueHandler_def handler_eval writeETagJSON_def Let_def dec_postIssueRequest_def wire_dec)

theorem PostIssueHandler_created_witness:
  "\<exists>f. s3 (snd (PostIssueHandler sample_lib (sample_request 2 '''' [] ''text'') sample_world)) (issue_key sample_lib f ''0002'') =
     Some (stored ''text'' markdown)"
proof -
  obtain resp w' where run: "PostIssueHandler sample_lib (sample_request 2 '''' [] ''text'') sample_world = (resp, w')" by fastforce
  have req: "post_request sample_lib (sample_request 2 '''' [] ''text'') = Some \<lparr>pr_id = ''0002'', pr_body = ''text''\<rparr>"
    by (simp add: post_request_def dec_postIssueRequest_def wire_dec)
  from PostIssueHandler_created [OF _ run] sample_post_201 run req show ?thesis by auto
qed

text \<open>The traces of an accepted PUT: without failures, and with a hub, exactly one event is appended to the log, and it announces
  this change (project, issue, operation, digest, author); one audit row is appended exactly when the
  client's address is empty or a valid \<open>inet\<close>, and otherwise the write leaves no audit row at all.\<close>

theorem PutIssueHandler_logged:
  assumes "db_ok (db w)" and "PutIssueHandler L r w = (resp, w')" and "rs_status resp = 200"
    and "fates w = []" and "uuid_laws L" and "the_hub w \<noteq> None"
  shows "\<exists>u f e row. allowed L r ''editor'' (db w) u f \<and> events (db w') = events (db w) @ [e] \<and>
    ev_id e = events_seq (db w) \<and> ev_project_id e = f \<and> ev_actor e = u \<and>
    ev_payload e = enc_IssueChangedEvent
      \<lparr>ic_folderId = uuid_String L f, ic_issueId = rq_path r ''id'',
            ic_op = (if rq_header r ''If-None-Match'' = ''*'' then ''created'' else ''updated''),
            ic_etag = Some (computeETag (rq_body r)), ic_actor = uuid_String L u, ic_ts = nowTS L w\<rparr> \<and>
    audit_log (db w') = audit_log (db w) @ (if storable_ip L r then [row] else []) \<and>
    a_actor row = u \<and> a_action row = ''put_issue'' \<and> a_project_id row = Some f \<and> a_path row = issue_path r \<and>
    a_etag_after row = Some (computeETag (rq_body r))"
proof -
  have st: "rs_status resp \<in> {200, 201}" using assms(3) by simp
  obtain u f old where al: "allowed L r ''editor'' (db w) u f"
    and ev: "events (db w') = events (db w) @ [event_entry (issue_event L r f u (rq_header r ''If-None-Match'' = ''*'')
        (computeETag (rq_body r)) (nowTS L w)) u f w]"
    and au: "audit_log (db w') = audit_log (db w) @ (if storable_ip L r
        then [audit_entry r ''put_issue'' (issue_path r) old (computeETag (rq_body r)) u f w] else [])"
    using put_issue.accepted_logs [OF assms(1,2) st assms(4,5)] assms(6) by auto
  show ?thesis
    by (intro exI conjI, rule al, rule ev)
       (simp_all add: event_entry_def issue_event_def op_name_def au, simp_all add: audit_entry_def nullStr_def)
qed

theorem PutIssueHandler_logged_witness:
  "length (events (db (snd (PutIssueHandler sample_lib sample_put sample_world)))) = 1"
proof -
  obtain resp w' where run: "PutIssueHandler sample_lib sample_put sample_world = (resp, w')" by fastforce
  then have st: "rs_status resp = 200" using sample_put_200 by simp
  from PutIssueHandler_logged [OF _ run st _ sample_lib_laws] run show ?thesis by auto
qed

text \<open>C37. What a deletion answered 204 means: an editor asked for it, the row carried exactly the tag of If-Match, it is
  gone and no other tag has changed; in the bucket at most the issue's own object is gone (it stays when the bucket
  fails, which is not reported).\<close>

theorem DeleteIssueHandler_deleted:
  assumes ok: "db_ok (db w)" and run: "DeleteIssueHandler L r w = (resp, w')" and st: "rs_status resp = 204"
  shows "\<exists>u f. allowed L r ''editor'' (db w) u f \<and> issueIDPattern_MatchString (rq_path r ''id'') \<and>
    tag_of (db w) (f, issue_path r) = Some (rq_header r ''If-Match'') \<and>
    tag_of (db w') = (tag_of (db w))((f, issue_path r) := None) \<and>
    s3 w' \<in> {s3 w, (s3 w)(issue_key L f (rq_path r ''id'') := None)} \<and> db_ok (db w')"
  using ok run
proof (cases rule: DeleteIssueHandlerE)
  case (deleted u f)
  have "issueIDPattern_MatchString (rq_path r ''id'')" using deleted(3) by (simp add: bad_id_def split: if_splits)
  with deleted show ?thesis by (intro exI [of _ u] exI [of _ f]) (simp add: files_step_def)
qed (use st in auto)

definition sample_delete :: request where
  "sample_delete = sample_request 2 ''0001'' [(''If-Match'', computeETag ''a''), (''X-Forwarded-For'', ''unknown'')] ''''"

definition world_with_issue :: world where
  "world_with_issue = plain_world\<lparr>db := sample_db\<lparr>files := [\<lparr>f_project_id = 7, f_path = ''0001.md'', f_etag = computeETag ''a'',
     f_size = 1, f_content_type = markdown, f_modified_at = 0, f_modified_by = 2\<rparr>]\<rparr>,
     s3 := [issue_key sample_lib 7 ''0001'' \<mapsto> stored ''a'' markdown]\<rparr>"

lemma world_with_issue_ok: "db_ok (db world_with_issue)"
  using sample_db_ok by (simp add: world_with_issue_def db_ok_files)

lemma sample_delete_204: "rs_status (fst (DeleteIssueHandler sample_lib sample_delete world_with_issue)) = 204"
  by (simp add: sample_delete_def DeleteIssueHandler_def world_with_issue_def plain_world_def handler_eval effects_eval Let_def)

theorem DeleteIssueHandler_deleted_witness:
  "\<exists>f. tag_of (db (snd (DeleteIssueHandler sample_lib sample_delete world_with_issue))) (f, ''0001.md'') = None"
proof -
  obtain resp w' where run: "DeleteIssueHandler sample_lib sample_delete world_with_issue = (resp, w')" by fastforce
  then have st: "rs_status resp = 204" using sample_delete_204 by simp
  from DeleteIssueHandler_deleted [OF world_with_issue_ok run st] run show ?thesis
    by (auto simp: sample_delete_def issue_path_def)
qed

text \<open>What a write request can be answered: the answer of its success, and the status codes of its refusals.\<close>

fun accepted_answer :: "lib \<Rightarrow> write_op \<Rightarrow> response option" where
  "accepted_answer L (PutIssue r) = Some (writeETagJSON 200 (computeETag (rq_body r)))"
| "accepted_answer L (PostIssue r) = map_option (\<lambda>req. writeETagJSON 201 (computeETag (pr_body req))) (post_request L r)"
| "accepted_answer L (DeleteIssue r) = Some no_content"
| "accepted_answer L (PutAttachment r) =
     Some (writeETagJSON (if rq_header r ''If-None-Match'' = ''*'' then 201 else 200) (computeETag (rq_body r)))"
| "accepted_answer L (DeleteAttachment r) = Some no_content"
| "accepted_answer L (PutProjectJSON r) = Some (writeETagJSON 200 (computeETag (rq_body r)))"

fun refusals :: "write_op \<Rightarrow> nat set" where
  "refusals (PostIssue r) = {400, 401, 403, 409, 500}"
| "refusals (DeleteIssue r) = {400, 401, 403, 404, 409, 428, 500}"
| "refusals (DeleteAttachment r) = {400, 401, 403, 500}"
| "refusals (PutIssue r) = {400, 401, 403, 409, 413, 428, 500}"
| "refusals (PutAttachment r) = {400, 401, 403, 409, 413, 428, 500}"
| "refusals (PutProjectJSON r) = {400, 401, 403, 409, 413, 428, 500}"

text \<open>The request has no precondition although its operation asks for one.\<close>

fun unconditional :: "write_op \<Rightarrow> bool" where
  "unconditional (PostIssue r) \<longleftrightarrow> False"
| "unconditional (DeleteAttachment r) \<longleftrightarrow> False"
| "unconditional (DeleteIssue r) \<longleftrightarrow> rq_header r ''If-Match'' = ''''"
| "unconditional (PutIssue r) \<longleftrightarrow> rq_header r ''If-None-Match'' \<noteq> ''*'' \<and> rq_header r ''If-Match'' = ''''"
| "unconditional (PutAttachment r) \<longleftrightarrow> rq_header r ''If-None-Match'' \<noteq> ''*'' \<and> rq_header r ''If-Match'' = ''''"
| "unconditional (PutProjectJSON r) \<longleftrightarrow> rq_header r ''If-None-Match'' \<noteq> ''*'' \<and> rq_header r ''If-Match'' = ''''"

definition refused_properly :: "write_op \<Rightarrow> world \<Rightarrow> response \<Rightarrow> world \<Rightarrow> bool" where
  "refused_properly oper w resp w' \<longleftrightarrow> rs_status resp \<in> refusals oper \<and> (rs_status resp = 428 \<longrightarrow> unconditional oper) \<and>
     (rs_status resp \<notin> {404, 409, 500} \<longrightarrow> quiet w w')"

context put_handler
begin

lemma asks_precondition:
  assumes "db_ok (db w)" and "handler L r w = (resp, w')" and "rs_status resp = 428"
  shows "rq_header r ''If-None-Match'' \<noteq> ''*'' \<and> rq_header r ''If-Match'' = ''''"
  using assms(2) [unfolded shape]
proof (cases rule: guardedE)
  case refused
  then show ?thesis using assms(3) bad_400 by fastforce
next
  case (passed u f w1 s)
  show ?thesis
  proof (rule ccontr)
    assume have_one: "\<not> ?thesis"
    obtain x w2 where fe: "FileExists f (path r) w1 = (x, w2)" by fastforce
    have ok: "db_ok (db w2)" using assms(1) quietD(1)[OF passed(1)] quietD(1)[OF FileExists_quiet [OF fe]] by simp
    from passed(2) have_one fe assms(3) obtain m body where
      "store_file L r action (path r) (key L r f) (ct L body) ''etag conflict'' (status (rq_header r ''If-None-Match'' = ''*'')) (old_etag x)
         (ev L r f u (rq_header r ''If-None-Match'' = ''*'')) u f m body w2 = (resp, w')"
      by (auto simp: put_file_def Let_def readBody_def writeError_def split: if_splits)
    with ok show False
      by (cases rule: store_fileE) (use assms(3) ok_status [of "rq_header r ''If-None-Match'' = ''*''"] in \<open>auto simp: writeError_def writeETagJSON_def\<close>)
  qed
qed

lemma refusal:
  assumes "db_ok (db w)" and "handler L r w = (resp, w')" and "rs_status resp \<notin> {200, 201}"
    and "refusals oper = {400, 401, 403, 409, 413, 428, 500}"
    and "unconditional oper \<longleftrightarrow> rq_header r ''If-None-Match'' \<noteq> ''*'' \<and> rq_header r ''If-Match'' = ''''"
  shows "refused_properly oper w resp w'"
  using statuses [OF assms(1,2)] asks_precondition [OF assms(1,2)] assms(3-5) unfolding refused_properly_def by auto

end

lemma DeleteIssue_asks_precondition:
  assumes "DeleteIssueHandler L r w = (resp, w')" and "rs_status resp = 428"
  shows "rq_header r ''If-Match'' = ''''"
  using assms(1) [unfolded DeleteIssueHandler_eq]
proof (cases rule: guardedE)
  case refused
  then show ?thesis using assms(2) bad_path_400(1) by fastforce
next
  case (passed u f w1 s)
  then show ?thesis using assms(2) by (auto simp: writeError_def no_content_def split: if_splits prod.splits sum.splits)
qed

lemma write_answer:
  assumes "db_ok (db w)" and "write_handle L oper w = (resp, w')" and "rs_status resp \<in> {200, 201, 204}"
  shows "accepted_answer L oper = Some resp"
proof (cases oper)
  case (PutIssue r)
  with assms put_issue.accepted [of w L r resp w'] put_issue.statuses(1) [of w L r resp w'] show ?thesis by auto
next
  case (PutAttachment r)
  with assms put_attachment.accepted [of w L r resp w'] put_attachment.statuses(1) [of w L r resp w'] show ?thesis by auto
next
  case (PutProjectJSON r)
  with assms put_project_json.accepted [of w L r resp w'] put_project_json.statuses(1) [of w L r resp w'] show ?thesis by auto
next
  case (PostIssue r)
  then have run: "PostIssueHandler L r w = (resp, w')" using assms(2) by simp
  then show ?thesis
  proof (cases rule: PostIssueHandlerE)
    case (reached u f req w1)
    from assms(1) [folded quietD(1)[OF reached(1)]] reached(6) show ?thesis
      by (cases rule: store_fileE) (use assms(3) PostIssue reached(3) in \<open>auto simp: writeError_def\<close>)
  qed (use assms(3) in auto)
next
  case (DeleteIssue r)
  then have "DeleteIssueHandler L r w = (resp, w')" using assms(2) by simp
  with assms(1) show ?thesis by (cases rule: DeleteIssueHandlerE) (use assms(3) DeleteIssue in auto)
next
  case (DeleteAttachment r)
  then have "DeleteAttachmentHandler L r w = (resp, w')" using assms(2) by simp
  with assms(1) show ?thesis by (cases rule: DeleteAttachmentHandlerE) (use assms(3) DeleteAttachment in auto)
qed

lemma write_refusal:
  assumes "db_ok (db w)" and "write_handle L oper w = (resp, w')" and "rs_status resp \<notin> {200, 201, 204}"
  shows "refused_properly oper w resp w'"
proof (cases oper)
  case (PutIssue r)
  with assms show ?thesis by (intro put_issue.refusal [of w L r]) auto
next
  case (PutAttachment r)
  with assms show ?thesis by (intro put_attachment.refusal [of w L r]) auto
next
  case (PutProjectJSON r)
  with assms show ?thesis by (intro put_project_json.refusal [of w L r]) auto
next
  case (PostIssue r)
  then have run: "PostIssueHandler L r w = (resp, w')" using assms(2) by simp
  then show ?thesis
  proof (cases rule: PostIssueHandlerE)
    case stopped
    then show ?thesis using PostIssue by (auto simp: refused_properly_def)
  next
    case (reached u f req w1)
    from assms(1) [folded quietD(1)[OF reached(1)]] reached(6) show ?thesis
      by (cases rule: store_fileE) (use assms(3) PostIssue in \<open>auto simp: refused_properly_def writeError_def writeETagJSON_def\<close>)
  qed
next
  case (DeleteIssue r)
  then have run: "DeleteIssueHandler L r w = (resp, w')" using assms(2) by simp
  with assms(1) show ?thesis
    by (cases rule: DeleteIssueHandlerE)
      (use assms(3) DeleteIssue DeleteIssue_asks_precondition [OF run] in \<open>auto simp: refused_properly_def no_content_def\<close>)
next
  case (DeleteAttachment r)
  then have run: "DeleteAttachmentHandler L r w = (resp, w')" using assms(2) by simp
  with assms(1) show ?thesis
    by (cases rule: DeleteAttachmentHandlerE) (use assms(3) DeleteAttachment in \<open>auto simp: refused_properly_def no_content_def\<close>)
qed

text \<open>C31. The answer and the state of every write: a success is the answer of that operation (200 or 201 with the new tag, in the header as in the body; 204 for a deletion),
  given only when the file's tag satisfied the precondition, and the file then has the new tag (or none, after a deletion) and no other tag has changed. Otherwise
  the status code is one of the operation's refusals; after 400, 401, 403, 413 and 428 nothing has changed in the database, the bucket, the cache or the hub, and 428 is the answer only
  to a request whose precondition headers are missing (\<^verbatim>\<open>RemoteSync.md\<close> asks for 412 there, which no write is ever answered: a recorded divergence).\<close>

theorem write_answers_typed:
  assumes "db_ok (db w)" and "write_handle L oper w = (resp, w')"
  shows "accepted_answer L oper = Some resp \<and> write_guard oper (tag_of (db w) (write_key L oper)) \<and>
       tag_of (db w') = (tag_of (db w))(write_key L oper := write_tag L oper)
     \<or> rs_status resp \<in> refusals oper \<and> (rs_status resp = 428 \<longrightarrow> unconditional oper) \<and>
       (rs_status resp \<notin> {404, 409, 500} \<longrightarrow> db w' = db w \<and> s3 w' = s3 w \<and> cache w' = cache w \<and> the_hub w' = the_hub w)"
proof (cases "rs_status resp \<in> {200, 201, 204}")
  case True
  then show ?thesis using write_answer [OF assms] write_meets [OF assms] by (simp add: op_meets_def Let_def)
next
  case False
  then have "refused_properly oper w resp w'" using write_refusal [OF assms] by simp
  then show ?thesis unfolding refused_properly_def using quietD by blast
qed

theorem write_answers_typed_witness:
  "\<exists>w'. write_handle sample_lib (PutIssue sample_put) sample_world = (writeETagJSON 200 (computeETag ''hello''), w') \<and>
     tag_of (db w') (7, ''0001.md'') = Some (computeETag ''hello'')"
proof -
  obtain resp w' where run: "write_handle sample_lib (PutIssue sample_put) sample_world = (resp, w')" by fastforce
  then have st: "rs_status resp = 200" using sample_put_200 by simp
  have "write_key sample_lib (PutIssue sample_put) = (7, ''0001.md'')" by (simp add: write_key_def issue_path_def)
  with write_answers_typed [OF _ run] st run show ?thesis by auto
qed

end
