(* ===== verification/Read_Api.thy ===== *)
theory Read_Api
  imports Write_Safety
begin

text \<open>
  The read handlers of \<^verbatim>\<open>internal/api/v1\<close>: host.go, folders.go, issues.go and attachments.go.

  Shown: reading changes nothing; an answer about a project is only given to a global admin or a member of it, and never
  for an archived project; what \<open>GET\<close> of an issue returns; that an accepted PUT is read back, and
  that a refused PUT is read back as well, under the old tag.
\<close>

definition json_ok :: "json \<Rightarrow> response" where
  "json_ok j = \<lparr>rs_status = 200, rs_headers = [(''Content-Type'', ''application/json'')], rs_content = JsonBody j\<rparr>"

definition HostHandler :: "lib \<Rightarrow> string \<Rightarrow> request \<Rightarrow> world \<Rightarrow> response \<times> world" where
  "HostHandler L displayName r w =
     (case rq_user r of
        None \<Rightarrow> (writeError 401 ''unauthorized'', w)
      | Some userIDStr \<Rightarrow>
     (case uuid_Parse L userIDStr of
        None \<Rightarrow> (writeError 400 ''invalid user id'', w)
      | Some userID \<Rightarrow>
     (case UserByID userID w of
        (Inl _, w) \<Rightarrow> (writeError 500 ''internal error'', w)
      | (Inr globalRole, w) \<Rightarrow>
     let isAdmin = (globalRole = ''admin'') in
     (case ProjectsForUser L userID isAdmin w of
        (Inl _, w) \<Rightarrow> (writeError 500 ''internal error'', w)
      | (Inr folders, w) \<Rightarrow>
     (json_ok (enc_HostInfo \<lparr>hi_displayName = displayName, hi_folderCount = int (length folders)\<rparr>), w)))))"

definition FoldersHandler :: "lib \<Rightarrow> request \<Rightarrow> world \<Rightarrow> response \<times> world" where
  "FoldersHandler L r w =
     or_return (resolveUser L r w) (\<lambda>(userID, isAdmin) w.
     (case ProjectsForUser L userID isAdmin w of
        (Inl _, w) \<Rightarrow> (writeError 500 ''internal error'', w)
      | (Inr folders, w) \<Rightarrow> (json_ok (JArr (map enc_FolderInfo folders)), w)))"

definition FolderByIDHandler :: "lib \<Rightarrow> request \<Rightarrow> world \<Rightarrow> response \<times> world" where
  "FolderByIDHandler L r w =
     or_return (resolveUser L r w) (\<lambda>(userID, isAdmin) w.
     (case uuid_Parse L (rq_path r ''folderId'') of
        None \<Rightarrow> (writeError 400 ''invalid folder id'', w)
      | Some folderID \<Rightarrow>
     (case ProjectByID L userID isAdmin folderID w of
        (Inl e, w) \<Rightarrow>
          (if e = ErrNoRows then writeError 404 ''folder not found'' else writeError 500 ''internal error'', w)
      | (Inr folder, w) \<Rightarrow> (json_ok (enc_FolderInfo folder), w))))"

text \<open>\<^verbatim>\<open>if _, err := storage.ProjectByID(...); err != nil { ... return }\<close>, the same three times.\<close>

definition folder_access :: "lib \<Rightarrow> uuid \<Rightarrow> bool \<Rightarrow> uuid \<Rightarrow> world \<Rightarrow> (response + unit) \<times> world" where
  "folder_access L userID isAdmin folderID w =
     (case ProjectByID L userID isAdmin folderID w of
        (Inl e, w) \<Rightarrow>
          (Inl (if e = ErrNoRows then writeError 404 ''folder not found'' else writeError 500 ''internal error''), w)
      | (Inr _, w) \<Rightarrow> (Inr (), w))"

definition IssuesHandler :: "lib \<Rightarrow> request \<Rightarrow> world \<Rightarrow> response \<times> world" where
  "IssuesHandler L r w =
     or_return (resolveUser L r w) (\<lambda>(userID, isAdmin) w.
     or_return (parseFolderID L r w) (\<lambda>folderID w.
     or_return (folder_access L userID isAdmin folderID w) (\<lambda>_ w.
     (case IssuesForProject L folderID w of
        (Inl _, w) \<Rightarrow> (writeError 500 ''internal error'', w)
      | (Inr issues, w) \<Rightarrow> (json_ok (JArr (map enc_IssueMetadata issues)), w)))))"

definition IssueByIDHandler :: "lib \<Rightarrow> request \<Rightarrow> world \<Rightarrow> response \<times> world" where
  "IssueByIDHandler L r w =
     or_return (resolveUser L r w) (\<lambda>(userID, isAdmin) w.
     or_return (parseFolderID L r w) (\<lambda>folderID w.
     let issueID = rq_path r ''id'' in
     if issueID = '''' then (writeError 400 ''missing issue id'', w)
     else
     or_return (folder_access L userID isAdmin folderID w) (\<lambda>_ w.
     (case IssueByID L folderID issueID w of
        (Inl e, w) \<Rightarrow>
          (if e = ErrNoRows then writeError 404 ''issue not found'' else writeError 500 ''internal error'', w)
      | (Inr (s3Key, etag), w) \<Rightarrow>
     (case GetObject L s3Key w of
        (Inl _, w) \<Rightarrow> (writeError 500 ''internal error'', w)
      | (Inr (body, _), w) \<Rightarrow>
     (case stream L body w of
        ((sent, _), w) \<Rightarrow>
          (\<lparr>rs_status = 200, rs_headers = [(''Content-Type'', markdown), (''ETag'', quoted etag)],
            rs_content = RawBody sent\<rparr>, w)))))))"

definition AttachmentHandler :: "lib \<Rightarrow> request \<Rightarrow> world \<Rightarrow> response \<times> world" where
  "AttachmentHandler L r w =
     or_return (resolveUser L r w) (\<lambda>(userID, isAdmin) w.
     or_return (parseFolderID L r w) (\<lambda>folderID w.
     let issueID = rq_path r ''id'' in
     if issueID = '''' then (writeError 400 ''missing issue id'', w)
     else
     let name = rq_path r ''name'' in
     if name = '''' then (writeError 400 ''missing attachment name'', w)
     else
     or_return (folder_access L userID isAdmin folderID w) (\<lambda>_ w.
     (case AttachmentByPath L folderID issueID name w of
        (Inl e, w) \<Rightarrow>
          (if e = ErrNoRows then writeError 404 ''attachment not found'' else writeError 500 ''internal error'', w)
      | (Inr (s3Key, contentType), w) \<Rightarrow>
     (case StreamObject L s3Key contentType w of ((_, resp), w) \<Rightarrow> (resp, w))))))"

section \<open>Reading is quiet\<close>

lemma quiet_ProjectsForUser: "ProjectsForUser L u a w = (x, w') \<Longrightarrow> quiet w w'"
  unfolding ProjectsForUser_def by (rule quiet_query)

lemma quiet_ProjectByID: "ProjectByID L u a f w = (x, w') \<Longrightarrow> quiet w w'"
  unfolding ProjectByID_def by (rule quiet_query)

lemma quiet_IssuesForProject: "IssuesForProject L f w = (x, w') \<Longrightarrow> quiet w w'"
  unfolding IssuesForProject_def by (rule quiet_query)

lemma quiet_query_then:
  "(case db_call (query f) w of (Inl e, w1) \<Rightarrow> (g e, w1) | (Inr a, w1) \<Rightarrow> (h a, w1)) = (x, w') \<Longrightarrow> quiet w w'"
proof -
  assume run: "(case db_call (query f) w of (Inl e, w1) \<Rightarrow> (g e, w1) | (Inr a, w1) \<Rightarrow> (h a, w1)) = (x, w')"
  obtain y w1 where call: "db_call (query f) w = (y, w1)" by fastforce
  with run have "w' = w1" by (cases y) simp_all
  with quiet_query [OF call] show ?thesis by simp
qed

lemma quiet_IssueByID: "IssueByID L f i w = (x, w') \<Longrightarrow> quiet w w'"
  unfolding IssueByID_def by (rule quiet_query_then)

lemma quiet_AttachmentByPath: "AttachmentByPath L f i n w = (x, w') \<Longrightarrow> quiet w w'"
  unfolding AttachmentByPath_def by (rule quiet_query_then)

lemma quiet_folder_access: "folder_access L u a f w = (x, w') \<Longrightarrow> quiet w w'"
  unfolding folder_access_def ProjectByID_def by (rule quiet_query_then)

lemma quiet_UserByID: "UserByID u w = (x, w') \<Longrightarrow> quiet w w'"
  unfolding UserByID_def by (rule quiet_query)

lemma next_fate_fates: "next_fate w = (x, w') \<Longrightarrow> fates w = [] \<longrightarrow> fates w' = []"
  by (auto simp: next_fate_def split: list.splits)

lemma quiet_next_fate: "next_fate w = (x, w') \<Longrightarrow> quiet w w'"
  using next_fate_keeps [of w x w'] next_fate_fates [of w x w'] by (simp add: quiet_def)

lemma quiet_GetObject: "GetObject L k w = (x, w') \<Longrightarrow> quiet w w'"
proof -
  assume run: "GetObject L k w = (x, w')"
  let ?g = "\<lambda>b. (case b k of None \<Rightarrow> Inl ErrIO | Some ob \<Rightarrow> Inr ob, b)"
  have "w' = snd (s3_call ?g w)"
    using run by (simp add: GetObject_def split: prod.splits sum.splits)
  then show ?thesis
    using GetObject_frame [of L k w] run s3_call_frame(4)[of ?g w] s3_call_fates [of w ?g] by (simp add: quiet_def)
qed

lemma quiet_stream: "stream L b w = (x, w') \<Longrightarrow> quiet w w'"
  by (auto simp: stream_def split: prod.splits fate.splits dest: quiet_next_fate)

lemma quiet_StreamObject: "StreamObject L k ct w = (x, w') \<Longrightarrow> quiet w w'"
  by (auto simp: StreamObject_def split: prod.splits sum.splits dest!: quiet_GetObject quiet_stream intro: quiet_trans)

lemma quiet_or_return:
  "or_return x k = (resp, w') \<Longrightarrow> quiet w (snd x) \<Longrightarrow> (\<And>a w1 y w2. k a w1 = (y, w2) \<Longrightarrow> quiet w1 w2) \<Longrightarrow> quiet w w'"
  by (erule or_returnE) (auto intro: quiet_trans)

section \<open>Who may read\<close>

text \<open>The project exists, is not archived, and the user is a global admin or one of its members.\<close>

definition readable :: "lib \<Rightarrow> request \<Rightarrow> db \<Rightarrow> uuid \<Rightarrow> uuid \<Rightarrow> bool" where
  "readable L r d u f \<longleftrightarrow>
     Option.bind (rq_user r) (uuid_Parse L) = Some u \<and> uuid_Parse L (rq_path r ''folderId'') = Some f \<and>
     (case lookup_by u_id u (users d) of
        None \<Rightarrow> False
      | Some usr \<Rightarrow> \<exists>p \<in> set (projects d). p_id p = f \<and> p_archived_at p = None \<and>
          (u_global_role usr = ''admin'' \<or> (f, u) \<in> member_key ` set (project_members d)))"

lemma set_joined_projects:
  "p \<in> set (joined_projects u d) \<longleftrightarrow> p \<in> set (projects d) \<and> (p_id p, u) \<in> member_key ` set (project_members d)"
  by (auto simp: joined_projects_def member_key_def image_iff) metis

lemma set_visible_projects:
  "p \<in> set (visible_projects u adm d) \<longleftrightarrow> p \<in> set (projects d) \<and> p_archived_at p = None \<and>
     (adm \<or> (p_id p, u) \<in> member_key ` set (project_members d))"
  by (auto simp: visible_projects_def set_joined_projects)

lemma distinct_unique_on: "unique_on key rows \<Longrightarrow> distinct rows"
  by (simp add: unique_on_def distinct_map)

text \<open>The join on the primary key of \<open>project_members\<close> yields a project at most once.\<close>

lemma members_at_most_one:
  "unique_on member_key ms \<Longrightarrow> length (filter (\<lambda>m. m_project_id m = f \<and> m_user_id m = u) ms) \<le> 1"
  using rows_affected_unique [of member_key ms "(f, u)" "\<lambda>_. True"]
  by (auto simp: rows_affected_def member_key_def split: option.splits)

lemma distinct_joined:
  assumes "distinct (projects d)" and "unique_on member_key (project_members d)"
  shows "distinct (joined_projects u d)"
proof -
  let ?ms = "\<lambda>p. filter (\<lambda>m. m_project_id m = p_id p \<and> m_user_id m = u) (project_members d)"
  have one: "distinct (map (\<lambda>m. p) (?ms p))" for p
    using members_at_most_one [OF assms(2), of "p_id p" u] by (cases "?ms p") (auto simp: Suc_le_length_iff)
  have "distinct (concat (map (\<lambda>p. map (\<lambda>m. p) (?ms p)) ps))" if "distinct ps" for ps
    using that one by (induction ps) auto
  with assms(1) show ?thesis by (simp add: joined_projects_def)
qed

lemma ProjectByID_Inr:
  assumes "ProjectByID L u adm f w = (Inr fi, w')"
  shows "\<exists>p \<in> set (projects (db w)). p_id p = f \<and> p_archived_at p = None \<and>
    (adm \<or> (f, u) \<in> member_key ` set (project_members (db w))) \<and> fi = folderInfo L p"
proof -
  obtain p where "lookup_by p_id f (visible_projects u adm (db w)) = Some p" "fi = folderInfo L p"
    using db_call_query_Inr [OF assms [unfolded ProjectByID_def]] by (auto simp: one_row_def split: option.splits)
  with lookup_by_Some show ?thesis by (fastforce simp: set_visible_projects)
qed

text \<open>The checks in front of the three handlers that read a project.\<close>

lemma access_checksE:
  assumes "or_return (resolveUser L r w) (\<lambda>(u, adm) w. or_return (parseFolderID L r w) (\<lambda>f w.
      case bad of Some e \<Rightarrow> (e, w) | None \<Rightarrow> or_return (folder_access L u adm f w) (\<lambda>_ w. k f w))) = (resp, w')"
  obtains (stopped) "quiet w w'" "rs_status resp \<in> {400, 401, 404, 500} \<or> bad = Some resp"
  | (passed) u f w1 where "quiet w w1" "readable L r (db w) u f" "bad = None" "k f w1 = (resp, w')"
proof -
  obtain x w1 where res: "resolveUser L r w = (x, w1)" by fastforce
  note q1 = resolveUser_quiet [OF res]
  show thesis
  proof (cases x)
    case (Inl resp1)
    with assms res have "resp = resp1 \<and> w' = w1" by simp
    with res Inl q1 show thesis
      by (intro stopped) (auto simp: resolveUser_def writeError_def split: option.splits prod.splits sum.splits)
  next
    case (Inr a)
    obtain u adm where a: "a = (u, adm)" by fastforce
    obtain s usr where user: "rq_user r = Some s" "uuid_Parse L s = Some u" "lookup_by u_id u (users (db w)) = Some usr"
        "adm = (u_global_role usr = ''admin'')"
      using resolveUser_Inr [OF res [unfolded Inr a]] by blast
    show thesis
    proof (cases "uuid_Parse L (rq_path r ''folderId'') = None \<or> bad \<noteq> None")
      case True
      with assms res Inr a q1 show thesis
        by (intro stopped) (auto simp: parseFolderID_def writeError_def split: option.splits)
    next
      case False
      then obtain f where f: "uuid_Parse L (rq_path r ''folderId'') = Some f" "bad = None" by auto
      obtain y w2 where proj: "ProjectByID L u adm f w1 = (y, w2)" by fastforce
      note q2 = quiet_trans [OF q1 quiet_ProjectByID [OF proj]]
      show thesis
      proof (cases y)
        case e: (Inl e)
        with assms res Inr a f proj have "resp = (if e = ErrNoRows then writeError 404 ''folder not found'' else
            writeError 500 ''internal error'') \<and> w' = w2"
          by (simp add: parseFolderID_def folder_access_def)
        with q2 show thesis by (intro stopped) (simp_all add: writeError_def)
      next
        case fi: (Inr fi)
        with assms res Inr a f proj have k: "k f w2 = (resp, w')" by (simp add: parseFolderID_def folder_access_def)
        have "readable L r (db w) u f"
          using ProjectByID_Inr [OF proj [unfolded fi]] user f quietD(1)[OF q1] by (auto simp: readable_def)
        with k q2 f show thesis by (auto intro: passed)
      qed
    qed
  qed
qed

definition bad_issue_read :: "request \<Rightarrow> response option" where
  "bad_issue_read r = (if rq_path r ''id'' = '''' then Some (writeError 400 ''missing issue id'') else None)"

text \<open>The rest of \<open>IssueByIDHandler\<close> once access is granted.\<close>

definition serve_issue :: "lib \<Rightarrow> string \<Rightarrow> uuid \<Rightarrow> world \<Rightarrow> response \<times> world" where
  "serve_issue L issueID f w =
     (case IssueByID L f issueID w of
        (Inl e, w) \<Rightarrow> (if e = ErrNoRows then writeError 404 ''issue not found'' else writeError 500 ''internal error'', w)
      | (Inr (s3Key, etag), w) \<Rightarrow> (case GetObject L s3Key w of
        (Inl _, w) \<Rightarrow> (writeError 500 ''internal error'', w)
      | (Inr (body, _), w) \<Rightarrow> (case stream L body w of
        ((sent, _), w) \<Rightarrow> (\<lparr>rs_status = 200, rs_headers = [(''Content-Type'', markdown), (''ETag'', quoted etag)],
            rs_content = RawBody sent\<rparr>, w))))"

lemma IssueByIDHandler_eq:
  "IssueByIDHandler L r w =
     or_return (resolveUser L r w) (\<lambda>(u, adm) w. or_return (parseFolderID L r w) (\<lambda>f w.
       case bad_issue_read r of Some e \<Rightarrow> (e, w)
       | None \<Rightarrow> or_return (folder_access L u adm f w) (\<lambda>_ w. serve_issue L (rq_path r ''id'') f w)))"
  unfolding IssueByIDHandler_def bad_issue_read_def serve_issue_def Let_def
  by (cases "rq_path r ''id'' = ''''") (simp_all only: if_True if_False option.case refl)

lemma IssueByID_Inr:
  assumes "IssueByID L f i w = (Inr (k, t), w')"
  shows "\<exists>row. file_of (db w) f (i @ ''.md'') = Some row \<and> k = issue_key L f i \<and> t = f_etag row"
proof -
  let ?q = "\<lambda>d. one_row (map_option f_etag (file_of d f (i @ ''.md'')))"
  obtain x w1 where call: "db_call (query ?q) w = (x, w1)" by fastforce
  with assms obtain e where x: "x = Inr e" by (cases x) (auto simp: IssueByID_def)
  have "?q (db w) = Inr e" by (rule db_call_query_Inr [OF call [unfolded x]])
  with assms call x show ?thesis by (auto simp: IssueByID_def one_row_def split: option.splits)
qed

lemma stream_sent:
  assumes "stream L body w = ((sent, whole), w')"
  shows "\<exists>n. sent = take n body" "fates w = [] \<Longrightarrow> sent = body"
  using assms by (auto simp: stream_def next_fate_def split: prod.splits fate.splits list.splits intro: exI [of _ "length body"])

lemma serve_issueE:
  assumes "serve_issue L i f w = (resp, w')"
  obtains (missing) "quiet w w'" "rs_status resp \<in> {404, 500}"
  | (served) row ob sent where "quiet w w'" "file_of (db w) f (i @ ''.md'') = Some row" "s3 w (issue_key L f i) = Some ob"
      "\<exists>n. sent = take n (o_body ob)" "fates w = [] \<Longrightarrow> sent = o_body ob"
      "resp = \<lparr>rs_status = 200, rs_headers = [(''Content-Type'', markdown), (''ETag'', quoted (f_etag row))],
               rs_content = RawBody sent\<rparr>"
proof -
  obtain x w2 where iss: "IssueByID L f i w = (x, w2)" by fastforce
  note q2 = quiet_IssueByID [OF iss]
  show thesis
  proof (cases x)
    case (Inl e)
    with assms iss q2 show thesis by (intro missing) (auto simp: serve_issue_def writeError_def split: if_splits)
  next
    case (Inr kt)
    obtain row where row: "file_of (db w) f (i @ ''.md'') = Some row" "kt = (issue_key L f i, f_etag row)"
      using IssueByID_Inr [of L f i w "fst kt" "snd kt" w2] iss Inr by (auto simp: prod_eq_iff)
    obtain y w3 where get: "GetObject L (issue_key L f i) w2 = (y, w3)" by fastforce
    note q3 = quiet_trans [OF q2 quiet_GetObject [OF get]]
    show thesis
    proof (cases y)
      case e: (Inl e)
      with assms iss Inr row get q3 show thesis by (intro missing) (auto simp: serve_issue_def writeError_def)
    next
      case bt: (Inr bt)
      obtain body t where b: "bt = (body, t)" by fastforce
      obtain ob where ob: "s3 w (issue_key L f i) = Some ob" "body = o_body ob"
        using GetObject_Inr [OF get [unfolded bt b]] quietD(2)[OF q2] by auto
      obtain sent whole w4 where str: "stream L body w3 = ((sent, whole), w4)" by (metis surj_pair)
      have "w' = w4 \<and> resp = \<lparr>rs_status = 200, rs_headers = [(''Content-Type'', markdown), (''ETag'', quoted (f_etag row))],
               rs_content = RawBody sent\<rparr>"
        using assms iss Inr row(2) get bt b str by (simp add: serve_issue_def)
      then show thesis
        using served [OF _ row(1) ob(1)] stream_sent [OF str] quiet_trans [OF q3 quiet_stream [OF str]] quietD(6)[OF q3] ob(2)
        by simp
    qed
  qed
qed

lemma IssueByIDHandlerE:
  assumes "IssueByIDHandler L r w = (resp, w')"
  obtains (stopped) "quiet w w'" "rs_status resp \<in> {400, 401, 404, 500}"
  | (served) u f row ob sent where "quiet w w'" "readable L r (db w) u f" "file_of (db w) f (issue_path r) = Some row"
      "s3 w (issue_key L f (rq_path r ''id'')) = Some ob" "\<exists>n. sent = take n (o_body ob)"
      "fates w = [] \<Longrightarrow> sent = o_body ob"
      "resp = \<lparr>rs_status = 200, rs_headers = [(''Content-Type'', markdown), (''ETag'', quoted (f_etag row))],
               rs_content = RawBody sent\<rparr>"
  using assms [unfolded IssueByIDHandler_eq]
proof (cases rule: access_checksE)
  case stopped
  then show thesis using that(1) by (auto simp: bad_issue_read_def writeError_def split: if_splits)
next
  case (passed u f w1)
  note w1 = quietD [OF passed(1)]
  from passed(4) show thesis
  proof (cases rule: serve_issueE)
    case missing
    with passed(1) show thesis by (intro that(1)) (auto intro: quiet_trans)
  next
    case (served row ob sent)
    then show thesis
      using that(2)[OF quiet_trans [OF passed(1) served(1)] passed(2), of row ob sent] w1 by (simp add: issue_path_def)
  qed
qed

section \<open>Isolation\<close>

datatype read_op = GetHost | GetFolders | GetFolder | GetIssues | GetIssue | GetAttachment

fun read_handle :: "lib \<Rightarrow> string \<Rightarrow> read_op \<Rightarrow> request \<Rightarrow> world \<Rightarrow> response \<times> world" where
  "read_handle L nm GetHost r = HostHandler L nm r"
| "read_handle L nm GetFolders r = FoldersHandler L r"
| "read_handle L nm GetFolder r = FolderByIDHandler L r"
| "read_handle L nm GetIssues r = IssuesHandler L r"
| "read_handle L nm GetIssue r = IssueByIDHandler L r"
| "read_handle L nm GetAttachment r = AttachmentHandler L r"

definition about_project :: "read_op \<Rightarrow> bool" where
  "about_project oper \<longleftrightarrow> oper \<in> {GetFolder, GetIssues, GetIssue, GetAttachment}"

definition read_safe :: "lib \<Rightarrow> read_op \<Rightarrow> request \<Rightarrow> world \<Rightarrow> response \<Rightarrow> world \<Rightarrow> bool" where
  "read_safe L oper r w resp w' \<longleftrightarrow>
     quiet w w' \<and> (about_project oper \<longrightarrow> rs_status resp = 200 \<longrightarrow> (\<exists>u f. readable L r (db w) u f))"

lemma read_safe_checks:
  assumes "or_return (resolveUser L r w) (\<lambda>(u, adm) w. or_return (parseFolderID L r w) (\<lambda>f w.
      case bad of Some e \<Rightarrow> (e, w) | None \<Rightarrow> or_return (folder_access L u adm f w) (\<lambda>_ w. k f w))) = (resp, w')"
    and "\<And>f w1 resp w'. k f w1 = (resp, w') \<Longrightarrow> quiet w1 w'" and "\<And>e. bad = Some e \<Longrightarrow> rs_status e = 400"
  shows "read_safe L oper r w resp w'"
  using assms(1)
proof (cases rule: access_checksE)
  case stopped
  with assms(3) show ?thesis by (auto simp: read_safe_def)
next
  case (passed u f w1)
  with assms(2) show ?thesis by (auto simp: read_safe_def intro: quiet_trans)
qed

lemma IssueByIDHandler_safe: "IssueByIDHandler L r w = (resp, w') \<Longrightarrow> read_safe L oper r w resp w'"
  unfolding IssueByIDHandler_eq
  by (erule read_safe_checks) (auto elim: serve_issueE simp: bad_issue_read_def writeError_def split: if_splits)

lemma IssuesHandler_safe:
  assumes "IssuesHandler L r w = (resp, w')"
  shows "read_safe L oper r w resp w'"
  by (rule read_safe_checks [where bad = None, unfolded option.case, OF assms [unfolded IssuesHandler_def]])
     (auto split: prod.splits sum.splits dest: quiet_IssuesForProject)

definition bad_attachment_read :: "request \<Rightarrow> response option" where
  "bad_attachment_read r =
     (if rq_path r ''id'' = '''' then Some (writeError 400 ''missing issue id'')
      else if rq_path r ''name'' = '''' then Some (writeError 400 ''missing attachment name'') else None)"

definition serve_attachment :: "lib \<Rightarrow> string \<Rightarrow> string \<Rightarrow> uuid \<Rightarrow> world \<Rightarrow> response \<times> world" where
  "serve_attachment L issueID name f w =
     (case AttachmentByPath L f issueID name w of
        (Inl e, w) \<Rightarrow> (if e = ErrNoRows then writeError 404 ''attachment not found'' else writeError 500 ''internal error'', w)
      | (Inr (s3Key, contentType), w) \<Rightarrow> (case StreamObject L s3Key contentType w of ((_, resp), w) \<Rightarrow> (resp, w)))"

lemma AttachmentHandler_eq:
  "AttachmentHandler L r w =
     or_return (resolveUser L r w) (\<lambda>(u, adm) w. or_return (parseFolderID L r w) (\<lambda>f w.
       case bad_attachment_read r of Some e \<Rightarrow> (e, w)
       | None \<Rightarrow> or_return (folder_access L u adm f w) (\<lambda>_ w. serve_attachment L (rq_path r ''id'') (rq_path r ''name'') f w)))"
  unfolding AttachmentHandler_def bad_attachment_read_def serve_attachment_def Let_def
  by (cases "rq_path r ''id'' = ''''"; cases "rq_path r ''name'' = ''''") (simp_all only: if_True if_False option.case refl)

lemma quiet_serve_attachment: "serve_attachment L i n f w = (resp, w') \<Longrightarrow> quiet w w'"
  by (auto simp: serve_attachment_def split: prod.splits sum.splits dest!: quiet_AttachmentByPath quiet_StreamObject
      intro: quiet_trans)

lemma AttachmentHandler_safe: "AttachmentHandler L r w = (resp, w') \<Longrightarrow> read_safe L oper r w resp w'"
  unfolding AttachmentHandler_eq
  by (erule read_safe_checks) (auto simp: quiet_serve_attachment bad_attachment_read_def writeError_def split: if_splits)

lemma FolderByIDHandler_safe:
  assumes "FolderByIDHandler L r w = (resp, w')"
  shows "read_safe L oper r w resp w'"
  using assms unfolding FolderByIDHandler_def
proof (cases rule: or_returnE)
  case ret
  then show ?thesis
    using resolveUser_quiet [OF ret]
    by (auto simp: read_safe_def resolveUser_def writeError_def split: option.splits prod.splits sum.splits)
next
  case (cont a w1)
  obtain u adm where a: "a = (u, adm)" by fastforce
  note q1 = resolveUser_quiet [OF cont(1)]
  show ?thesis
  proof (cases "uuid_Parse L (rq_path r ''folderId'')")
    case None
    with cont(2) a q1 show ?thesis by (auto simp: read_safe_def writeError_def)
  next
    case (Some f)
    obtain y w2 where proj: "ProjectByID L u adm f w1 = (y, w2)" by fastforce
    note q2 = quiet_trans [OF q1 quiet_ProjectByID [OF proj]]
    have "readable L r (db w) u f" if "y = Inr fi" for fi
      using ProjectByID_Inr [OF proj [unfolded that]] resolveUser_Inr [OF cont(1) [unfolded a]] Some quietD(1)[OF q1]
      by (auto simp: readable_def)
    then show ?thesis
      using cont(2) a Some proj q2 by (cases y) (auto simp: read_safe_def writeError_def split: if_splits)
  qed
qed

lemma FoldersHandler_quiet: "FoldersHandler L r w = (resp, w') \<Longrightarrow> quiet w w'"
  unfolding FoldersHandler_def
  by (erule or_returnE)
     (auto split: prod.splits sum.splits dest!: resolveUser_quiet quiet_ProjectsForUser intro: quiet_trans)

lemma HostHandler_quiet: "HostHandler L nm r w = (resp, w') \<Longrightarrow> quiet w w'"
  by (auto simp: HostHandler_def Let_def split: option.splits prod.splits sum.splits
      dest!: quiet_UserByID quiet_ProjectsForUser intro: quiet_trans)

lemma read_handle_safe: "read_handle L nm oper r w = (resp, w') \<Longrightarrow> read_safe L oper r w resp w'"
  by (cases oper)
     (auto simp: IssueByIDHandler_safe IssuesHandler_safe AttachmentHandler_safe FolderByIDHandler_safe
        dest: FoldersHandler_quiet HostHandler_quiet, auto simp: read_safe_def about_project_def
        dest: FoldersHandler_quiet HostHandler_quiet)

section \<open>Requests that succeed\<close>

lemma access_calls:
  assumes f: "fates w = []" and rd: "readable L r (db w) u f"
  obtains adm where "resolveUser L r w = (Inr (u, adm), w)" "parseFolderID L r w = (Inr f, w)" "folder_access L u adm f w = (Inr (), w)"
proof -
  obtain s where s: "rq_user r = Some s" "uuid_Parse L s = Some u" "uuid_Parse L (rq_path r ''folderId'') = Some f"
    using rd by (auto simp: readable_def bind_eq_Some_conv)
  obtain usr where usr: "lookup_by u_id u (users (db w)) = Some usr"
    using rd by (auto simp: readable_def split: option.splits)
  obtain p where "p \<in> set (visible_projects u (u_global_role usr = ''admin'') (db w))" "p_id p = f"
    using rd usr by (auto simp: readable_def set_visible_projects)
  then obtain q where q: "lookup_by p_id f (visible_projects u (u_global_role usr = ''admin'') (db w)) = Some q"
    by (cases "lookup_by p_id f (visible_projects u (u_global_role usr = ''admin'') (db w))") (auto simp: lookup_by_None)
  show thesis
    using s usr q f
    by (intro that [of "u_global_role usr = ''admin''"])
      (simp_all add: resolveUser_def UserByID_def db_call_query_Done parseFolderID_def folder_access_def ProjectByID_def)
qed

lemma access_passes:
  assumes f: "fates w = []" and rd: "readable L r (db w) u f"
  shows "or_return (resolveUser L r w) (\<lambda>(u, adm) w. or_return (parseFolderID L r w) (\<lambda>f w.
      case None of Some e \<Rightarrow> (e, w) | None \<Rightarrow> or_return (folder_access L u adm f w) (\<lambda>_ w. k f w))) = k f w"
  by (rule access_calls [OF assms]) simp

lemma IssueByIDHandler_Done:
  assumes "fates w = []" and "readable L r (db w) u f" and "rq_path r ''id'' \<noteq> ''''"
    and "file_of (db w) f (issue_path r) = Some row" and "s3 w (issue_key L f (rq_path r ''id'')) = Some ob"
  shows "fst (IssueByIDHandler L r w) =
    \<lparr>rs_status = 200, rs_headers = [(''Content-Type'', markdown), (''ETag'', quoted (f_etag row))], rs_content = RawBody (o_body ob)\<rparr>"
proof -
  have "IssueByIDHandler L r w = serve_issue L (rq_path r ''id'') f w"
    using access_passes [OF assms(1,2)] assms(3) by (simp add: IssueByIDHandler_eq bad_issue_read_def)
  then show ?thesis
    using assms(1,4,5)
    by (simp add: serve_issue_def IssueByID_def issue_path_def db_call_query_Done GetObject_def s3_call_Done stream_def next_fate_def)
qed

section \<open>Properties\<close>

text \<open>C14. Reading is safe: none of the six read handlers changes the database, the bucket, the cache or the hub, and an
  answer of 200 about a project (its description, its list of issues, an issue, an attachment) is only given for a project that exists and
  is not archived, to a global admin or to one of its members.\<close>

theorem read_isolation:
  assumes "read_handle L nm oper r w = (resp, w')"
  shows "db w' = db w \<and> s3 w' = s3 w \<and> cache w' = cache w \<and> the_hub w' = the_hub w \<and>
    (about_project oper \<and> rs_status resp = 200 \<longrightarrow> (\<exists>u f. readable L r (db w) u f))"
  using read_handle_safe [OF assms] by (auto simp: read_safe_def quietD)

theorem read_isolation_witness:
  "rs_status (fst (read_handle sample_lib ''srv'' GetIssues (sample_request 3 ''0001'' [] '''') sample_world)) \<noteq> 200"
proof -
  obtain resp w' where run: "read_handle sample_lib ''srv'' GetIssues (sample_request 3 ''0001'' [] '''') sample_world = (resp, w')"
    by fastforce
  have "\<not> readable sample_lib (sample_request 3 ''0001'' [] '''') sample_db u f" for u f
    by (auto simp: readable_def sample_db_def sample_user_def empty_db_def member_key_def)
  with read_isolation [OF run] run show ?thesis by (simp add: about_project_def)
qed

text \<open>C10. Read your write: without failures, once a PUT of an issue has been answered 200, a GET of the same issue by anyone who may read the project
  returns exactly the bytes of the PUT, under the tag that the PUT returned.\<close>

theorem read_your_write:
  assumes "db_ok (db w)" and "PutIssueHandler L r w = (resp, w1)" and "rs_status resp = 200"
    and "fates w1 = []" and "readable L g (db w1) u f"
    and "rq_path g ''id'' = rq_path r ''id''" and "rq_path g ''folderId'' = rq_path r ''folderId''"
  shows "fst (IssueByIDHandler L g w1) =
    \<lparr>rs_status = 200, rs_headers = [(''Content-Type'', markdown), (''ETag'', quoted (computeETag (rq_body r)))],
     rs_content = RawBody (rq_body r)\<rparr>"
proof -
  have st: "rs_status resp \<in> {200, 201}" using assms(3) by simp
  obtain u' f' where al: "allowed L r ''editor'' (db w) u' f'" "bad_id r = None"
    and row: "row_written (db w1) f' (issue_path r) (rq_body r) markdown (clock w) u'"
    and obj: "s3 w1 = (s3 w)(issue_key L f' (rq_path r ''id'') \<mapsto> stored (rq_body r) markdown)"
    using put_issue.accepted [OF assms(1,2) st] by blast
  have f: "f' = f" using al assms(5,7) by (simp add: allowed_def readable_def)
  have id: "rq_path g ''id'' \<noteq> ''''"
    using al(2) assms(6) by (auto simp: bad_id_def issueIDPattern_MatchString_def split: if_splits)
  obtain rw where rw: "file_of (db w1) f (issue_path g) = Some rw" "f_etag rw = computeETag (rq_body r)"
    using row f assms(6) by (auto simp: row_written_def issue_path_def split: option.splits)
  have "s3 w1 (issue_key L f (rq_path g ''id'')) = Some (stored (rq_body r) markdown)"
    using obj f assms(6) by simp
  from IssueByIDHandler_Done [OF assms(4,5) id rw(1) this] rw(2) show ?thesis by (simp add: stored_def)
qed

abbreviation sample_put_plain :: request where
  "sample_put_plain \<equiv> sample_request 2 ''0001'' [(''If-None-Match'', ''*''), (''X-Forwarded-For'', ''unknown'')] ''hello''"

definition plain_after :: world where
  "plain_after = snd (PutIssueHandler sample_lib sample_put_plain plain_world)"

lemma plain_after_facts:
  "rs_status (fst (PutIssueHandler sample_lib sample_put_plain plain_world)) = 200"
  "fates plain_after = []" "users (db plain_after) = users sample_db" "projects (db plain_after) = projects sample_db"
  "project_members (db plain_after) = project_members sample_db"
  by (simp_all add: plain_after_def PutIssueHandler_def plain_world_def handler_eval effects_eval Let_def)

theorem read_your_write_witness:
  "rs_content (fst (IssueByIDHandler sample_lib (sample_request 2 ''0001'' [] '''') plain_after)) = RawBody ''hello''"
proof -
  obtain resp where run: "PutIssueHandler sample_lib sample_put_plain plain_world = (resp, plain_after)" "rs_status resp = 200"
    using plain_after_facts(1) by (cases "PutIssueHandler sample_lib sample_put_plain plain_world") (simp add: plain_after_def)
  have rd: "readable sample_lib (sample_request 2 ''0001'' [] '''') (db plain_after) 2 7"
    by (simp add: readable_def plain_after_facts sample_db_def sample_user_def empty_db_def member_key_def)
  have ok: "db_ok (db plain_world)" by simp
  from read_your_write [OF ok run plain_after_facts(2) rd] show ?thesis by simp
qed

text \<open>A refused PUT is served to readers: when a PUT of an existing issue was answered 409, a GET of the issue (without failures) returns
  the bytes of the refused PUT, under the tag of the version that the conflict was meant to protect.\<close>

theorem refused_put_is_served:
  assumes "db_ok (db w)" and "PutIssueHandler L r w = (resp, w1)" and "rs_status resp = 409"
    and "fates w1 = []" and "readable L g (db w1) u f"
    and "rq_path g ''id'' = rq_path r ''id''" and "rq_path g ''folderId'' = rq_path r ''folderId''"
    and "rq_path r ''id'' \<noteq> ''''" and "tag_of (db w) (f, issue_path r) = Some t"
  shows "fst (IssueByIDHandler L g w1) =
    \<lparr>rs_status = 200, rs_headers = [(''Content-Type'', markdown), (''ETag'', quoted t)], rs_content = RawBody (rq_body r)\<rparr>"
proof -
  obtain u' f' where al: "allowed L r ''editor'' (db w) u' f'" and tags: "tag_of (db w1) = tag_of (db w)"
    and obj: "s3 w1 = (s3 w)(issue_key L f' (rq_path r ''id'') \<mapsto> stored (rq_body r) markdown)"
    using put_issue.conflicted [OF assms(1-3)] by blast
  have f: "f' = f" using al assms(5,7) by (simp add: allowed_def readable_def)
  obtain rw where rw: "file_of (db w1) f (issue_path g) = Some rw" "f_etag rw = t"
    using assms(6,9) tags [THEN fun_cong, of "(f, issue_path r)"] by (auto simp: tag_of_def issue_path_def)
  have "s3 w1 (issue_key L f (rq_path g ''id'')) = Some (stored (rq_body r) markdown)"
    using obj f assms(6) by simp
  from IssueByIDHandler_Done [OF assms(4,5) _ rw(1) this] rw(2) assms(6,8) show ?thesis by (simp add: stored_def)
qed

definition refused_after :: world where
  "refused_after = snd (PutIssueHandler sample_lib sample_stale
     (world_with_issue\<lparr>db := (db world_with_issue)\<lparr>files := map (\<lambda>f. f\<lparr>f_etag := ''current''\<rparr>) (files (db world_with_issue))\<rparr>\<rparr>))"

abbreviation before_refusal :: world where
  "before_refusal \<equiv> world_with_issue\<lparr>db := (db world_with_issue)\<lparr>files := map (\<lambda>f. f\<lparr>f_etag := ''current''\<rparr>) (files (db world_with_issue))\<rparr>\<rparr>"

lemma refused_after_facts:
  "rs_status (fst (PutIssueHandler sample_lib sample_stale before_refusal)) = 409"
  "fates refused_after = []" "users (db refused_after) = users sample_db" "projects (db refused_after) = projects sample_db"
  "project_members (db refused_after) = project_members sample_db"
  by (simp_all add: refused_after_def world_with_issue_def PutIssueHandler_def plain_world_def handler_eval writeError_def Let_def)

theorem refused_put_is_served_witness:
  "fst (IssueByIDHandler sample_lib (sample_request 2 ''0001'' [] '''') refused_after) =
     \<lparr>rs_status = 200, rs_headers = [(''Content-Type'', markdown), (''ETag'', quoted ''current'')], rs_content = RawBody ''lost''\<rparr>"
proof -
  obtain resp where run: "PutIssueHandler sample_lib sample_stale before_refusal = (resp, refused_after)" "rs_status resp = 409"
    using refused_after_facts(1) by (cases "PutIssueHandler sample_lib sample_stale before_refusal") (simp add: refused_after_def)
  have rd: "readable sample_lib (sample_request 2 ''0001'' [] '''') (db refused_after) 2 7"
    by (simp add: readable_def refused_after_facts sample_db_def sample_user_def empty_db_def member_key_def)
  have ok: "db_ok (db before_refusal)"
    using sample_db_ok by (simp add: world_with_issue_def db_ok_files)
  have tag: "tag_of (db before_refusal) (7, issue_path sample_stale) = Some ''current''"
    by (simp add: world_with_issue_def tag_of_def file_of_def file_key_def issue_path_def)
  from refused_put_is_served [OF ok run refused_after_facts(2) rd _ _ _ tag] show ?thesis by simp
qed

text \<open>A lost attachment looks like an empty one: when the row of an attachment is there but the bucket does not deliver the object, \<open>AttachmentHandler\<close>
  returns without writing anything, which the client sees as 200 with an empty body.\<close>

theorem missing_attachment_object_is_200:
  assumes "fates w = []" and "readable L r (db w) u f" and "rq_path r ''id'' \<noteq> ''''" and "rq_path r ''name'' \<noteq> ''''"
    and "file_of (db w) f (attachment_path r) = Some row"
    and "s3 w (attachment_key L f (rq_path r ''id'') (rq_path r ''name'')) = None"
  shows "fst (AttachmentHandler L r w) = \<lparr>rs_status = 200, rs_headers = [], rs_content = NoContent\<rparr>"
proof -
  have "AttachmentHandler L r w = serve_attachment L (rq_path r ''id'') (rq_path r ''name'') f w"
    using access_passes [OF assms(1,2)] assms(3,4) by (simp add: AttachmentHandler_eq bad_attachment_read_def)
  then show ?thesis
    using assms(1,5,6)
    by (simp add: serve_attachment_def AttachmentByPath_def attachment_path_def db_call_query_Done StreamObject_def GetObject_def
        s3_call_Done)
qed

theorem missing_attachment_object_is_200_witness:
  "rs_status (fst (AttachmentHandler sample_lib (sample_request 2 ''0001'' [] '''')
     (plain_world\<lparr>db := sample_db\<lparr>files := [\<lparr>f_project_id = 7, f_path = ''0001/a.png'', f_etag = ''t'', f_size = 1,
        f_content_type = ''image/png'', f_modified_at = 0, f_modified_by = 2\<rparr>]\<rparr>\<rparr>))) = 200"
proof -
  let ?w = "plain_world\<lparr>db := sample_db\<lparr>files := [\<lparr>f_project_id = 7, f_path = ''0001/a.png'', f_etag = ''t'', f_size = 1,
        f_content_type = ''image/png'', f_modified_at = 0, f_modified_by = 2\<rparr>]\<rparr>\<rparr>"
  have rd: "readable sample_lib (sample_request 2 ''0001'' [] '''') (db ?w) 2 7"
    by (simp add: readable_def sample_db_def sample_user_def empty_db_def member_key_def)
  have row: "file_of (db ?w) 7 (attachment_path (sample_request 2 ''0001'' [] '''')) \<noteq> None"
    by (simp add: file_of_def file_key_def attachment_path_def)
  then show ?thesis
    using missing_attachment_object_is_200 [OF _ rd] by (auto simp del: not_None_eq)
qed

text \<open>The folder list is complete and exact: \<open>ProjectsForUser\<close> describes every project that is not archived and that the user may
  see, and nothing else, one entry per project, in the order of the display names.\<close>

theorem ProjectsForUser_exact:
  assumes "db_ok (db w)" and "ProjectsForUser L u adm w = (Inr fis, w')"
  shows "set fis = folderInfo L ` {p \<in> set (projects (db w)). p_archived_at p = None \<and>
           (adm \<or> (p_id p, u) \<in> member_key ` set (project_members (db w)))} \<and>
    length fis = card {p \<in> set (projects (db w)). p_archived_at p = None \<and>
           (adm \<or> (p_id p, u) \<in> member_key ` set (project_members (db w)))} \<and>
    sorted (map (\<lambda>fi. collate L (fi_displayName fi)) fis)"
proof -
  let ?vis = "visible_projects u adm (db w)"
  have fis: "fis = map (folderInfo L) (sort_key (\<lambda>p. collate L (p_display_name p)) ?vis)"
    using db_call_query_Inr [OF assms(2) [unfolded ProjectsForUser_def]] by simp
  have "distinct ?vis"
    using assms(1) by (auto simp: visible_projects_def db_ok_def projects_ok_def members_ok_def
        intro!: distinct_filter distinct_joined dest: distinct_unique_on)
  then have len: "length fis = card (set ?vis)" by (simp add: fis distinct_card)
  have "map (\<lambda>fi. collate L (fi_displayName fi)) fis =
      map (\<lambda>p. collate L (p_display_name p)) (sort_key (\<lambda>p. collate L (p_display_name p)) ?vis)"
    by (simp add: fis folderInfo_def)
  then have srt: "sorted (map (\<lambda>fi. collate L (fi_displayName fi)) fis)" by simp
  have vis: "set ?vis = {p \<in> set (projects (db w)). p_archived_at p = None \<and>
           (adm \<or> (p_id p, u) \<in> member_key ` set (project_members (db w)))}"
    by (auto simp: set_visible_projects)
  have "set fis = folderInfo L ` set ?vis" by (simp add: fis)
  with len srt show ?thesis unfolding vis by blast
qed

theorem ProjectsForUser_exact_witness:
  "\<exists>fis w'. ProjectsForUser sample_lib 2 False sample_world = (Inr fis, w') \<and> length fis = 1"
proof -
  obtain fis w' where run: "ProjectsForUser sample_lib 2 False sample_world = (Inr fis, w')"
    by (simp add: ProjectsForUser_def db_call_query_Done)
  have "{p \<in> set (projects sample_db). p_archived_at p = None \<and> (False \<or> (p_id p, 2) \<in> member_key ` set (project_members sample_db))} =
      set (projects sample_db)" "card (set (projects sample_db)) = 1"
    by (auto simp: sample_db_def empty_db_def member_key_def)
  with ProjectsForUser_exact [OF _ run] run show ?thesis by simp
qed

end
