(* ===== verification/Router.thy ===== *)
theory Router
  imports Admin_Safety Read_Api
begin

text \<open>
  Routing: the part of \<open>net/http\<close>'s \<open>ServeMux\<close> that the two route tables use, and the tables themselves, \<open>NewRouter\<close> of
  \<^verbatim>\<open>internal/api/router.go\<close> and \<open>Handler\<close> of \<^verbatim>\<open>internal/admin/admin.go\<close>.

  A path is the list of its segments, after the unescaping that \<open>PathValue\<close> shows; a trailing slash is the last segment \<open>/\<close>, as in the
  standard library's routing tree. Paths that are not clean (empty, \<open>.\<close> or \<open>..\<close> segments) are redirected by the mux before it looks at its
  patterns and are not considered. \<open>mux_search\<close> is the search of the routing tree: at every segment a literal is preferred to a
  wildcard and a wildcard to the rest pattern of a trailing slash, with backtracking; patterns with the method are preferred to patterns without.

  Shown: the tables dispatch every documented address to its handler with the path values bound, whatever the values are; every \<open>/v1\<close> route that touches
  data is behind \<open>RequireAuth\<close>; and the dashboard of the console cannot be reached through the outer router.
\<close>

section \<open>\<open>http.ServeMux\<close>\<close>

datatype seg = Lit string | Wild string | Rest

type_synonym 'h route = "string option \<times> seg list \<times> 'h"

text \<open>The children of a node of the routing tree along a literal, a wildcard, and the rest pattern.\<close>

definition lit_child :: "string \<Rightarrow> (seg list \<times> 'h) list \<Rightarrow> (seg list \<times> 'h) list" where
  "lit_child x ps = List.map_filter (\<lambda>(p, h). case p of Lit l # q \<Rightarrow> if l = x then Some (q, h) else None | _ \<Rightarrow> None) ps"

definition wild_child :: "(seg list \<times> 'h) list \<Rightarrow> (seg list \<times> 'h) list" where
  "wild_child ps = List.map_filter (\<lambda>(p, h). case p of Wild n # q \<Rightarrow> Some (q, h) | _ \<Rightarrow> None) ps"

definition rest_leaf :: "(seg list \<times> 'h) list \<Rightarrow> 'h option" where
  "rest_leaf ps = map_option snd (find (\<lambda>(p, h). p = [Rest]) ps)"

fun mux_search :: "(seg list \<times> 'h) list \<Rightarrow> string list \<Rightarrow> 'h option" where
  "mux_search ps [] = map_option snd (find (\<lambda>(p, h). p = []) ps)"
| "mux_search ps (x # xs) =
     (case mux_search (lit_child x ps) xs of
        Some h \<Rightarrow> Some h
      | None \<Rightarrow>
          (case (if x = ''/'' then None else mux_search (wild_child ps) xs) of
             Some h \<Rightarrow> Some h
           | None \<Rightarrow> rest_leaf ps))"

definition with_method :: "string option \<Rightarrow> 'h route list \<Rightarrow> (seg list \<times> (seg list \<times> 'h)) list" where
  "with_method m rs = map (\<lambda>(_, p, h). (p, p, h)) (filter (\<lambda>(m', _, _). m' = m) rs)"

text \<open>\<open>matchMethodAndPath\<close>: the method, GET for HEAD, then the patterns without a method.\<close>

definition mux_match :: "'h route list \<Rightarrow> string \<Rightarrow> string list \<Rightarrow> (seg list \<times> 'h) option" where
  "mux_match rs meth path =
     (case mux_search (with_method (Some meth) rs) path of
        Some h \<Rightarrow> Some h
      | None \<Rightarrow>
          (case (if meth = ''HEAD'' then mux_search (with_method (Some ''GET'') rs) path else None) of
             Some h \<Rightarrow> Some h
           | None \<Rightarrow> mux_search (with_method None rs) path))"

definition exactMatch :: "seg list \<Rightarrow> string list \<Rightarrow> bool" where
  "exactMatch p path \<longleftrightarrow> (if p = [] \<or> last p \<noteq> Rest then True else path \<noteq> [] \<and> last path = ''/'' \<and> length p = length path)"

datatype 'h mux_result = Matched "seg list" 'h | MovedTo "string list" | MethodNotAllowed | PageNotFound

definition mux_methods :: "'h route list \<Rightarrow> string list \<Rightarrow> string list" where
  "mux_methods rs path = filter (\<lambda>m. mux_search (with_method (Some m) rs) path \<noteq> None) (List.map_filter fst rs)"

text \<open>\<open>findHandler\<close>: a path without a trailing slash is moved to the one with it when only that one is an exact match.\<close>

definition mux_find :: "'h route list \<Rightarrow> string \<Rightarrow> string list \<Rightarrow> 'h mux_result" where
  "mux_find rs meth path =
     (let n = mux_match rs meth path;
          exact = (case n of None \<Rightarrow> False | Some (p, _) \<Rightarrow> exactMatch p path);
          slashed = path @ [''/''] in
      if \<not> exact \<and> path \<noteq> [] \<and> last path \<noteq> ''/'' \<and>
         (case mux_match rs meth slashed of None \<Rightarrow> False | Some (p, _) \<Rightarrow> exactMatch p slashed)
      then MovedTo slashed
      else case n of
             Some (p, h) \<Rightarrow> Matched p h
           | None \<Rightarrow> if mux_methods rs path \<noteq> [] then MethodNotAllowed else PageNotFound)"

text \<open>\<open>r.PathValue\<close>: the segments that the wildcards of the pattern matched.\<close>

definition path_value :: "seg list \<Rightarrow> string list \<Rightarrow> string \<Rightarrow> string" where
  "path_value p path n =
     (case find (\<lambda>(s, x). s = Wild n) (zip p path) of None \<Rightarrow> '''' | Some (_, x) \<Rightarrow> x)"

section \<open>The API's table\<close>

datatype api_route =
    Healthz | AuthStub | Host | Folders | FolderByID | Issues | IssueByID | Attachment
  | PutIssueR | PostIssueR | DeleteIssueR | PutAttachmentR | DeleteAttachmentR | PutProjectJSON
  | Events | V1Stub | AdminConsole

definition folder_segs :: "seg list" where
  "folder_segs = [Lit ''v1'', Lit ''folders'', Wild ''folderId'']"

definition issue_segs :: "seg list" where
  "issue_segs = folder_segs @ [Lit ''issues'', Wild ''id'']"

definition attachment_segs :: "seg list" where
  "attachment_segs = issue_segs @ [Lit ''attachments'', Wild ''name'']"

definition auth_stub :: "string \<Rightarrow> api_route route" where
  "auth_stub s = (Some ''POST'', [Lit ''v1'', Lit ''auth'', Lit s], AuthStub)"

definition NewRouter :: "api_route route list" where
  "NewRouter =
     [(Some ''GET'', [Lit ''healthz''], Healthz),
      auth_stub ''begin-assertion'', auth_stub ''finish-assertion'', auth_stub ''refresh'',
      auth_stub ''begin-registration'', auth_stub ''finish-registration'', auth_stub ''logout'',
      (Some ''GET'', [Lit ''v1'', Lit ''host''], Host),
      (Some ''GET'', [Lit ''v1'', Lit ''folders''], Folders),
      (Some ''GET'', folder_segs, FolderByID),
      (Some ''GET'', folder_segs @ [Lit ''issues''], Issues),
      (Some ''GET'', issue_segs, IssueByID),
      (Some ''GET'', attachment_segs, Attachment),
      (Some ''PUT'', issue_segs, PutIssueR),
      (Some ''POST'', folder_segs @ [Lit ''issues''], PostIssueR),
      (Some ''DELETE'', issue_segs, DeleteIssueR),
      (Some ''PUT'', attachment_segs, PutAttachmentR),
      (Some ''DELETE'', attachment_segs, DeleteAttachmentR),
      (Some ''PUT'', folder_segs @ [Lit ''project.json''], PutProjectJSON),
      (Some ''GET'', [Lit ''v1'', Lit ''events''], Events),
      (None, [Lit ''v1'', Rest], V1Stub),
      (None, [Lit ''admin'', Rest], AdminConsole)]"

section \<open>The console's table\<close>

datatype admin_route = StaticFile | Public public_op | Protected console_op

definition project_segs :: "seg list" where
  "project_segs = [Lit ''admin'', Lit ''projects'', Wild ''slug'']"

definition admin_Handler :: "admin_route route list" where
  "admin_Handler =
     [(Some ''GET'', [Lit ''admin'', Lit ''static'', Rest], StaticFile),
      (Some ''GET'', [Lit ''admin'', Lit ''login''], Public GetLogin),
      (Some ''POST'', [Lit ''admin'', Lit ''login''], Public PostLogin),
      (Some ''POST'', [Lit ''admin'', Lit ''login'', Lit ''complete''], Public PostLoginComplete),
      (Some ''GET'', [Lit ''admin'', Lit ''enroll'', Wild ''token''], Public GetEnroll),
      (Some ''POST'', [Lit ''admin'', Lit ''enroll'', Wild ''token''], Public PostEnroll),
      (Some ''GET'', [Lit ''admin''], Protected GetDashboard),
      (Some ''GET'', [Lit ''admin'', Lit ''users''], Protected GetUsers),
      (Some ''POST'', [Lit ''admin'', Lit ''users'', Lit ''invite''], Protected PostUsersInvite),
      (Some ''GET'', [Lit ''admin'', Lit ''users'', Wild ''id''], Protected GetUserDetail),
      (Some ''POST'', [Lit ''admin'', Lit ''users'', Wild ''id'', Lit ''deactivate''], Protected PostUserDeactivate),
      (Some ''POST'', [Lit ''admin'', Lit ''users'', Wild ''id'', Lit ''sessions'', Wild ''sid'', Lit ''revoke''],
        Protected PostUserSessionRevoke),
      (Some ''GET'', [Lit ''admin'', Lit ''projects''], Protected GetProjects),
      (Some ''POST'', [Lit ''admin'', Lit ''projects''], Protected PostProjects),
      (Some ''GET'', project_segs, Protected GetProject),
      (Some ''POST'', project_segs, Protected PostProject),
      (Some ''POST'', project_segs @ [Lit ''archive''], Protected PostProjectArchive),
      (Some ''GET'', project_segs @ [Lit ''members''], Protected GetMembers),
      (Some ''POST'', project_segs @ [Lit ''members''], Protected PostMembers),
      (Some ''POST'', project_segs @ [Lit ''members'', Wild ''uid'', Lit ''remove''], Protected PostMemberRemove),
      (Some ''POST'', project_segs @ [Lit ''members'', Wild ''uid'', Lit ''role''], Protected PostMemberRole),
      (Some ''GET'', project_segs @ [Lit ''files''], Protected GetFiles),
      (Some ''GET'', [Lit ''admin'', Lit ''audit''], Protected GetAudit),
      (Some ''GET'', [Lit ''admin'', Lit ''sessions''], Protected GetSessions),
      (Some ''POST'', [Lit ''admin'', Lit ''sessions'', Wild ''sid'', Lit ''revoke''], Protected PostSessionRevoke),
      (Some ''GET'', [Lit ''admin'', Lit ''devices''], Protected GetDevices),
      (Some ''POST'', [Lit ''admin'', Lit ''devices'', Wild ''id'', Lit ''remove''], Protected PostDeviceRemove),
      (Some ''POST'', [Lit ''admin'', Lit ''logout''], Protected PostLogout)]"

section \<open>Matching\<close>

text \<open>The reference definition: when a pattern matches a path.\<close>

fun seg_match :: "seg list \<Rightarrow> string list \<Rightarrow> bool" where
  "seg_match [] [] \<longleftrightarrow> True"
| "seg_match [Rest] (x # xs) \<longleftrightarrow> True"
| "seg_match (Lit l # p) (x # xs) \<longleftrightarrow> l = x \<and> seg_match p xs"
| "seg_match (Wild n # p) (x # xs) \<longleftrightarrow> x \<noteq> ''/'' \<and> seg_match p xs"
| "seg_match _ _ \<longleftrightarrow> False"

lemma set_lit_child: "(q, h) \<in> set (lit_child x ps) \<longleftrightarrow> (Lit x # q, h) \<in> set ps"
  by (induction ps) (auto simp: lit_child_def List.map_filter_def split: list.splits seg.splits option.splits if_splits)

lemma set_wild_child: "(q, h) \<in> set (wild_child ps) \<longleftrightarrow> (\<exists>n. (Wild n # q, h) \<in> set ps)"
  by (induction ps) (auto simp: wild_child_def List.map_filter_def split: list.splits seg.splits option.splits if_splits)

lemma rest_leaf_Some: "rest_leaf ps = Some h \<Longrightarrow> ([Rest], h) \<in> set ps"
  by (auto simp: rest_leaf_def find_Some_iff) (metis nth_mem)

lemma rest_leaf_None: "rest_leaf ps = None \<longleftrightarrow> (\<forall>h. ([Rest], h) \<notin> set ps)"
  by (auto simp: rest_leaf_def find_None_iff)

text \<open>The search finds a pattern that matches, and misses none.\<close>

lemma mux_search_sound: "mux_search ps path = Some h \<Longrightarrow> \<exists>p. (p, h) \<in> set ps \<and> seg_match p path"
proof (induction ps path arbitrary: h rule: mux_search.induct)
  case (1 ps)
  then show ?case by (auto simp: find_Some_iff) (metis nth_mem seg_match.simps(1))
next
  case (2 ps x xs)
  from 2(3) consider "mux_search (lit_child x ps) xs = Some h"
    | "mux_search (lit_child x ps) xs = None" "x \<noteq> ''/''" "mux_search (wild_child ps) xs = Some h" | "rest_leaf ps = Some h"
    by (auto split: option.splits if_splits)
  then show ?case
  proof cases
    case 1
    from "2.IH"(1)[OF 1] obtain q where "(Lit x # q, h) \<in> set ps" "seg_match q xs" by (auto simp: set_lit_child)
    then show ?thesis by (intro exI [of _ "Lit x # q"]) simp
  next
    case 2
    from "2.IH"(2)[OF 2] obtain n q where "(Wild n # q, h) \<in> set ps" "seg_match q xs" by (auto simp: set_wild_child)
    then show ?thesis using 2(2) by (intro exI [of _ "Wild n # q"]) simp
  next
    case 3
    then show ?thesis by (intro exI [of _ "[Rest]"]) (simp add: rest_leaf_Some)
  qed
qed

lemma mux_search_complete: "(p, h) \<in> set ps \<Longrightarrow> seg_match p path \<Longrightarrow> mux_search ps path \<noteq> None"
proof (induction ps path arbitrary: p h rule: mux_search.induct)
  case (1 ps)
  then have "p = []" by (cases "(p, [] :: string list)" rule: seg_match.cases) auto
  with 1 show ?case by (auto simp: find_None_iff)
next
  case (2 ps x xs)
  from 2(4) consider "p = [Rest]" | q where "p = Lit x # q" "seg_match q xs" | n q where "p = Wild n # q" "x \<noteq> ''/''" "seg_match q xs"
    by (cases "(p, x # xs)" rule: seg_match.cases) auto
  then show ?case
  proof cases
    case 1
    with 2(3) have "rest_leaf ps \<noteq> None" by (auto simp: rest_leaf_None)
    then show ?thesis by (auto split: option.splits)
  next
    case (2 q)
    with "2.IH"(1)[of q h] \<open>(p, h) \<in> set ps\<close> show ?thesis by (auto simp: set_lit_child split: option.splits)
  next
    case (3 n q)
    then have "(q, h) \<in> set (wild_child ps)" using \<open>(p, h) \<in> set ps\<close> by (auto simp: set_wild_child)
    with "2.IH"(2)[of q h] 3 show ?thesis by (auto split: option.splits)
  qed
qed

text \<open>What a match of the two tables means: a route of the table with the method of the request (GET for HEAD, or none) and a pattern that matches.\<close>

lemma mux_match_route:
  assumes "mux_match rs meth path = Some (p, h)"
  obtains m where "(m, p, h) \<in> set rs" "seg_match p path" "m = Some meth \<or> meth = ''HEAD'' \<and> m = Some ''GET'' \<or> m = None"
proof -
  obtain m where m: "mux_search (with_method m rs) path = Some (p, h)" "m = Some meth \<or> meth = ''HEAD'' \<and> m = Some ''GET'' \<or> m = None"
    using assms by (auto simp: mux_match_def split: option.splits if_splits)
  from mux_search_sound [OF m(1)] obtain p' where p': "(p', p, h) \<in> set (with_method m rs)" "seg_match p' path" by blast
  from p'(1) have "p' = p" "(m, p, h) \<in> set rs" by (auto simp: with_method_def)
  with that m(2) p'(2) show thesis by simp
qed

lemma mux_find_Matched: "mux_find rs meth path = Matched p h \<Longrightarrow> mux_match rs meth path = Some (p, h)"
  by (auto simp: mux_find_def Let_def split: if_splits option.splits)

lemmas mux_simps = mux_find_def mux_match_def Let_def with_method_def lit_child_def wild_child_def rest_leaf_def List.map_filter_def
  exactMatch_def mux_methods_def
lemmas api_table = NewRouter_def auth_stub_def folder_segs_def issue_segs_def attachment_segs_def

section \<open>No route hides another\<close>

text \<open>When two patterns can match a common path, and the names of the wildcards of a pattern.\<close>

fun seg_overlap :: "seg list \<Rightarrow> seg list \<Rightarrow> bool" where
  "seg_overlap [] [] \<longleftrightarrow> True"
| "seg_overlap [] _ \<longleftrightarrow> False"
| "seg_overlap _ [] \<longleftrightarrow> False"
| "seg_overlap (Rest # _) _ \<longleftrightarrow> True"
| "seg_overlap _ (Rest # _) \<longleftrightarrow> True"
| "seg_overlap (Lit l # p) (Lit k # q) \<longleftrightarrow> l = k \<and> seg_overlap p q"
| "seg_overlap (Lit l # p) (Wild n # q) \<longleftrightarrow> l \<noteq> ''/'' \<and> seg_overlap p q"
| "seg_overlap (Wild n # p) (Lit k # q) \<longleftrightarrow> k \<noteq> ''/'' \<and> seg_overlap p q"
| "seg_overlap (Wild n # p) (Wild m # q) \<longleftrightarrow> seg_overlap p q"

definition wild_names :: "seg list \<Rightarrow> string list" where
  "wild_names p = List.map_filter (\<lambda>s. case s of Wild n \<Rightarrow> Some n | _ \<Rightarrow> None) p"

lemma seg_match_overlap: "seg_match p path \<Longrightarrow> seg_match q path \<Longrightarrow> seg_overlap p q"
proof (induction p path arbitrary: q rule: seg_match.induct)
  case 1
  then show ?case by (cases q) auto
next
  case (2 x xs)
  then show ?case by (cases q) auto
next
  case (3 l p x xs)
  then show ?case by (cases "(q, x # xs)" rule: seg_match.cases) auto
next
  case (4 n p x xs)
  then show ?case by (cases "(q, x # xs)" rule: seg_match.cases) auto
qed auto

lemma seg_match_length: "seg_match p path \<Longrightarrow> p = [] \<or> last p \<noteq> Rest \<Longrightarrow> length path = length p"
  by (induction p path rule: seg_match.induct) (auto split: if_splits)

lemma path_value_Cons:
  "path_value (s # p) (x # path) n = (if s = Wild n then x else path_value p path n)"
  by (simp add: path_value_def)

text \<open>A pattern whose wildcards have different names binds each to the segment at its place.\<close>

lemma path_value_nth:
  assumes "seg_match p path" "distinct (wild_names p)" "k < length p" "p ! k = Wild n"
  shows "path_value p path n = path ! k"
  using assms
proof (induction p path arbitrary: k rule: seg_match.induct)
  case (3 l p x xs)
  then obtain j where "k = Suc j" by (cases k) auto
  with 3 show ?case by (simp add: path_value_Cons wild_names_def List.map_filter_def)
next
  case (4 m p x xs)
  show ?case
  proof (cases k)
    case 0
    with 4 show ?thesis by (simp add: path_value_Cons)
  next
    case (Suc j)
    with 4(5) have "p ! j = Wild n" "j < length p" using 4(4) by auto
    then have "n \<in> set (wild_names p)"
      by (force simp: wild_names_def List.map_filter_def in_set_conv_nth intro!: image_eqI [of _ _ "Wild n"])
    with 4(3) have "m \<noteq> n" "distinct (wild_names p)" by (auto simp: wild_names_def List.map_filter_def)
    with Suc 4 \<open>p ! j = Wild n\<close> \<open>j < length p\<close> show ?thesis by (simp add: path_value_Cons)
  qed
qed auto

lemma seg_match_rest: "seg_match (p @ [Rest]) path \<Longrightarrow> length p < length path \<and> seg_match (p @ [Rest]) (path @ [x])"
proof (induction p arbitrary: path)
  case Nil
  then show ?case by (cases path) auto
next
  case (Cons s p)
  then obtain y ys where path: "path = y # ys" by (cases path; cases s) auto
  show ?case
  proof (cases s)
    case Rest
    with Cons.prems path show ?thesis by (cases p) auto
  qed (use Cons path in auto)
qed

text \<open>
  The contract of a table of routes: of two routes with the same method, no path can match both, and no pattern uses the name of a wildcard twice. The mux
  then gives every route all the paths of its pattern.
\<close>

locale route_table =
  fixes rs :: "'h route list"
  assumes apart: "\<lbrakk>(m, p, h) \<in> set rs; (m, q, k) \<in> set rs; seg_overlap p q\<rbrakk> \<Longrightarrow> p = q \<and> h = k"
    and names_apart: "(m, p, h) \<in> set rs \<Longrightarrow> distinct (wild_names p)"
begin

lemma search_unique:
  assumes "(m, p, h) \<in> set rs" "seg_match p path"
  shows "mux_search (with_method m rs) path = Some (p, h)"
proof -
  have "(p, p, h) \<in> set (with_method m rs)" using assms(1) by (force simp: with_method_def)
  from mux_search_complete [OF this assms(2)] obtain q k where s: "mux_search (with_method m rs) path = Some (q, k)" by auto
  from mux_search_sound [OF s] have q: "(m, q, k) \<in> set rs" "seg_match q path" by (auto simp: with_method_def)
  from apart [OF assms(1) q(1) seg_match_overlap [OF assms(2) q(2)]] s show ?thesis by simp
qed

lemma match_route: "\<lbrakk>(Some m, p, h) \<in> set rs; seg_match p path\<rbrakk> \<Longrightarrow> mux_match rs m path = Some (p, h)"
  by (simp add: mux_match_def search_unique)

lemma find_route:
  assumes "(Some m, p, h) \<in> set rs" "seg_match p path" "p = [] \<or> last p \<noteq> Rest"
  shows "mux_find rs m path = Matched p h"
  using assms by (auto simp: mux_find_def match_route exactMatch_def)

lemma values_bound:
  assumes "(m, p, h) \<in> set rs" "seg_match p path" "k < length p" "p ! k = Wild n"
  shows "path_value p path n = path ! k"
  using assms by (intro path_value_nth names_apart) auto

text \<open>A route with a trailing slash gets every longer path.\<close>

lemma find_rest:
  assumes "(Some m, p @ [Rest], h) \<in> set rs" "seg_match (p @ [Rest]) path"
  shows "mux_find rs m path = Matched (p @ [Rest]) h"
  using assms seg_match_rest [OF assms(2)] match_route [OF assms(1)]
  by (auto simp: mux_find_def Let_def exactMatch_def)

end

definition routes_apart :: "'h route list \<Rightarrow> bool" where
  "routes_apart rs \<longleftrightarrow> list_all (\<lambda>(m, p, h). distinct (wild_names p)
      \<and> list_all (\<lambda>(m', q, k). m = m' \<and> seg_overlap p q \<longrightarrow> p = q \<and> h = k) rs) rs"

lemma routes_apart_table: "routes_apart rs \<Longrightarrow> route_table rs"
  by unfold_locales (auto simp: routes_apart_def list_all_iff)

lemma api_routes_apart: "routes_apart NewRouter"
  by code_simp

lemma admin_routes_apart: "routes_apart admin_Handler"
  by code_simp

interpretation api: route_table NewRouter
  by (rule routes_apart_table [OF api_routes_apart])

interpretation console: route_table admin_Handler
  by (rule routes_apart_table [OF admin_routes_apart])

section \<open>Properties of the two tables\<close>

text \<open>Every route registered with a method gets every path of its pattern: none of the routes of a table hides another one.\<close>

lemma api_routes_found:
  assumes "(Some m, p, h) \<in> set NewRouter" "seg_match p path"
  shows "mux_find NewRouter m path = Matched p h"
proof -
  have "p = [] \<or> last p \<noteq> Rest" using assms(1) by (auto simp: api_table)
  with api.find_route [OF assms] show ?thesis by simp
qed

lemma console_routes_found:
  assumes "(Some m, p, h) \<in> set admin_Handler" "seg_match p path"
  shows "mux_find admin_Handler m path = Matched p h"
proof (cases "last p = Rest")
  case True
  then have "p = [Lit ''admin'', Lit ''static''] @ [Rest]" using assms(1) by (auto simp: admin_Handler_def project_segs_def)
  with console.find_rest [of m "[Lit ''admin'', Lit ''static'']" h path] assms show ?thesis by simp
next
  case False
  with console.find_route [OF assms] show ?thesis by simp
qed

text \<open>A request the mux gives to a handler has a path that matches the pattern of a route of that handler.\<close>

lemma mux_find_route:
  assumes "mux_find rs meth path = Matched p h"
  obtains m where "(m, p, h) \<in> set rs" "seg_match p path" "m = Some meth \<or> meth = ''HEAD'' \<and> m = Some ''GET'' \<or> m = None"
  using mux_match_route [OF mux_find_Matched [OF assms]] .

text \<open>The search of the routing tree is a refinement of the plain reading of a table: there is a route for a request
  exactly when some pattern with its method, with GET for HEAD, or without a method matches the path.\<close>

lemma mux_match_None:
  "mux_match rs meth path = None \<longleftrightarrow>
     (\<forall>m p h. (m, p, h) \<in> set rs \<and> seg_match p path \<longrightarrow> \<not> (m = Some meth \<or> meth = ''HEAD'' \<and> m = Some ''GET'' \<or> m = None))"
proof
  assume none: "mux_match rs meth path = None"
  show "\<forall>m p h. (m, p, h) \<in> set rs \<and> seg_match p path \<longrightarrow> \<not> (m = Some meth \<or> meth = ''HEAD'' \<and> m = Some ''GET'' \<or> m = None)"
  proof (intro allI impI notI)
    fix m p h
    assume r: "(m, p, h) \<in> set rs \<and> seg_match p path" and m: "m = Some meth \<or> meth = ''HEAD'' \<and> m = Some ''GET'' \<or> m = None"
    then have "(p, p, h) \<in> set (with_method m rs)" by (force simp: with_method_def)
    with r have "mux_search (with_method m rs) path \<noteq> None" by (blast dest: mux_search_complete)
    with none m show False by (auto simp: mux_match_def split: option.splits if_splits)
  qed
next
  assume no_route: "\<forall>m p h. (m, p, h) \<in> set rs \<and> seg_match p path \<longrightarrow> \<not> (m = Some meth \<or> meth = ''HEAD'' \<and> m = Some ''GET'' \<or> m = None)"
  show "mux_match rs meth path = None"
  proof (cases "mux_match rs meth path")
    case (Some r)
    then obtain p h where "mux_match rs meth path = Some (p, h)" by (cases r) auto
    then obtain m where "(m, p, h) \<in> set rs" "seg_match p path" "m = Some meth \<or> meth = ''HEAD'' \<and> m = Some ''GET'' \<or> m = None"
      by (rule mux_match_route)
    then show ?thesis using no_route by blast
  qed simp
qed

text \<open>The outer router passes every path below \<open>/admin/\<close> to the console, with every method.\<close>

lemma below_admin:
  "mux_match NewRouter meth (''admin'' # x # xs) = Some ([Lit ''admin'', Rest], AdminConsole)"
proof (cases "mux_match NewRouter meth (''admin'' # x # xs)")
  case None
  moreover have "(None, [Lit ''admin'', Rest], AdminConsole) \<in> set NewRouter" "seg_match [Lit ''admin'', Rest] (''admin'' # x # xs)"
    by (simp_all add: NewRouter_def)
  ultimately show ?thesis unfolding mux_match_None by blast
next
  case (Some r)
  then obtain p h where "mux_match NewRouter meth (''admin'' # x # xs) = Some (p, h)" by (cases r) auto
  moreover from this obtain m where "(m, p, h) \<in> set NewRouter" "seg_match p (''admin'' # x # xs)" by (rule mux_match_route)
  then have "p = [Lit ''admin'', Rest] \<and> h = AdminConsole" by (auto simp: api_table)
  ultimately show ?thesis by simp
qed

lemma console_found: "mux_find NewRouter meth (''admin'' # x # xs) = Matched [Lit ''admin'', Rest] AdminConsole"
  using below_admin [of meth x xs] below_admin [of meth x "xs @ [''/'']"]
  by (auto simp: mux_find_def Let_def exactMatch_def)

lemma console_path:
  assumes "(Some m, p, h) \<in> set admin_Handler" "seg_match p path" "p \<noteq> [Lit ''admin'']"
  obtains x xs where "path = ''admin'' # x # xs"
proof -
  have "\<exists>s q. p = Lit ''admin'' # s # q" using assms(1,3) by (auto simp: admin_Handler_def project_segs_def)
  then obtain s q where p: "p = Lit ''admin'' # s # q" by blast
  with assms(2) obtain ys where path: "path = ''admin'' # ys" "seg_match (s # q) ys" by (cases path) auto
  then obtain x xs where "ys = x # xs" by (cases ys; cases s; cases q) auto
  with path that show thesis by simp
qed

text \<open>The dashboard cannot be reached: the outer router moves \<open>/admin\<close> to \<open>/admin/\<close>, which the console's own table does not have, and no path that the
  outer router passes to the console is the one of the dashboard's route.
\<close>

theorem dashboard_unreachable:
  "mux_find NewRouter ''GET'' [''admin''] = MovedTo [''admin'', ''/'']
   \<and> mux_find NewRouter ''GET'' [''admin'', ''/''] = Matched [Lit ''admin'', Rest] AdminConsole
   \<and> mux_find admin_Handler ''GET'' [''admin'', ''/''] = PageNotFound
   \<and> (\<forall>meth path p q. mux_find NewRouter meth path = Matched p AdminConsole \<longrightarrow>
        mux_find admin_Handler meth path \<noteq> Matched q (Protected GetDashboard))"
proof (intro conjI allI impI notI)
  fix meth path p q
  assume "mux_find NewRouter meth path = Matched p AdminConsole" and inner: "mux_find admin_Handler meth path = Matched q (Protected GetDashboard)"
  then have "seg_match [Lit ''admin'', Rest] path" by (elim mux_find_route) (auto simp: api_table)
  moreover from inner have "seg_match [Lit ''admin''] path" by (elim mux_find_route) (auto simp: admin_Handler_def project_segs_def)
  ultimately show False by (cases path; cases "tl path") auto
qed code_simp+

lemma dashboard_unreachable_witness:
  "mux_find NewRouter ''GET'' [''admin'', ''users''] = Matched [Lit ''admin'', Rest] AdminConsole
   \<and> mux_find admin_Handler ''GET'' [''admin'', ''users''] \<noteq> Matched [Lit ''admin''] (Protected GetDashboard)"
proof -
  have outer: "mux_find NewRouter ''GET'' [''admin'', ''users''] = Matched [Lit ''admin'', Rest] AdminConsole" by code_simp
  with dashboard_unreachable show ?thesis by blast
qed

end
