(* ===== verification/Replay.thy ===== *)
theory Replay
  imports Queries
begin

text \<open>
  The event log between reconnects: \<^verbatim>\<open>internal/ws/replay.go\<close> (what a client that names the last event it saw gets back) and
  \<^verbatim>\<open>internal/ws/gc.go\<close> (old events are deleted).

  The log is an interface (locale \<open>event_log\<close>) with one operation, \<open>append\<close>; the client's lemma says that
  asking for everything after the last seen number yields exactly what was appended since. It is
  interpreted on the INSERT of \<open>AppendEvent\<close>.
\<close>

section \<open>The interface\<close>

definition after_id :: "'p \<Rightarrow> int \<Rightarrow> (int \<times> 'p \<times> 'e) list \<Rightarrow> 'e list" where
  "after_id p n es = map (\<lambda>(_, _, e). e) (filter (\<lambda>(i, q, _). q = p \<and> i > n) es)"

lemma after_id_append: "after_id p n (xs @ ys) = after_id p n xs @ after_id p n ys"
  by (simp add: after_id_def)

fun append_all :: "('p \<Rightarrow> 'e \<Rightarrow> 's \<Rightarrow> int \<times> 's) \<Rightarrow> ('p \<times> 'e) list \<Rightarrow> 's \<Rightarrow> 's" where
  "append_all app [] s = s"
| "append_all app ((p, e) # xs) s = append_all app xs (snd (app p e s))"

locale event_log =
  fixes inv :: "'s \<Rightarrow> bool"
    and accepts :: "'p \<Rightarrow> 's \<Rightarrow> bool"
    and entries :: "'s \<Rightarrow> (int \<times> 'p \<times> 'e) list"
    and next_id :: "'s \<Rightarrow> int"
    and app :: "'p \<Rightarrow> 'e \<Rightarrow> 's \<Rightarrow> int \<times> 's"
  assumes app_inv: "inv s \<Longrightarrow> accepts p s \<Longrightarrow> inv (snd (app p e s))"
    and app_accepts: "accepts q (snd (app p e s)) = accepts q s"
    and app_entries: "accepts p s \<Longrightarrow> entries (snd (app p e s)) = entries s @ [(next_id s, p, e)]"
    and app_next: "next_id s < next_id (snd (app p e s))"
    and below: "inv s \<Longrightarrow> (i, q, x) \<in> set (entries s) \<Longrightarrow> i < next_id s"
begin

lemma append_all_after:
  assumes "inv s" and "\<forall>(q, _) \<in> set xs. accepts q s" and "n < next_id s"
  shows "after_id p n (entries (append_all app xs s)) = after_id p n (entries s) @ map snd (filter (\<lambda>(q, _). q = p) xs)"
  using assms
proof (induction xs arbitrary: s)
  case (Cons x xs)
  obtain q e where x: "x = (q, e)" by fastforce
  have acc: "accepts q s" using Cons.prems(2) x by simp
  let ?s = "snd (app q e s)"
  note ents = app_entries [OF acc, of e]
  have "after_id p n (entries (append_all app xs ?s)) = after_id p n (entries ?s) @ map snd (filter (\<lambda>(q, _). q = p) xs)"
    using Cons.prems app_next [of s q e] by (intro Cons.IH app_inv [OF Cons.prems(1) acc]) (auto simp: app_accepts)
  then show ?case using ents Cons.prems(3) x by (simp add: after_id_append) (simp add: after_id_def)
qed simp

text \<open>A reader that has seen everything up to \<open>n\<close> and asks for what came after gets exactly the later
  appends to its project, in their order.\<close>

lemma catch_up:
  assumes "inv s" and "\<forall>(q, _) \<in> set xs. accepts q s" and "n < next_id s" and "\<forall>(i, _, _) \<in> set (entries s). i \<le> n"
  shows "after_id p n (entries (append_all app xs s)) = map snd (filter (\<lambda>(q, _). q = p) xs)"
proof -
  have "after_id p n (entries s) = []" using assms(4) by (fastforce simp: after_id_def filter_empty_conv)
  with append_all_after [OF assms(1-3), where p = p] show ?thesis by simp
qed

end

section \<open>replay.go\<close>

definition maxReplayEvents :: nat where "maxReplayEvents = 500"

text \<open>The rows of the query, in the order of their numbers. The project is the string of the client's message; one that is not a uuid makes
  the query fail.\<close>

definition replay_rows :: "lib \<Rightarrow> string \<Rightarrow> int \<Rightarrow> world \<Rightarrow> (err + event_row list) \<times> world" where
  "replay_rows L projectID sinceID =
     db_call (query (\<lambda>d. case pg_uuid L projectID of
        None \<Rightarrow> Inl ErrIO
      | Some pid \<Rightarrow> Inr (take maxReplayEvents
          (sort_key ev_id (filter (\<lambda>e. ev_project_id e = pid \<and> ev_id e > sinceID) (events d))))))"

definition replay_payloads :: "string \<Rightarrow> event_row list \<Rightarrow> json list" where
  "replay_payloads projectID evs =
     (if length evs = maxReplayEvents then [msg_resyncRequired projectID] else map ev_payload evs)"

text \<open>The sends of one replay goroutine, to the client \<open>i\<close> of the hub, when nothing comes in between: a full channel drops the payload, a
  closed one ends the process. (\<open>Hub.replay_step\<close> is one such send between steps of the others.)\<close>

fun send_all :: "nat \<Rightarrow> json list \<Rightarrow> hub \<Rightarrow> hub" where
  "send_all i [] h = h"
| "send_all i (p # ps) h =
     (case try_send h i p of
        (Panicked, h1) \<Rightarrow> h1\<lparr>h_crashed := True\<rparr>
      | (_, h1) \<Rightarrow> send_all i ps h1)"

definition ReplayEvents :: "lib \<Rightarrow> string \<Rightarrow> int \<Rightarrow> nat \<Rightarrow> hub \<Rightarrow> world \<Rightarrow> (err + unit) \<times> hub \<times> world" where
  "ReplayEvents L projectID sinceID i h w =
     (case replay_rows L projectID sinceID w of
        (Inl e, w1) \<Rightarrow> (Inl e, h, w1)
      | (Inr evs, w1) \<Rightarrow> (Inr (), send_all i (replay_payloads projectID evs) h, w1))"

section \<open>gc.go\<close>

definition hours :: "int \<Rightarrow> time" where "hours n = n * 3600 * 1000000"

definition gc_stmt :: "int \<Rightarrow> nat stmt" where
  "gc_stmt retentionHours t d =
     (let old = (\<lambda>e. ev_created_at e < t - hours retentionHours)
      in (Inr (rows_affected old (events d)), d\<lparr>events := delete_where old (events d)\<rparr>))"

definition runGC :: "int \<Rightarrow> world \<Rightarrow> world" where
  "runGC retentionHours w = snd (db_call (gc_stmt retentionHours) w)"

section \<open>The events table is an event log\<close>

definition log_entries :: "db \<Rightarrow> (int \<times> uuid \<times> json) list" where
  "log_entries d = map (\<lambda>e. (ev_id e, ev_project_id e, ev_payload e)) (events d)"

text \<open>The INSERT by a fixed actor at a fixed time.\<close>

definition log_append :: "uuid \<Rightarrow> time \<Rightarrow> uuid \<Rightarrow> json \<Rightarrow> db \<Rightarrow> int \<times> db" where
  "log_append u t p j d = (case insert_event p u j t d of (Inr i, d') \<Rightarrow> (i, d') | (Inl _, d') \<Rightarrow> (0, d'))"

lemma log_append_db: "snd (log_append u t p j d) = snd (insert_event p u j t d)"
  by (simp add: log_append_def split: prod.splits sum.splits)

interpretation elog: event_log db_ok "\<lambda>p d. p \<in> project_ids d \<and> u \<in> user_ids d" log_entries events_seq "log_append u t" for u t
proof
  fix d p j assume "db_ok d"
  then show "db_ok (snd (log_append u t p j d))"
    using keeps_ok_insert_event [of p u j] by (simp add: log_append_db keeps_ok_def)
next
  fix d :: db and i q x assume "db_ok d" "(i, q, x) \<in> set (log_entries d)"
  then show "i < events_seq d" by (auto simp: log_entries_def db_ok_def events_ok_def)
qed (auto simp: log_append_db insert_event_def log_entries_def user_ids_def project_ids_def)

lemma sorted_events: "db_ok d \<Longrightarrow> sort_key ev_id (filter P (events d)) = filter P (events d)"
proof -
  assume "db_ok d"
  then have "sorted_wrt (<) (map ev_id (filter P (events d)))"
    by (auto simp: db_ok_def events_ok_def sorted_wrt_map intro: sorted_wrt_filter)
  then show ?thesis by (intro sort_key_id_if_sorted) (auto intro: sorted_wrt_mono_rel strict_sorted_imp_sorted)
qed

lemma after_id_events: "after_id p n (log_entries d) = map ev_payload (filter (\<lambda>e. ev_project_id e = p \<and> ev_id e > n) (events d))"
  by (simp add: after_id_def log_entries_def filter_map o_def)

lemma replay_rows_Inr:
  assumes "db_ok (db w)" and "pg_uuid L f = Some p" and "replay_rows L f n w = (Inr evs, w')"
  shows "evs = take maxReplayEvents (filter (\<lambda>e. ev_project_id e = p \<and> ev_id e > n) (events (db w)))"
    and "length evs < maxReplayEvents \<Longrightarrow> map ev_payload evs = after_id p n (log_entries (db w))"
proof -
  show evs: "evs = take maxReplayEvents (filter (\<lambda>e. ev_project_id e = p \<and> ev_id e > n) (events (db w)))"
    using db_call_query_Inr [OF assms(3) [unfolded replay_rows_def]] assms(2) sorted_events [OF assms(1)] by simp
  show "length evs < maxReplayEvents \<Longrightarrow> map ev_payload evs = after_id p n (log_entries (db w))"
    by (simp add: evs after_id_events)
qed

section \<open>Sends and collection\<close>

text \<open>To an open channel the sends append in order until it is full; the rest is dropped.\<close>

lemma send_all_open:
  "\<not> c_closed (h_heap h i) \<Longrightarrow> length (c_send (h_heap h i)) \<le> sendBufSize \<Longrightarrow>
   h_heap (send_all i ps h) i =
     (h_heap h i)\<lparr>c_send := c_send (h_heap h i) @ take (sendBufSize - length (c_send (h_heap h i))) ps\<rparr> \<and>
   h_crashed (send_all i ps h) = h_crashed h"
proof (induction ps arbitrary: h)
  case (Cons p ps)
  show ?case
  proof (cases "length (c_send (h_heap h i)) < sendBufSize")
    case True
    then obtain k where k: "sendBufSize - length (c_send (h_heap h i)) = Suc k" by (metis Suc_diff_Suc)
    then have "sendBufSize - Suc (length (c_send (h_heap h i))) = k" by simp
    with Cons True k show ?thesis by (simp add: try_send_def upd_client_def)
  next
    case False
    with Cons show ?thesis by (simp add: try_send_def)
  qed
qed simp

lemma keeps_ok_gc: "keeps_ok (gc_stmt n)"
  unfolding keeps_ok_def
proof (intro allI impI)
  fix t d assume ok: "db_ok d"
  have "sorted_wrt (<) (map ev_id (delete_where P (events d)))" for P
    using ok by (auto simp: db_ok_def events_ok_def delete_where_def sorted_wrt_map intro: sorted_wrt_filter)
  then show "db_ok (snd (gc_stmt n t d))"
    using ok by (auto simp: gc_stmt_def Let_def db_ok_def schema_defs delete_where_def)
qed

section \<open>Properties\<close>

text \<open>What a reconnecting client gets: with fewer than 500 newer events of the project, exactly their payloads, in the order of
  their numbers; with 500 or more, the single message \<open>resyncRequired\<close>.\<close>

theorem replay_exact:
  assumes "db_ok (db w)" and "pg_uuid L f = Some p" and "replay_rows L f n w = (Inr evs, w')"
  shows "replay_payloads f evs =
    (let new = filter (\<lambda>e. ev_project_id e = p \<and> ev_id e > n) (events (db w))
     in if length new < maxReplayEvents then map ev_payload new else [msg_resyncRequired f])"
  using replay_rows_Inr(1)[OF assms] by (auto simp: replay_payloads_def Let_def min_def)

theorem replay_exact_witness:
  "\<exists>evs w'. replay_rows sample_lib (sample_uuid_String 7) 0 sample_world = (Inr evs, w') \<and>
     replay_payloads (sample_uuid_String 7) evs = []"
proof -
  obtain evs w' where run: "replay_rows sample_lib (sample_uuid_String 7) 0 sample_world = (Inr evs, w')"
    by (simp add: replay_rows_def db_call_query_Done)
  have "pg_uuid sample_lib (sample_uuid_String 7) = Some 7" by simp
  from replay_exact [OF _ this run] run show ?thesis by (simp add: maxReplayEvents_def)
qed

text \<open>C16. What a reconnecting client is sent: if it had seen every event up to number \<open>n\<close>, and then the events \<open>xs\<close> were appended (to any projects), a replay from
  \<open>n\<close> that succeeds puts into its open channel, behind what is buffered there, the payloads of those of its project, in the order they were appended, as far as the 256 places of
  the channel reach (what does not fit is dropped without a notice, so nothing is missed only if there is room for all of them); from 500 missed events on, it puts the one message
  \<open>resyncRequired\<close> in their place.\<close>

theorem replay_catches_up:
  assumes "db_ok (db w)" and "\<forall>(q, _) \<in> set xs. q \<in> project_ids (db w) \<and> u \<in> user_ids (db w)"
    and "n < events_seq (db w)" and "\<forall>e \<in> set (events (db w)). ev_id e \<le> n"
    and "db w1 = append_all (log_append u t) xs (db w)"
    and "pg_uuid L f = Some p" and "ReplayEvents L f n i h w1 = (Inr (), h', w')"
    and "\<not> c_closed (h_heap h i)" and "length (c_send (h_heap h i)) \<le> 256"
    and "missed = map snd (filter (\<lambda>(q, _). q = p) xs)"
  shows "c_send (h_heap h' i) = c_send (h_heap h i) @
      take (256 - length (c_send (h_heap h i))) (if length missed < 500 then missed else [msg_resyncRequired f]) \<and>
    h_crashed h' = h_crashed h"
proof -
  have ok: "db_ok (append_all (log_append u t) xs d)" if "db_ok d" "\<forall>(q, _) \<in> set xs. q \<in> project_ids d \<and> u \<in> user_ids d" for d
    using that by (induction xs arbitrary: d)
      (auto simp: elog.app_inv elog.app_accepts [simplified] split: prod.splits)
  have ok1: "db_ok (db w1)" using ok [OF assms(1,2)] assms(5) by simp
  obtain evs where run: "replay_rows L f n w1 = (Inr evs, w')" "h' = send_all i (replay_payloads f evs) h"
    using assms(7) by (auto simp: ReplayEvents_def split: prod.splits sum.splits)
  have catch: "map ev_payload (filter (\<lambda>e. ev_project_id e = p \<and> ev_id e > n) (events (db w1))) = missed"
    unfolding assms(5,10) after_id_events [symmetric]
    by (rule elog.catch_up [OF assms(1) _ assms(3)]) (use assms(2,4) in \<open>auto simp: log_entries_def\<close>)
  have "length (filter (\<lambda>e. ev_project_id e = p \<and> ev_id e > n) (events (db w1))) = length missed"
    using arg_cong [OF catch, of length] by simp
  then have "replay_payloads f evs = (if length missed < 500 then missed else [msg_resyncRequired f])"
    using catch unfolding replay_rows_Inr(1)[OF ok1 assms(6) run(1)] by (auto simp: replay_payloads_def maxReplayEvents_def min_def)
  with send_all_open [OF assms(8), of "replay_payloads f evs"] assms(9) run(2) show ?thesis by (simp add: sendBufSize_def)
qed

definition sample_appended :: world where
  "sample_appended = sample_world\<lparr>db := append_all (log_append 2 100) [(7, JStr ''a''), (7, JStr ''b'')] sample_db\<rparr>"

lemma sample_appended_ok: "db_ok (db sample_appended)"
  using sample_db_ok keeps_ok_insert_event [of 7 2] unfolding keeps_ok_def sample_appended_def
  by (simp add: log_append_db)

theorem replay_catches_up_witness:
  "\<exists>h' w'. ReplayEvents sample_lib (sample_uuid_String 7) 0 0 NewHub sample_appended = (Inr (), h', w') \<and>
     c_send (h_heap h' 0) = [JStr ''a'', JStr ''b'']"
proof -
  obtain h' w' where run: "ReplayEvents sample_lib (sample_uuid_String 7) 0 0 NewHub sample_appended = (Inr (), h', w')"
    by (simp add: ReplayEvents_def replay_rows_def db_call_query_Done sample_appended_def)
  have seq: "events_seq sample_db = 1" by (simp add: sample_db_def empty_db_def)
  have hub: "\<not> c_closed (h_heap NewHub 0)" "c_send (h_heap NewHub 0) = []" by (simp_all add: NewHub_def new_client_def)
  have "c_send (h_heap h' 0) = c_send (h_heap NewHub 0) @ take (256 - length (c_send (h_heap NewHub 0)))
      (if length [JStr ''a'', JStr ''b''] < 500 then [JStr ''a'', JStr ''b''] else [msg_resyncRequired (sample_uuid_String 7)]) \<and>
    h_crashed h' = h_crashed NewHub"
    by (rule replay_catches_up [where w = sample_world and u = 2 and t = 100 and p = 7 and xs = "[(7, JStr ''a''), (7, JStr ''b'')]", OF _ _ _ _ _ _ run])
       (simp_all add: sample_appended_def seq hub)
  with run hub show ?thesis by simp
qed

text \<open>The bound of a replay: to a client whose channel is open, \<open>ReplayEvents\<close> delivers the payloads in order up to the free space of the channel
  (at most 256) and silently drops the rest, although up to 499 events are replayed without \<open>resyncRequired\<close>.\<close>

theorem ReplayEvents_delivers_prefix:
  assumes "\<not> c_closed (h_heap h i)" and "length (c_send (h_heap h i)) \<le> sendBufSize"
    and "replay_rows L f n w = (Inr evs, w1)"
  shows "ReplayEvents L f n i h w = (Inr (), send_all i (replay_payloads f evs) h, w1) \<and>
    c_send (h_heap (send_all i (replay_payloads f evs) h) i) =
      c_send (h_heap h i) @ take (sendBufSize - length (c_send (h_heap h i))) (replay_payloads f evs) \<and>
    length (c_send (h_heap (send_all i (replay_payloads f evs) h) i)) \<le> sendBufSize"
  using send_all_open [OF assms(1,2), of "replay_payloads f evs"] assms(2,3) by (auto simp: ReplayEvents_def)

theorem ReplayEvents_delivers_prefix_witness:
  "\<exists>evs w1. replay_rows sample_lib (sample_uuid_String 7) 0 sample_appended = (Inr evs, w1) \<and>
     length (c_send (h_heap (send_all 0 (replay_payloads (sample_uuid_String 7) evs) NewHub) 0)) \<le> sendBufSize"
proof -
  obtain evs w1 where run: "replay_rows sample_lib (sample_uuid_String 7) 0 sample_appended = (Inr evs, w1)"
    by (simp add: replay_rows_def db_call_query_Done sample_appended_def)
  from ReplayEvents_delivers_prefix [OF _ _ run, of NewHub 0] run show ?thesis
    by (simp add: NewHub_def new_client_def sendBufSize_def)
qed

text \<open>The collector keeps the log usable: whether or not its statement fails, the constraints hold and the events that remain are in order; it only
  removes events older than the retention time, and when it succeeds it removes all of those.\<close>

theorem runGC_correct:
  assumes "db_ok (db w)"
  shows "db_ok (db (runGC n w)) \<and>
    (\<exists>P. events (db (runGC n w)) = filter P (events (db w)) \<and>
       (\<forall>e \<in> set (events (db w)). \<not> P e \<longrightarrow> ev_created_at e < clock w - hours n)) \<and>
    (fates w = [] \<longrightarrow> events (db (runGC n w)) = filter (\<lambda>e. clock w - hours n \<le> ev_created_at e) (events (db w)))"
proof -
  have "db (runGC n w) = db w \<or> db (runGC n w) = (db w)\<lparr>events := filter (\<lambda>e. clock w - hours n \<le> ev_created_at e) (events (db w))\<rparr>"
    using db_call_db [of "gc_stmt n" w] by (auto simp: runGC_def gc_stmt_def Let_def delete_where_def not_less)
  then have "\<exists>P. events (db (runGC n w)) = filter P (events (db w)) \<and>
       (\<forall>e \<in> set (events (db w)). \<not> P e \<longrightarrow> ev_created_at e < clock w - hours n)"
    by (elim disjE) (rule exI [of _ "\<lambda>_. True"], simp, rule exI [of _ "\<lambda>e. clock w - hours n \<le> ev_created_at e"], simp add: not_le)
  then show ?thesis
    using db_call_keeps_ok [OF keeps_ok_gc assms]
    by (simp add: runGC_def db_call_Done gc_stmt_def Let_def delete_where_def not_less)
qed

theorem runGC_correct_witness: "events (db (runGC 1 (sample_appended\<lparr>clock := 4000000000\<rparr>))) = []"
proof -
  let ?w = "sample_appended\<lparr>clock := 4000000000\<rparr>"
  have "db_ok (db ?w)" using sample_appended_ok by simp
  moreover have "\<forall>e \<in> set (events (db ?w)). ev_created_at e = 100"
    by (simp add: sample_appended_def log_append_db insert_event_def)
  moreover have "fates ?w = []" "clock ?w = 4000000000" by (simp_all add: sample_appended_def)
  ultimately show ?thesis using runGC_correct [of ?w 1] by (simp add: hours_def filter_empty_conv)
qed

text \<open>A collected gap goes unnoticed: after the collector has run, a replay is what it would be if the removed events had never been; a client whose \<open>since\<close> lies before
  the gap gets the remaining events and no \<open>resyncRequired\<close> (unless 500 remain).\<close>

theorem collected_gap_unnoticed:
  assumes "db_ok (db w)" and "fates w = []" and "pg_uuid L f = Some p" and "replay_rows L f n (runGC k w) = (Inr evs, w')"
    and "length (filter (\<lambda>e. ev_project_id e = p \<and> ev_id e > n \<and> clock w - hours k \<le> ev_created_at e) (events (db w))) < maxReplayEvents"
  shows "replay_payloads f evs =
    map ev_payload (filter (\<lambda>e. ev_project_id e = p \<and> ev_id e > n \<and> clock w - hours k \<le> ev_created_at e) (events (db w)))"
proof -
  have ok: "db_ok (db (runGC k w))" using db_call_keeps_ok [OF keeps_ok_gc assms(1)] by (simp add: runGC_def)
  have ev: "filter (\<lambda>e. ev_project_id e = p \<and> ev_id e > n) (events (db (runGC k w))) =
      filter (\<lambda>e. ev_project_id e = p \<and> ev_id e > n \<and> clock w - hours k \<le> ev_created_at e) (events (db w))"
    using assms(2) by (simp add: runGC_def db_call_Done gc_stmt_def Let_def delete_where_def not_less conj_comms)
  show ?thesis
    using replay_rows_Inr(1)[OF ok assms(3,4)] assms(5) unfolding ev by (simp add: replay_payloads_def)
qed

theorem collected_gap_unnoticed_witness:
  "\<exists>evs w'. replay_rows sample_lib (sample_uuid_String 7) 0 (runGC 1 (sample_appended\<lparr>clock := 4000000000\<rparr>)) = (Inr evs, w') \<and>
     replay_payloads (sample_uuid_String 7) evs = []"
proof -
  let ?w = "sample_appended\<lparr>clock := 4000000000\<rparr>"
  have ok: "db_ok (db ?w)" using sample_appended_ok by simp
  have calm: "fates ?w = []" by (simp add: sample_appended_def)
  obtain evs w' where run: "replay_rows sample_lib (sample_uuid_String 7) 0 (runGC 1 ?w) = (Inr evs, w')"
    by (simp add: replay_rows_def runGC_def db_call_Done query_def sample_appended_def)
  have none: "filter (\<lambda>e. ev_project_id e = 7 \<and> ev_id e > 0 \<and> clock ?w - hours 1 \<le> ev_created_at e) (events (db ?w)) = []"
    by (simp add: sample_appended_def log_append_db insert_event_def hours_def)
  have uuid: "pg_uuid sample_lib (sample_uuid_String 7) = Some 7" by simp
  from collected_gap_unnoticed [OF ok calm uuid run] none run show ?thesis by (simp add: maxReplayEvents_def)
qed

end
