(* ===== verification/Server.thy ===== *)
theory Server
  imports Router Replay
begin

text \<open>
  The server as one system: the health check (\<^verbatim>\<open>internal/api/healthz.go\<close>), the stub and the dispatch of \<open>NewRouter\<close> (\<^verbatim>\<open>internal/api/router.go\<close>), the
  upgrade of a connection to a WebSocket (\<open>Handler\<close> of \<^verbatim>\<open>internal/ws/handler.go\<close>), the console behind its own table, and the steps between
  requests: the goroutines of the hub, the hourly garbage collection, the passing of time and the failures of the database and the bucket.

  One request runs to its end before the next step; the interleavings inside the hub are those of \<open>hub_step\<close>. What the server is wired from is the
  record \<open>deps\<close>: third-party code, the two signing keys, and the answer of the WebSocket library's \<open>Upgrade\<close>. A HEAD request is answered like the GET
  it stands for; \<open>net/http\<close> drops the body.

  Shown: every request is served by the handler of the route it matches, but for the dashboard of the console; a request without credentials changes nothing, unless it is one of the console's public pages; the constraints of the
  database, the invariant of the hub and the bound of the cache hold together in every state the server can reach.
\<close>

section \<open>The server\<close>

record deps =
  d_lib :: lib
  d_wn :: wn_lib
  d_Upgrade :: "request \<Rightarrow> bool"
  d_BuildSHA :: string
  d_RPDisplayName :: string
  d_jwtKey :: bytes
  d_inviteKey :: bytes
  d_AdminHandler :: bool

datatype answer =
    Api response
  | Console admin_response
  | PlainText nat string
  | MovedPermanently "string list"
  | StaticAsset "string list"
  | Upgraded
  | NotUpgraded
  | NilHub

definition healthzHandler :: "string \<Rightarrow> response" where
  "healthzHandler buildSHA =
     \<lparr>rs_status = 200, rs_headers = [(''Content-Type'', ''application/json'')],
      rs_content = JsonBody (JObj [(''status'', JStr ''ok''), (''sha'', JStr buildSHA)])\<rparr>"

definition stubNotImplemented :: response where
  "stubNotImplemented =
     \<lparr>rs_status = 501, rs_headers = [(''Content-Type'', ''application/json'')],
      rs_content = JsonBody (JObj [(''error'', JStr ''not implemented'')])\<rparr>"

text \<open>\<open>ws.Handler\<close>: the token comes from the query of the address. The loops it starts are steps of the hub.\<close>

definition ws_Handler :: "deps \<Rightarrow> request \<Rightarrow> world \<Rightarrow> answer \<times> world" where
  "ws_Handler D r w =
     (let tokenStr = rq_query r ''token'' in
      if tokenStr = '''' then (PlainText 401 ''missing token'', w)
      else
      (case ValidateAccessToken (d_lib D) (clock w) tokenStr (d_jwtKey D) of
         Inl _ \<Rightarrow> (PlainText 401 ''invalid or expired token'', w)
       | Inr userID \<Rightarrow>
           if \<not> d_Upgrade D r then (NotUpgraded, w)
           else
           (case the_hub w of
              None \<Rightarrow> (NilHub, w)
            | Some h \<Rightarrow> (Upgraded, w\<lparr>the_hub := Some (ws_connect h userID)\<rparr>))))"

text \<open>The handlers that \<open>NewRouter\<close> wraps in \<open>requireAuth\<close>.\<close>

fun v1_handler :: "deps \<Rightarrow> api_route \<Rightarrow> (request \<Rightarrow> world \<Rightarrow> response \<times> world) option" where
  "v1_handler D Host = Some (HostHandler (d_lib D) (d_RPDisplayName D))"
| "v1_handler D Folders = Some (FoldersHandler (d_lib D))"
| "v1_handler D FolderByID = Some (FolderByIDHandler (d_lib D))"
| "v1_handler D Issues = Some (IssuesHandler (d_lib D))"
| "v1_handler D Router.IssueByID = Some (IssueByIDHandler (d_lib D))"
| "v1_handler D Attachment = Some (AttachmentHandler (d_lib D))"
| "v1_handler D PutIssueR = Some (PutIssueHandler (d_lib D))"
| "v1_handler D PostIssueR = Some (PostIssueHandler (d_lib D))"
| "v1_handler D DeleteIssueR = Some (DeleteIssueHandler (d_lib D))"
| "v1_handler D PutAttachmentR = Some (PutAttachmentHandler (d_lib D))"
| "v1_handler D DeleteAttachmentR = Some (DeleteAttachmentHandler (d_lib D))"
| "v1_handler D Router.PutProjectJSON = Some (PutProjectJSONHandler (d_lib D))"
| "v1_handler D _ = None"

text \<open>The console: its own mux, whose match replaces the path values of the outer one.\<close>

definition admin_serve ::
  "deps \<Rightarrow> draws \<Rightarrow> string \<Rightarrow> string list \<Rightarrow> request \<Rightarrow> ceremonies \<Rightarrow> world \<Rightarrow> answer \<times> ceremonies \<times> world" where
  "admin_serve D g meth path r wa w =
     (case mux_find admin_Handler meth path of
        MovedTo p \<Rightarrow> (MovedPermanently p, wa, w)
      | MethodNotAllowed \<Rightarrow> (PlainText 405 ''Method Not Allowed'', wa, w)
      | PageNotFound \<Rightarrow> (PlainText 404 ''404 page not found'', wa, w)
      | Matched p h \<Rightarrow>
          (let r = r\<lparr>rq_path := path_value p path\<rparr> in
           case h of
             StaticFile \<Rightarrow> (StaticAsset path, wa, w)
           | Public oper \<Rightarrow>
               (case public_handle (d_lib D) (d_wn D) (d_inviteKey D) g oper r wa w of (resp, wa, w) \<Rightarrow> (Console resp, wa, w))
           | Protected oper \<Rightarrow>
               (case console_handle (d_lib D) (d_inviteKey D) g oper r w of (resp, w) \<Rightarrow> (Console resp, wa, w))))"

definition serve ::
  "deps \<Rightarrow> draws \<Rightarrow> string \<Rightarrow> string list \<Rightarrow> request \<Rightarrow> ceremonies \<Rightarrow> world \<Rightarrow> answer \<times> ceremonies \<times> world" where
  "serve D g meth path r wa w =
     (case mux_find NewRouter meth path of
        MovedTo p \<Rightarrow> (MovedPermanently p, wa, w)
      | MethodNotAllowed \<Rightarrow> (PlainText 405 ''Method Not Allowed'', wa, w)
      | PageNotFound \<Rightarrow> (PlainText 404 ''404 page not found'', wa, w)
      | Matched p h \<Rightarrow>
          (let r = r\<lparr>rq_path := path_value p path\<rparr> in
           case v1_handler D h of
             Some handler \<Rightarrow>
               (case RequireAuth (d_lib D) (d_jwtKey D) handler r w of (resp, w) \<Rightarrow> (Api resp, wa, w))
           | None \<Rightarrow>
               (if h = Healthz then (Api (healthzHandler (d_BuildSHA D)), wa, w)
                else if h = Events then (case ws_Handler D r w of (a, w) \<Rightarrow> (a, wa, w))
                else if h = AdminConsole \<and> d_AdminHandler D then admin_serve D g meth path r wa w
                else (Api stubNotImplemented, wa, w))))"

section \<open>Anonymous requests\<close>

text \<open>A request that carries no credentials at all.\<close>

definition anonymous :: "request \<Rightarrow> bool" where
  "anonymous r \<longleftrightarrow> rq_header r ''Authorization'' = '''' \<and> rq_query r ''token'' = '''' \<and> rq_cookie r ''issued_session'' = None"

lemma anonymous_path [simp]: "anonymous (r\<lparr>rq_path := p\<rparr>) = anonymous r"
  by (simp add: anonymous_def)

lemma anonymous_refused:
  assumes "anonymous r"
  shows "RequireAuth L key h r w = (writeError 401 ''missing authorization header'', w)"
    and "ws_Handler D r w = (PlainText 401 ''missing token'', w)"
    and "console_handle L ikey g oper r w = (http_Redirect ''/admin/login'' 302, w)"
  using assms by (simp_all add: anonymous_def RequireAuth_def ws_Handler_def console_handle_def RequireWebAuth_def writeUnauthorized_def)

lemma admin_serve_anonymous:
  assumes "anonymous r" and "admin_serve D g meth path r wa w = (a, wa', w')"
  obtains (unchanged) "wa' = wa" "w' = w"
  | (public) p oper where "mux_find admin_Handler meth path = Matched p (Public oper)" "oper \<noteq> GetLogin"
proof (cases "mux_find admin_Handler meth path")
  case (Matched p h)
  show thesis
  proof (cases h)
    case (Public oper)
    with Matched assms that show thesis by (cases "oper = GetLogin") (auto simp: admin_serve_def public_handle_def getLogin_def)
  qed (use Matched assms that(1) in \<open>auto simp: admin_serve_def anonymous_refused\<close>)
qed (use assms that(1) in \<open>auto simp: admin_serve_def\<close>)

text \<open>C8. A request without credentials (no Authorization header, no token in the query, no session cookie) leaves the whole state of the server as it was,
  unless it is for a public page of the console that starts or finishes a login or an enrollment. On the routes of the API it is answered 401.
\<close>

theorem anonymous_changes_nothing:
  assumes "anonymous r" and "serve D g meth path r wa w = (a, wa', w')"
  shows "((wa', w') \<noteq> (wa, w) \<longrightarrow>
            (\<exists>p oper. mux_find admin_Handler meth path = Matched p (Public oper) \<and> oper \<in> {PostLogin, PostLoginComplete, GetEnroll, PostEnroll}))
       \<and> (\<forall>p h. mux_find NewRouter meth path = Matched p h \<and> v1_handler D h \<noteq> None \<longrightarrow> a = Api (writeError 401 ''missing authorization header''))"
proof (cases "mux_find NewRouter meth path")
  case (Matched p h)
  show ?thesis
  proof (cases "v1_handler D h = None \<and> h = AdminConsole \<and> d_AdminHandler D")
    case True
    have "anonymous (r\<lparr>rq_path := path_value p path\<rparr>)" using assms(1) by simp
    moreover have "admin_serve D g meth path (r\<lparr>rq_path := path_value p path\<rparr>) wa w = (a, wa', w')"
      using True Matched assms by (simp add: serve_def)
    ultimately show ?thesis
    proof (cases rule: admin_serve_anonymous)
      case (public p oper)
      then show ?thesis using True Matched by (cases oper) auto
    qed (use True Matched in simp)
  next
    case False
    with Matched assms show ?thesis
      by (auto simp: serve_def Let_def anonymous_refused split: option.splits if_splits)
  qed
qed (use assms in \<open>auto simp: serve_def\<close>)

definition sample_deps :: deps where
  "sample_deps = \<lparr>d_lib = sample_lib, d_wn = sample_wn, d_Upgrade = (\<lambda>_. True), d_BuildSHA = ''dev'', d_RPDisplayName = ''Issues'',
     d_jwtKey = ''k'', d_inviteKey = ''i'', d_AdminHandler = True\<rparr>"

definition blank_request :: request where
  "blank_request = \<lparr>rq_header = (\<lambda>_. ''''), rq_path = (\<lambda>_. ''''), rq_user = None, rq_remote = ''10.0.0.1:1'', rq_body = [], rq_body_eof = True,
     rq_form_ok = True, rq_form = (\<lambda>_. ''''), rq_query = (\<lambda>_. ''''), rq_cookie = (\<lambda>_. None)\<rparr>"

theorem anonymous_changes_nothing_witness:
  "serve sample_deps sample_draws ''DELETE'' [''v1'', ''folders'', ''7'', ''issues'', ''0001''] blank_request Map.empty sample_world =
     (Api (writeError 401 ''missing authorization header''), Map.empty, sample_world)"
proof -
  let ?path = "[''v1'', ''folders'', ''7'', ''issues'', ''0001'']"
  obtain a wa' w' where run: "serve sample_deps sample_draws ''DELETE'' ?path blank_request Map.empty sample_world = (a, wa', w')"
    by (metis prod_cases3)
  have "anonymous blank_request" by (simp add: anonymous_def blank_request_def)
  note facts = anonymous_changes_nothing [OF this run]
  have "mux_find admin_Handler ''DELETE'' ?path = PageNotFound" by code_simp
  moreover have "mux_find NewRouter ''DELETE'' ?path = Matched issue_segs DeleteIssueR" by code_simp
  ultimately show ?thesis using facts run by auto
qed

section \<open>Requests and their handlers\<close>

text \<open>C26. Requests reach their handlers. A request whose method and path match a route of the API is served by that route's handler, behind \<open>RequireAuth\<close> where the route is wrapped in it, and a request
  below \<open>/admin/\<close> that matches a route of the console, the static files included, is passed by the outer router to the console (when there is one) and served there by that route's handler, behind
  \<open>RequireWebAuth\<close> where the route is protected. The one exception is \<open>GET /admin\<close>, the dashboard, which the outer router never passes on. In every case the handler reads, as the value of each
  wildcard of the pattern, the segment of the path at the wildcard's place.\<close>

theorem requests_reach_handlers:
  assumes "seg_match p path"
  shows "((Some m, p, h) \<in> set NewRouter \<longrightarrow>
       (\<forall>k < length p. \<forall>n. p ! k = Wild n \<longrightarrow> path_value p path n = path ! k) \<and>
       serve D g m path r wa w =
         (case v1_handler D h of
            Some handler \<Rightarrow> (case RequireAuth (d_lib D) (d_jwtKey D) handler (r\<lparr>rq_path := path_value p path\<rparr>) w of (resp, w) \<Rightarrow> (Api resp, wa, w))
          | None \<Rightarrow> if h = Healthz then (Api (healthzHandler (d_BuildSHA D)), wa, w)
                    else if h = Events then (case ws_Handler D (r\<lparr>rq_path := path_value p path\<rparr>) w of (a, w) \<Rightarrow> (a, wa, w))
                    else (Api stubNotImplemented, wa, w)))
     \<and> ((Some m, p, h') \<in> set admin_Handler \<and> p \<noteq> [Lit ''admin''] \<and> d_AdminHandler D \<longrightarrow>
       (\<forall>k < length p. \<forall>n. p ! k = Wild n \<longrightarrow> path_value p path n = path ! k) \<and>
       serve D g m path r wa w =
         (case h' of
            StaticFile \<Rightarrow> (StaticAsset path, wa, w)
          | Public oper \<Rightarrow> (case public_handle (d_lib D) (d_wn D) (d_inviteKey D) g oper (r\<lparr>rq_path := path_value p path\<rparr>) wa w of
              (resp, wa, w) \<Rightarrow> (Console resp, wa, w))
          | Protected oper \<Rightarrow> (case console_handle (d_lib D) (d_inviteKey D) g oper (r\<lparr>rq_path := path_value p path\<rparr>) w of
              (resp, w) \<Rightarrow> (Console resp, wa, w))))"
proof (intro conjI impI)
  assume route: "(Some m, p, h) \<in> set NewRouter"
  then show "\<forall>k < length p. \<forall>n. p ! k = Wild n \<longrightarrow> path_value p path n = path ! k" using api.values_bound assms by blast
  have "h \<noteq> AdminConsole" using route by (auto simp: api_table)
  with api_routes_found [OF route assms] show "serve D g m path r wa w =
         (case v1_handler D h of
            Some handler \<Rightarrow> (case RequireAuth (d_lib D) (d_jwtKey D) handler (r\<lparr>rq_path := path_value p path\<rparr>) w of (resp, w) \<Rightarrow> (Api resp, wa, w))
          | None \<Rightarrow> if h = Healthz then (Api (healthzHandler (d_BuildSHA D)), wa, w)
                    else if h = Events then (case ws_Handler D (r\<lparr>rq_path := path_value p path\<rparr>) w of (a, w) \<Rightarrow> (a, wa, w))
                    else (Api stubNotImplemented, wa, w))"
    by (simp add: serve_def Let_def split: option.splits)
next
  assume route: "(Some m, p, h') \<in> set admin_Handler \<and> p \<noteq> [Lit ''admin''] \<and> d_AdminHandler D"
  then show "\<forall>k < length p. \<forall>n. p ! k = Wild n \<longrightarrow> path_value p path n = path ! k" using console.values_bound assms by blast
  obtain x xs where path: "path = ''admin'' # x # xs" using console_path assms route by blast
  have "serve D g m path r wa w = admin_serve D g m path (r\<lparr>rq_path := path_value [Lit ''admin'', Rest] path\<rparr>) wa w"
    using route unfolding path by (simp add: serve_def console_found)
  with console_routes_found [of m p h' path] route assms show "serve D g m path r wa w =
         (case h' of
            StaticFile \<Rightarrow> (StaticAsset path, wa, w)
          | Public oper \<Rightarrow> (case public_handle (d_lib D) (d_wn D) (d_inviteKey D) g oper (r\<lparr>rq_path := path_value p path\<rparr>) wa w of
              (resp, wa, w) \<Rightarrow> (Console resp, wa, w))
          | Protected oper \<Rightarrow> (case console_handle (d_lib D) (d_inviteKey D) g oper (r\<lparr>rq_path := path_value p path\<rparr>) w of
              (resp, w) \<Rightarrow> (Console resp, wa, w)))"
    by (simp add: admin_serve_def Let_def)
qed

theorem requests_reach_handlers_witness:
  "\<exists>resp w'. serve sample_deps sample_draws ''GET'' [''admin'', ''users'', ''7''] blank_request Map.empty sample_world = (Console resp, Map.empty, w') \<and>
     path_value [Lit ''admin'', Lit ''users'', Wild ''id''] [''admin'', ''users'', ''7''] ''id'' = ''7''"
proof -
  let ?p = "[Lit ''admin'', Lit ''users'', Wild ''id'']" and ?path = "[''admin'', ''users'', ''7'']"
  have 1: "seg_match ?p ?path" "(Some ''GET'', ?p, Protected GetUserDetail) \<in> set admin_Handler" "d_AdminHandler sample_deps"
    by (simp_all add: admin_Handler_def sample_deps_def)
  have 2: "2 < length ?p" "?p ! 2 = Wild ''id''" "?p \<noteq> [Lit ''admin'']" by simp_all
  note facts = requests_reach_handlers [OF 1(1), of "''GET''" Healthz sample_deps sample_draws blank_request Map.empty sample_world "Protected GetUserDetail"]
  then have "path_value ?p ?path ''id'' = ?path ! 2" using 1 2 by blast
  moreover have "serve sample_deps sample_draws ''GET'' ?path blank_request Map.empty sample_world =
      (case console_handle (d_lib sample_deps) (d_inviteKey sample_deps) sample_draws GetUserDetail (blank_request\<lparr>rq_path := path_value ?p ?path\<rparr>) sample_world of
        (resp, w) \<Rightarrow> (Console resp, Map.empty, w))"
    using facts 1 2 by auto
  ultimately show ?thesis by (simp split: prod.splits)
qed

section \<open>The memory of the process\<close>

text \<open>The bucket, the cache, the hub, the clock and the table of the files: unchanged by any call to the database whose statement is not on
  that table.\<close>

definition same_mem :: "world \<Rightarrow> world \<Rightarrow> bool" where
  "same_mem w w' \<longleftrightarrow> s3 w' = s3 w \<and> cache w' = cache w \<and> the_hub w' = the_hub w \<and> clock w' = clock w \<and> files (db w') = files (db w)"

definition keeps_files :: "'a stmt \<Rightarrow> bool" where
  "keeps_files st \<longleftrightarrow> (\<forall>t d. files (snd (st t d)) = files d)"

named_theorems mem

lemma same_mem_refl [simp, intro!]: "same_mem w w"
  by (simp add: same_mem_def)

lemma same_mem_trans: "same_mem w w1 \<Longrightarrow> same_mem w1 w2 \<Longrightarrow> same_mem w w2"
  by (simp add: same_mem_def)

lemma quiet_mem: "quiet w w' \<Longrightarrow> same_mem w w'"
  by (simp add: quiet_def same_mem_def)

lemma db_call_mem: "keeps_files st \<Longrightarrow> db_call st w = (x, w') \<Longrightarrow> same_mem w w'"
  using db_call_frame [of st w] db_call_db [of st w] by (auto simp: same_mem_def keeps_files_def)

lemma keeps_files_stmts:
  "keeps_files (query q)" "keeps_files (insert_session i u k h l e)" "keeps_files (insert_session_str L i s k h l e)" "keeps_files (touch_session h)"
  "keeps_files (rotate_session i h e)" "keeps_files (insert_invite i m role ps h by e)" "keeps_files (mark_used h)"
  "keeps_files (deactivate_user i)" "keeps_files (revoke_session i)" "keeps_files (delete_passkey i)"
  "keeps_files (insert_project i sl dn url u)" "keeps_files (update_project i dn url)" "keeps_files (archive_project i)"
  "keeps_files (upsert_member p i role)" "keeps_files (remove_member p i)" "keeps_files (change_role p i role)"
  "keeps_files (insert_passkey i u c k n ts l)" "keeps_files (update_passkey n t c)" "keeps_files (insert_invited L i m role)"
  "keeps_files (gc_stmt hrs)"
  by (auto simp: keeps_files_def query_def insert_session_def insert_session_str_def touch_session_def rotate_session_def insert_invite_def
      mark_used_def deactivate_user_def revoke_session_def delete_passkey_def insert_project_def update_project_def archive_project_def
      upsert_member_def remove_member_def change_role_def insert_passkey_def update_passkey_def insert_invited_def gc_stmt_def Let_def
      split: option.splits if_splits)

lemmas calls_mem = keeps_files_stmts [THEN db_call_mem]

lemmas insert_invited_mem [mem] = calls_mem(19)

text \<open>The statements of the console and of the session store.\<close>

lemma admin_stmt_mem [mem]:
  "DeactivateUser i w = (x1, w') \<Longrightarrow> same_mem w w'" "RevokeSession i w = (x2, w') \<Longrightarrow> same_mem w w'"
  "DeletePasskey i w = (x3, w') \<Longrightarrow> same_mem w w'" "CreateProject n s dn url i w = (x4, w') \<Longrightarrow> same_mem w w'"
  "UpdateProject i dn url w = (x5, w') \<Longrightarrow> same_mem w w'" "ArchiveProject i w = (x6, w') \<Longrightarrow> same_mem w w'"
  "AddProjectMember p i role w = (x7, w') \<Longrightarrow> same_mem w w'" "RemoveProjectMember p i w = (x8, w') \<Longrightarrow> same_mem w w'"
  "ChangeProjectMemberRole p i role w = (x9, w') \<Longrightarrow> same_mem w w'"
  by (auto simp: DeactivateUser_def RevokeSession_def DeletePasskey_def CreateProject_def UpdateProject_def ArchiveProject_def
      AddProjectMember_def RemoveProjectMember_def ChangeProjectMemberRole_def dest: calls_mem)

lemmas admin_quiets_mem [mem] = admin_quiets [THEN quiet_mem]

lemma MintInviteToken_mem [mem]: "MintInviteToken L j n c m role ps key w = (x, w') \<Longrightarrow> same_mem w w'"
  by (auto simp: MintInviteToken_def MintInviteTokenWithDuration_def Let_def split: option.splits prod.splits sum.splits dest: calls_mem)

lemma IssueWebSession_mem [mem]: "IssueWebSession rnd n u w = (x, w') \<Longrightarrow> same_mem w w'"
  by (auto simp: IssueWebSession_def Let_def split: option.splits prod.splits sum.splits dest: calls_mem)

lemma RedeemInviteToken_mem [mem]: "RedeemInviteToken L tok key w = (x, w') \<Longrightarrow> same_mem w w'"
  by (auto simp: RedeemInviteToken_def redeem_mark_def split: prod.splits sum.splits
      dest!: redeem_check_quiet quiet_mem dest: calls_mem intro: same_mem_trans)

lemma ValidateWebSession_mem [mem]: "ValidateWebSession L v w = (x, w') \<Longrightarrow> same_mem w w'"
  using calls_mem(4) [OF prod.collapse [symmetric]]
  by (auto simp: ValidateWebSession_def Let_def split: prod.splits sum.splits if_splits dest!: quiet_query quiet_mem intro: same_mem_trans)

lemma add_memberships_mem: "same_mem w (add_memberships L i ps w)"
  unfolding add_memberships_def
proof (induction ps arbitrary: w)
  case (Cons p ps)
  have "same_mem w (snd (AddProjectMember pid i ''editor'' w))" for pid
    by (rule admin_stmt_mem(7) [OF prod.collapse [symmetric]])
  with Cons show ?case by (auto split: option.splits intro: same_mem_trans)
qed simp

lemma add_memberships_mem_iff [simp]: "same_mem w (add_memberships L i ps v) \<longleftrightarrow> same_mem w v"
  using add_memberships_mem [of v L i ps] by (auto simp: same_mem_def)

lemma ensureUser_mem [mem]: "ensureUser L n m role ps w = (x, w') \<Longrightarrow> same_mem w w'"
  by (auto simp: ensureUser_def split: prod.splits sum.splits dest!: mem intro: same_mem_trans)

lemma webauthn_mem [mem]:
  "BeginAssertion W ch m w = (x1, w') \<Longrightarrow> same_mem w w'" "BeginRegistration W ch i w = (x2, w') \<Longrightarrow> same_mem w w'"
  by (auto dest: BeginAssertion_quiet BeginRegistration_quiet intro: quiet_mem)

lemma finish_mem [mem]:
  "FinishRegistration W i u s r w = (x1, w') \<Longrightarrow> same_mem w w'" "FinishAssertion W s r w = (x2, w') \<Longrightarrow> same_mem w w'"
  by (auto simp: FinishRegistration_def FinishAssertion_def Let_def split: prod.splits sum.splits option.splits
      dest!: loadUser_quiet quiet_mem calls_mem intro: same_mem_trans)

lemma public_handle_mem:
  assumes "public_handle L W key g oper r wa w = (resp, wa', w')"
  shows "same_mem w w'"
  using assms
  by (cases oper) (auto simp: public_handle_def getLogin_def postLogin_def postLoginComplete_def getEnroll_def postEnroll_def Let_def
      split: option.splits prod.splits sum.splits dest!: mem intro: same_mem_trans)

text \<open>Of the console, only the removal of a member reaches the memory: it tells the hub.\<close>

definition console_mem :: "world \<Rightarrow> world \<Rightarrow> bool" where
  "console_mem w w' \<longleftrightarrow> same_mem w w' \<or> (\<exists>v p u. same_mem w v \<and> w' = revoke_access p u v)"

lemma console_mem_trans: "same_mem w v \<Longrightarrow> console_mem v w' \<Longrightarrow> console_mem w w'"
  by (auto simp: console_mem_def intro: same_mem_trans)

lemma console_memI: "same_mem w w' \<Longrightarrow> console_mem w w'" "same_mem w v \<Longrightarrow> console_mem w (revoke_access p u v)"
  by (auto simp: console_mem_def)

lemma postMemberRemove_mem: "postMemberRemove L r w = (resp, w') \<Longrightarrow> console_mem w w'"
  by (auto simp: postMemberRemove_def Let_def split: option.splits prod.splits sum.splits dest!: admin_quiet(5) quiet_mem admin_stmt_mem(8)
      intro: console_memI same_mem_trans)

lemma console_writes_mem:
  "postUsersInvite L key g r w = (resp, w') \<Longrightarrow> same_mem w w'" "postUserDeactivate L r w = (resp, w') \<Longrightarrow> same_mem w w'"
  "postUserSessionRevoke L r w = (resp, w') \<Longrightarrow> same_mem w w'" "postProjects L g r w = (resp, w') \<Longrightarrow> same_mem w w'"
  "postProject r w = (resp, w') \<Longrightarrow> same_mem w w'" "postProjectArchive r w = (resp, w') \<Longrightarrow> same_mem w w'"
  "postMembers L r w = (resp, w') \<Longrightarrow> same_mem w w'" "postMemberRole L r w = (resp, w') \<Longrightarrow> same_mem w w'"
  "postSessionRevoke L r w = (resp, w') \<Longrightarrow> same_mem w w'" "postDeviceRemove L r w = (resp, w') \<Longrightarrow> same_mem w w'"
  by (auto simp: console_users console_projects console_rest Let_def same_mem_def split: option.splits prod.splits sum.splits if_splits
      dest!: mem)

lemma postLogout_mem: "postLogout r w = (resp, w') \<Longrightarrow> same_mem w w'"
proof -
  have "same_mem v (snd (RevokeSession i v))" for i v by (rule admin_stmt_mem(2) [OF prod.collapse [symmetric]])
  then show "postLogout r w = (resp, w') \<Longrightarrow> same_mem w w'"
    by (auto simp: postLogout_def Let_def split: option.splits prod.splits sum.splits dest!: SessionByToken_quiet quiet_mem intro: same_mem_trans)
qed

lemma console_handler_mem:
  assumes "console_handler L key g oper r w = (resp, w')"
  shows "console_mem w w'"
proof (cases "shows_only oper \<or> oper = PostMemberRemove")
  case True
  then show ?thesis
  proof
    assume "shows_only oper"
    with assms show ?thesis by (auto simp: console_mem_def dest: shows_only_quiet quiet_mem)
  next
    assume "oper = PostMemberRemove"
    with assms show ?thesis by (auto simp: console_handler_def intro: postMemberRemove_mem)
  qed
next
  case False
  then have "same_mem w w'" using assms console_writes_mem postLogout_mem
    by (cases oper) (simp_all add: shows_only_def console_handler_def)
  then show ?thesis by (simp add: console_mem_def)
qed

lemma console_handle_mem:
  assumes "console_handle L key g oper r w = (resp, w')"
  shows "console_mem w w'"
  using assms by (auto simp: console_handle_def RequireWebAuth_def split: option.splits prod.splits sum.splits
      dest!: console_handler_mem ValidateWebSession_mem intro: console_mem_trans console_memI)

section \<open>What the memory keeps\<close>

text \<open>The hub of a live process is one that the steps of the hub reach.\<close>

definition hub_live :: "hub \<Rightarrow> bool" where
  "hub_live h \<longleftrightarrow> hub_reachable h \<and> \<not> h_crashed h"

lemma crashed_broadcast: "hub_inv h \<Longrightarrow> h_crashed (run_broadcast h) = h_crashed h"
  by (simp add: run_broadcast_closed fan_hub_def split: list.splits prod.splits)

lemma hub_live_publish: "hub_live h \<Longrightarrow> hub_live (hub_Broadcast h pid p)"
  using hub_reachable.step [OF _ hub_step.publish]
  by (auto simp: hub_live_def hub_Broadcast_def Let_def crashed_broadcast hub_reachable_inv)

lemma hub_live_revoke: "hub_live h \<Longrightarrow> hub_live (BroadcastAccessRevoked h pid uid)"
  using hub_reachable.step [OF _ hub_step.revoke, of h pid uid]
  by (auto simp: hub_live_def BroadcastAccessRevoked_closed hub_reachable_inv revoke_hub_def)

lemma hub_live_connect: "hub_live h \<Longrightarrow> hub_live (ws_connect h uid)"
  using hub_reachable.step [OF _ hub_step.connect, of h uid]
  by (auto simp: hub_live_def ws_connect_def Let_def run_register_def split: list.splits)

definition mem_ok :: "world \<Rightarrow> bool" where
  "mem_ok w \<longleftrightarrow> (\<forall>c. cache w = Some c \<longrightarrow> lru_ok c \<and> items c = Map.empty) \<and> (\<forall>h. the_hub w = Some h \<longrightarrow> hub_live h)"

lemma lru_Delete_idle: "items c = Map.empty \<Longrightarrow> lru_Delete c k = c"
  by (simp add: lru_Delete_def)

lemma mem_ok_same: "same_mem w w' \<Longrightarrow> mem_ok w \<Longrightarrow> mem_ok w'"
  by (simp add: same_mem_def mem_ok_def)

lemma mem_ok_console: "console_mem w w' \<Longrightarrow> mem_ok w \<Longrightarrow> mem_ok w'"
  by (auto simp: console_mem_def intro: mem_ok_same)
     (auto simp: same_mem_def mem_ok_def revoke_access_def hub_live_revoke split: option.splits)

lemma mem_ok_finish: "mem_ok w \<Longrightarrow> mem_ok (finish L r action path key before after ev u f w)"
  using finish_effect(5,6) [OF refl, of L r action path key before after ev u f w]
  by (auto simp: mem_ok_def lru_Delete_idle hub_live_publish)

lemma db_call_mem_ok: "db_call st w = (x, w') \<Longrightarrow> mem_ok w \<Longrightarrow> mem_ok w'"
  using db_call_frame [of st w] by (simp add: mem_ok_def)

lemma s3_call_mem: "s3_call f w = (x, w') \<Longrightarrow> mem_ok w \<Longrightarrow> mem_ok w'"
  by (auto simp: s3_call_def mem_ok_def next_fate_def split: fate.splits prod.splits list.splits)

lemma mem_ok_store:
  assumes "store_file L r action path key ct conflict status before ev u f m body w = (resp, w')" and "mem_ok w"
  shows "mem_ok w'"
  using assms
  by (auto simp: store_file_def PutObject_def UpsertFile_def split: prod.splits sum.splits if_splits
      intro!: mem_ok_finish dest!: s3_call_mem db_call_mem_ok)

lemma mem_ok_guarded:
  assumes "guarded L r bad minRole k w = (resp, w')" and "mem_ok w"
    and "\<And>u f w1. mem_ok w1 \<Longrightarrow> k u f w1 = (resp, w') \<Longrightarrow> mem_ok w'"
  shows "mem_ok w'"
  using assms(1)
proof (cases rule: guardedE)
  case refused
  then show ?thesis using assms(2) by (blast intro: mem_ok_same quiet_mem)
next
  case (passed u f w1 s)
  then show ?thesis using assms(2,3) by (blast intro: mem_ok_same quiet_mem)
qed

lemma mem_ok_put: "put_file L r action path key ct status ev u f w = (resp, w') \<Longrightarrow> mem_ok w \<Longrightarrow> mem_ok w'"
  by (auto simp: put_file_def Let_def readBody_def split: if_splits prod.splits
      dest!: FileExists_quiet quiet_mem intro: mem_ok_store mem_ok_same)

lemma mem_ok_DeleteFile: "DeleteFile f path m w = (x, w') \<Longrightarrow> mem_ok w \<Longrightarrow> mem_ok w'"
  by (auto simp: DeleteFile_def split: prod.splits sum.splits if_splits dest: db_call_mem_ok)

lemma mem_ok_DeleteS3Object: "mem_ok w \<Longrightarrow> mem_ok (snd (DeleteS3Object key w))"
  using s3_call_mem [OF prod.collapse [symmetric]] by (simp add: DeleteS3Object_def)

lemma mem_ok_writes:
  assumes "mem_ok w"
  shows "PutIssueHandler L r w = (resp, w') \<Longrightarrow> mem_ok w'"
    and "PutAttachmentHandler L r w = (resp, w') \<Longrightarrow> mem_ok w'"
    and "PutProjectJSONHandler L r w = (resp, w') \<Longrightarrow> mem_ok w'"
    and "PostIssueHandler L r w = (resp, w') \<Longrightarrow> mem_ok w'"
    and "DeleteIssueHandler L r w = (resp, w') \<Longrightarrow> mem_ok w'"
    and "DeleteAttachmentHandler L r w = (resp, w') \<Longrightarrow> mem_ok w'"
proof -
  show "PutIssueHandler L r w = (resp, w') \<Longrightarrow> mem_ok w'" "PutAttachmentHandler L r w = (resp, w') \<Longrightarrow> mem_ok w'"
    "PutProjectJSONHandler L r w = (resp, w') \<Longrightarrow> mem_ok w'"
    unfolding PutIssueHandler_eq PutAttachmentHandler_eq PutProjectJSONHandler_eq
    by (erule mem_ok_guarded [OF _ assms]; erule mem_ok_put; assumption)+
  show "PostIssueHandler L r w = (resp, w') \<Longrightarrow> mem_ok w'"
    unfolding PostIssueHandler_eq
    by (erule mem_ok_guarded [OF _ assms])
       (auto split: option.splits if_splits prod.splits sum.splits dest!: FileExists_quiet quiet_mem intro: mem_ok_store mem_ok_same)
  show "DeleteIssueHandler L r w = (resp, w') \<Longrightarrow> mem_ok w'"
    unfolding DeleteIssueHandler_eq
    by (erule mem_ok_guarded [OF _ assms])
       (auto split: if_splits prod.splits sum.splits intro!: mem_ok_finish mem_ok_DeleteS3Object dest: mem_ok_DeleteFile)
  show "DeleteAttachmentHandler L r w = (resp, w') \<Longrightarrow> mem_ok w'"
    unfolding DeleteAttachmentHandler_eq
    by (erule mem_ok_guarded [OF _ assms])
       (auto split: if_splits prod.splits sum.splits intro!: mem_ok_finish mem_ok_DeleteS3Object dest: db_call_mem_ok)
qed

text \<open>The routes of the API are the operations of \<open>Read_Api\<close> and \<open>Write_Safety\<close>.\<close>

lemma v1_handler_cases:
  assumes "v1_handler D h = Some handler"
  obtains (reads) oper where "handler = read_handle (d_lib D) (d_RPDisplayName D) oper"
  | (writes) oper where "\<And>r. handler r = write_handle (d_lib D) (oper r)"
proof (cases h)
  case Host with assms show thesis by (intro reads [of GetHost]) auto
next
  case Folders with assms show thesis by (intro reads [of GetFolders]) auto
next
  case FolderByID with assms show thesis by (intro reads [of GetFolder]) auto
next
  case Issues with assms show thesis by (intro reads [of GetIssues]) auto
next
  case IssueByID with assms show thesis by (intro reads [of GetIssue]) auto
next
  case Attachment with assms show thesis by (intro reads [of GetAttachment]) auto
next
  case PutIssueR with assms show thesis by (intro writes [of PutIssue]) auto
next
  case PostIssueR with assms show thesis by (intro writes [of PostIssue]) auto
next
  case DeleteIssueR with assms show thesis by (intro writes [of DeleteIssue]) auto
next
  case PutAttachmentR with assms show thesis by (intro writes [of PutAttachment]) auto
next
  case DeleteAttachmentR with assms show thesis by (intro writes [of DeleteAttachment]) auto
next
  case PutProjectJSON with assms show thesis by (intro writes [of Write_Safety.PutProjectJSON]) auto
qed (use assms in auto)

lemma mem_ok_write_handle: "write_handle L oper w = (resp, w') \<Longrightarrow> mem_ok w \<Longrightarrow> mem_ok w'"
  by (cases oper) (auto intro: mem_ok_writes)

lemma read_handle_quiet: "read_handle L nm oper r w = (resp, w') \<Longrightarrow> quiet w w'"
  using read_handle_safe by (auto simp: read_safe_def)

lemma v1_handler_ok:
  assumes "v1_handler D h = Some handler" and "handler r w = (resp, w')" and "db_ok (db w)" and "mem_ok w"
  shows "db_ok (db w') \<and> mem_ok w'"
  using assms(1)
proof (cases rule: v1_handler_cases)
  case (reads oper)
  with assms(2) have "quiet w w'" by (auto intro: read_handle_quiet)
  then show ?thesis using assms(3,4) by (auto intro: quiet_ok mem_ok_same quiet_mem)
next
  case (writes oper)
  with assms(2) have run: "write_handle (d_lib D) (oper r) w = (resp, w')" by simp
  with write_meets [OF assms(3) this] show ?thesis using assms(4) by (auto simp: op_meets_def files_step_def intro: mem_ok_write_handle)
qed

section \<open>One request\<close>

lemma mem_ok_connect: "ws_Handler D r w = (a, w') \<Longrightarrow> mem_ok w \<Longrightarrow> mem_ok w'"
  by (auto simp: ws_Handler_def Let_def mem_ok_def hub_live_connect split: if_splits sum.splits option.splits)

lemma ws_Handler_db: "ws_Handler D r w = (a, w') \<Longrightarrow> db w' = db w"
  by (auto simp: ws_Handler_def Let_def split: if_splits sum.splits option.splits)

lemma RequireAuth_ok:
  assumes "v1_handler D h = Some handler" "RequireAuth L key handler r w = (resp, w')" "db_ok (db w)" "mem_ok w"
  shows "db_ok (db w') \<and> mem_ok w'"
  using assms(2-4) v1_handler_ok [OF assms(1)]
  by (auto simp: RequireAuth_def Let_def split: if_splits list.splits sum.splits)

lemma admin_serve_ok:
  assumes "admin_serve D g meth path r wa w = (a, wa', w')" "db_ok (db w)" "mem_ok w"
  shows "db_ok (db w') \<and> mem_ok w'"
  using assms
  by (auto simp: admin_serve_def Let_def split: mux_result.splits admin_route.splits prod.splits
      dest: public_handle_ok public_handle_mem mem_ok_same console_handle_ok console_handle_mem mem_ok_console)

lemma serve_ok:
  assumes "serve D g meth path r wa w = (a, wa', w')" "db_ok (db w)" "mem_ok w"
  shows "db_ok (db w') \<and> mem_ok w'"
proof (cases "mux_find NewRouter meth path")
  case (Matched p h)
  let ?r = "r\<lparr>rq_path := path_value p path\<rparr>"
  show ?thesis
  proof (cases "v1_handler D h")
    case (Some handler)
    with assms Matched show ?thesis
      by (auto simp: serve_def split: prod.splits dest!: RequireAuth_ok [OF Some])
  next
    case None
    consider "h = Events" | "h \<noteq> Events" "h = AdminConsole \<and> d_AdminHandler D" | "h \<noteq> Events" "\<not> (h = AdminConsole \<and> d_AdminHandler D)" by blast
    then show ?thesis
    proof cases
      case 1
      with None assms Matched show ?thesis by (auto simp: serve_def split: prod.splits dest: mem_ok_connect ws_Handler_db)
    next
      case 2
      with None assms Matched have "admin_serve D g meth path ?r wa w = (a, wa', w')" by (simp add: serve_def)
      then show ?thesis using assms(2,3) by (rule admin_serve_ok)
    next
      case 3
      with None assms Matched show ?thesis by (auto simp: serve_def Let_def split: if_splits)
    qed
  qed
qed (use assms in \<open>auto simp: serve_def\<close>)

text \<open>An answer of the API other than 401 comes from the handler, for the user of a valid token.\<close>

lemma RequireAuth_passed:
  assumes "RequireAuth L key handler r w = (resp, w')" "rs_status resp \<noteq> 401"
  obtains scheme tok uid where "SplitN2 (rq_header r ''Authorization'') CHR '' '' = [scheme, tok]" "ValidateAccessToken L (clock w) tok key = Inr uid"
    "handler (r\<lparr>rq_user := Some uid\<rparr>) w = (resp, w')"
  using assms by (auto simp: RequireAuth_def Let_def writeUnauthorized_def writeError_def split: if_splits list.splits sum.splits)

lemma serve_v1:
  assumes "serve D g meth path r wa w = (a, wa', w')" "mux_find NewRouter meth path = Matched p h" "v1_handler D h = Some handler"
  obtains resp where "a = Api resp" "wa' = wa" "RequireAuth (d_lib D) (d_jwtKey D) handler (r\<lparr>rq_path := path_value p path\<rparr>) w = (resp, w')"
  using assms by (auto simp: serve_def split: prod.splits)


text \<open>No request to the authentication routes of the API does anything: they are stubs, so nothing in the server hands out an access token.\<close>

lemma auth_routes_are_stubs:
  assumes "serve D g meth (''v1'' # ''auth'' # xs) r wa w = (a, wa', w')"
  shows "wa' = wa \<and> w' = w \<and> (\<forall>resp. a = Api resp \<longrightarrow> resp = stubNotImplemented)"
proof (cases "mux_find NewRouter meth (''v1'' # ''auth'' # xs)")
  case (Matched p h)
  then have "h = AuthStub \<or> h = V1Stub" by (elim mux_find_route) (auto simp: api_table)
  with Matched assms show ?thesis by (auto simp: serve_def Let_def)
qed (use assms in \<open>auto simp: serve_def\<close>)

end
