(* ===== verification/Migrate.thy ===== *)
theory Migrate
  imports World "HOL-Library.Char_ord"
begin

text \<open>
  The migrations, \<^verbatim>\<open>internal/db/migrate.go\<close>. The tables that the migrations make are of a type \<open>'d\<close>, and what the database does when it runs the text of a file is
  the argument \<open>sql\<close>. The directory embedded in the binary is a list of entries. The tracking table is \<open>None\<close> before it is created. Every call can fail, with or without having
  taken effect, by the next of the fates; a statement inside a transaction takes effect only with the commit.

  Shown: a run without failures applies exactly the files that were not yet applied, in the order of their names; any run, with any failures,
  stops after a prefix of them with their versions recorded, so that a later run completes the work and ends in the same tables.
\<close>

section \<open>State\<close>

record dir_entry =
  de_Name :: string
  de_IsDir :: bool
  de_data :: bytes

record 'd pg =
  pg_applied :: "(string \<times> time) list option"
  pg_data :: 'd
  pg_clock :: time
  pg_fates :: "fate list"

datatype migrate_err =
    CreateTable
  | CheckMigration string
  | BeginTx string
  | ExecMigration string
  | RecordMigration string
  | CommitMigration string

definition pg_fate :: "'d pg \<Rightarrow> fate \<times> 'd pg" where
  "pg_fate p = (case pg_fates p of [] \<Rightarrow> (Done, p) | f # fs \<Rightarrow> (f, p\<lparr>pg_fates := fs\<rparr>))"

section \<open>The run\<close>

text \<open>\<^verbatim>\<open>CREATE TABLE IF NOT EXISTS schema_migrations\<close>\<close>

definition create_table :: "'d pg \<Rightarrow> (migrate_err + unit) \<times> 'd pg" where
  "create_table p =
     (let made = (\<lambda>p. p\<lparr>pg_applied := Some (case pg_applied p of None \<Rightarrow> [] | Some vs \<Rightarrow> vs)\<rparr>) in
      case pg_fate p of
        (Done, p) \<Rightarrow> (Inr (), made p)
      | (Failed, p) \<Rightarrow> (Inl CreateTable, p)
      | (Unacked, p) \<Rightarrow> (Inl CreateTable, made p))"

definition applied :: "'d pg \<Rightarrow> string list" where
  "applied p = (case pg_applied p of None \<Rightarrow> [] | Some vs \<Rightarrow> map fst vs)"

text \<open>\<open>filepath.Ext\<close> of a name without a slash: from its last dot on.\<close>

definition Ext :: "string \<Rightarrow> string" where
  "Ext name = (if CHR ''.'' \<in> set name then CHR ''.'' # rev (takeWhile (\<lambda>c. c \<noteq> CHR ''.'') (rev name)) else '''')"

definition version_of :: "string \<Rightarrow> string" where
  "version_of name = TrimSuffix name (Ext name)"

text \<open>The names of the files, in order.\<close>

definition migration_files :: "dir_entry list \<Rightarrow> string list" where
  "migration_files entries = sort (map de_Name (filter (\<lambda>e. \<not> de_IsDir e \<and> HasSuffix (de_Name e) ''.sql'') entries))"

definition ReadFile :: "dir_entry list \<Rightarrow> string \<Rightarrow> bytes" where
  "ReadFile entries name = (case find (\<lambda>e. de_Name e = name) entries of None \<Rightarrow> [] | Some e \<Rightarrow> de_data e)"

text \<open>The body of the loop for one file.\<close>

definition migrate_file ::
  "(bytes \<Rightarrow> 'd \<Rightarrow> 'd option) \<Rightarrow> dir_entry list \<Rightarrow> string \<Rightarrow> 'd pg \<Rightarrow> (migrate_err + unit) \<times> 'd pg" where
  "migrate_file sql entries name p =
     (let version = version_of name in
      case pg_fate p of (f, p) \<Rightarrow>
      if f \<noteq> Done \<or> pg_applied p = None then (Inl (CheckMigration version), p)
      else if version \<in> set (applied p) then (Inr (), p)
      else
      (case pg_fate p of (f, p) \<Rightarrow>
      if f \<noteq> Done then (Inl (BeginTx version), p)
      else
      (case pg_fate p of (f, p) \<Rightarrow>
      case (if f \<noteq> Done then None else sql (ReadFile entries name) (pg_data p)) of
        None \<Rightarrow> (Inl (ExecMigration version), p)
      | Some d \<Rightarrow>
      (case pg_fate p of (f, p) \<Rightarrow>
      if f \<noteq> Done then (Inl (RecordMigration version), p)
      else
      (let p' = (\<lambda>p. p\<lparr>pg_data := d, pg_applied := Some (the (pg_applied p) @ [(version, pg_clock p)])\<rparr>) in
       case pg_fate p of
         (Done, p) \<Rightarrow> (Inr (), p' p)
       | (Failed, p) \<Rightarrow> (Inl (CommitMigration version), p)
       | (Unacked, p) \<Rightarrow> (Inl (CommitMigration version), p' p))))))"

fun migrate_loop ::
  "(bytes \<Rightarrow> 'd \<Rightarrow> 'd option) \<Rightarrow> dir_entry list \<Rightarrow> string list \<Rightarrow> 'd pg \<Rightarrow> (migrate_err + unit) \<times> 'd pg" where
  "migrate_loop sql entries [] p = (Inr (), p)"
| "migrate_loop sql entries (name # names) p =
     (case migrate_file sql entries name p of
        (Inl e, p) \<Rightarrow> (Inl e, p)
      | (Inr _, p) \<Rightarrow> migrate_loop sql entries names p)"

definition Migrate :: "(bytes \<Rightarrow> 'd \<Rightarrow> 'd option) \<Rightarrow> dir_entry list \<Rightarrow> 'd pg \<Rightarrow> (migrate_err + unit) \<times> 'd pg" where
  "Migrate sql entries p =
     (case create_table p of
        (Inl e, p) \<Rightarrow> (Inl e, p)
      | (Inr _, p) \<Rightarrow> migrate_loop sql entries (migration_files entries) p)"

section \<open>Specification\<close>

text \<open>The files still to be applied, and what applying a list of them makes of the tables.\<close>

definition pending :: "dir_entry list \<Rightarrow> 'd pg \<Rightarrow> string list" where
  "pending entries p = filter (\<lambda>n. version_of n \<notin> set (applied p)) (migration_files entries)"

fun apply_files :: "(bytes \<Rightarrow> 'd \<Rightarrow> 'd option) \<Rightarrow> dir_entry list \<Rightarrow> string list \<Rightarrow> 'd \<Rightarrow> 'd option" where
  "apply_files sql entries [] d = Some d"
| "apply_files sql entries (n # ns) d =
     (case sql (ReadFile entries n) d of None \<Rightarrow> None | Some d' \<Rightarrow> apply_files sql entries ns d')"

text \<open>The state after a list of files has been applied on top of another.\<close>

definition after_files :: "(bytes \<Rightarrow> 'd \<Rightarrow> 'd option) \<Rightarrow> dir_entry list \<Rightarrow> string list \<Rightarrow> 'd pg \<Rightarrow> 'd pg \<Rightarrow> bool" where
  "after_files sql entries ns p p' \<longleftrightarrow>
     apply_files sql entries ns (pg_data p) = Some (pg_data p') \<and> applied p' = applied p @ map version_of ns"

section \<open>Names and versions\<close>

lemma Ext_sql: "HasSuffix name ''.sql'' \<Longrightarrow> Ext name = ''.sql''"
proof -
  assume "HasSuffix name ''.sql''"
  then obtain s where "name = s @ ''.sql''" by (metis HasSuffix_def append_take_drop_id)
  then show ?thesis by (simp add: Ext_def)
qed

lemma version_sql: "HasSuffix name ''.sql'' \<Longrightarrow> version_of name @ ''.sql'' = name"
  by (metis Ext_sql version_of_def HasSuffix_def TrimSuffix_append append_take_drop_id)

lemma set_migration_files: "n \<in> set (migration_files es) \<longleftrightarrow> (\<exists>e \<in> set es. de_Name e = n \<and> \<not> de_IsDir e \<and> HasSuffix n ''.sql'')"
  by (auto simp: migration_files_def)

lemma inj_version: "inj_on version_of (set (migration_files es))"
  by (rule inj_onI) (metis set_migration_files version_sql)

text \<open>An embedded directory has no two entries of the same name.\<close>

lemma distinct_files: "distinct (map de_Name es) \<Longrightarrow> distinct (migration_files es)"
  by (simp add: migration_files_def distinct_map_filter)

lemma distinct_versions: "distinct (map de_Name es) \<Longrightarrow> distinct (map version_of (migration_files es))"
  by (simp add: distinct_map distinct_files inj_version)

section \<open>One file\<close>

lemma pg_fate_frame:
  assumes "pg_fate p = (f, p')"
  shows "pg_data p' = pg_data p" "pg_applied p' = pg_applied p" "applied p' = applied p"
  using assms by (auto simp: pg_fate_def applied_def split: list.splits)

lemma pg_fate_Done: "pg_fates p = [] \<Longrightarrow> pg_fate p = (Done, p)"
  by (simp add: pg_fate_def)


text \<open>A file is applied and recorded, or nothing happens; when nothing happens without an error, it had been applied before.\<close>

lemma migrate_file_cases:
  assumes "migrate_file sql es n p = (x, p')" and "pg_applied p \<noteq> None"
  obtains (skipped) "pg_applied p' \<noteq> None" "applied p' = applied p" "pg_data p' = pg_data p" "x = Inr () \<longrightarrow> version_of n \<in> set (applied p)"
  | (run) "pg_applied p' \<noteq> None" "version_of n \<notin> set (applied p)" "sql (ReadFile es n) (pg_data p) = Some (pg_data p')"
      "applied p' = applied p @ [version_of n]"
proof -
  obtain f1 p1 where p1: "pg_fate p = (f1, p1)" by fastforce
  obtain f2 p2 where p2: "pg_fate p1 = (f2, p2)" by fastforce
  obtain f3 p3 where p3: "pg_fate p2 = (f3, p3)" by fastforce
  obtain f4 p4 where p4: "pg_fate p3 = (f4, p4)" by fastforce
  obtain f5 p5 where p5: "pg_fate p4 = (f5, p5)" by fastforce
  note frames = pg_fate_frame [OF p1] pg_fate_frame [OF p2] pg_fate_frame [OF p3] pg_fate_frame [OF p4] pg_fate_frame [OF p5]
  let ?v = "version_of n"
  let ?rec = "\<lambda>d. p5\<lparr>pg_data := d, pg_applied := Some (the (pg_applied p5) @ [(?v, pg_clock p5)])\<rparr>"
  have steps: "(x, p') =
     (if f1 \<noteq> Done then (Inl (CheckMigration ?v), p1) else if ?v \<in> set (applied p) then (Inr (), p1)
      else if f2 \<noteq> Done then (Inl (BeginTx ?v), p2) else if f3 \<noteq> Done then (Inl (ExecMigration ?v), p3)
      else case sql (ReadFile es n) (pg_data p) of
             None \<Rightarrow> (Inl (ExecMigration ?v), p3)
           | Some d \<Rightarrow> if f4 \<noteq> Done then (Inl (RecordMigration ?v), p4)
               else if f5 = Failed then (Inl (CommitMigration ?v), p5)
               else (if f5 = Done then Inr () else Inl (CommitMigration ?v), ?rec d))"
    unfolding assms(1) [symmetric] migrate_file_def Let_def
    using assms(2) by (cases f5) (auto simp: p1 p2 p3 p4 p5 frames split: option.splits)
  show thesis
  proof (cases "f1 = Done \<and> ?v \<notin> set (applied p) \<and> f2 = Done \<and> f3 = Done \<and> f4 = Done \<and> f5 \<noteq> Failed
      \<and> sql (ReadFile es n) (pg_data p) \<noteq> None")
    case True
    then obtain d where d: "sql (ReadFile es n) (pg_data p) = Some d" by auto
    with True steps have "p' = ?rec d" by simp
    with True d assms(2) frames show thesis by (intro run) (auto simp: applied_def)
  next
    case False
    then have "p' \<in> {p1, p2, p3, p4, p5}" "x = Inr () \<longrightarrow> ?v \<in> set (applied p)"
      using steps by (auto split: if_splits option.splits)
    then show thesis using assms(2) frames by (intro skipped) auto
  qed
qed

lemma migrate_file_Done:
  assumes "pg_fates p = []" "pg_applied p \<noteq> None"
    and "version_of n \<notin> set (applied p) \<Longrightarrow> sql (ReadFile es n) (pg_data p) \<noteq> None"
  obtains p' where "migrate_file sql es n p = (Inr (), p')" "pg_fates p' = []"
  using assms by (cases "version_of n \<in> set (applied p)") (auto simp: migrate_file_def pg_fate_Done Let_def)

section \<open>The loop\<close>

lemma apply_files_append:
  "apply_files sql es (ms @ ns) d = Option.bind (apply_files sql es ms d) (apply_files sql es ns)"
  by (induction ms arbitrary: d) (auto split: option.splits)

lemma after_files_Nil: "applied p' = applied p \<Longrightarrow> pg_data p' = pg_data p \<Longrightarrow> after_files sql es [] p p'"
  by (simp add: after_files_def)

lemma after_files_Cons:
  assumes "sql (ReadFile es n) (pg_data p) = Some (pg_data p1)" "applied p1 = applied p @ [version_of n]" "after_files sql es ns p1 p'"
  shows "after_files sql es (n # ns) p p'"
  using assms by (simp add: after_files_def)

text \<open>Applying a file does not change which of the others are pending.\<close>

lemma pending_others:
  assumes "applied p1 = applied p @ [version_of n]" "version_of n \<notin> version_of ` set names"
  shows "filter (\<lambda>m. version_of m \<notin> set (applied p1)) names = filter (\<lambda>m. version_of m \<notin> set (applied p)) names"
  using assms by (intro filter_cong) (auto simp: image_iff)

lemma migrate_loop_prefix:
  assumes "migrate_loop sql es names p = (x, p')" "pg_applied p \<noteq> None" "distinct (map version_of names)"
  shows "pg_applied p' \<noteq> None \<and> (\<exists>k. after_files sql es (take k (filter (\<lambda>n. version_of n \<notin> set (applied p)) names)) p p' \<and>
     (x = Inr () \<longrightarrow> length (filter (\<lambda>n. version_of n \<notin> set (applied p)) names) \<le> k))"
  using assms
proof (induction names arbitrary: p)
  case Nil
  then show ?case by (auto simp: after_files_def)
next
  case (Cons n names)
  let ?pend = "\<lambda>p ns. filter (\<lambda>n. version_of n \<notin> set (applied p)) ns"
  obtain y p1 where one: "migrate_file sql es n p = (y, p1)" by fastforce
  show ?case
  proof (cases y)
    case (Inl e)
    with Cons.prems one have "x = Inl e" "p' = p1" by simp_all
    from one Cons.prems(2) show ?thesis
    proof (cases rule: migrate_file_cases)
      case skipped
      with \<open>x = Inl e\<close> \<open>p' = p1\<close> show ?thesis by (auto intro!: exI [of _ 0] after_files_Nil)
    next
      case run
      with \<open>x = Inl e\<close> \<open>p' = p1\<close> show ?thesis by (auto intro!: exI [of _ 1] after_files_Cons after_files_Nil)
    qed
  next
    case (Inr u)
    with Cons.prems one have rest: "migrate_loop sql es names p1 = (x, p')" by simp
    from one Cons.prems(2) show ?thesis
    proof (cases rule: migrate_file_cases)
      case skipped
      from Cons.IH [OF rest skipped(1)] Cons.prems(3) obtain k where
        k: "pg_applied p' \<noteq> None" "after_files sql es (take k (?pend p1 names)) p1 p'" "x = Inr () \<longrightarrow> length (?pend p1 names) \<le> k" by auto
      have "after_files sql es (take k (?pend p names)) p p'" using k(2) skipped(2,3) by (simp add: after_files_def)
      then show ?thesis using k(1,3) skipped(2,4) Inr by auto
    next
      case run
      from Cons.IH [OF rest run(1)] Cons.prems(3) obtain k where
        k: "pg_applied p' \<noteq> None" "after_files sql es (take k (?pend p1 names)) p1 p'" "x = Inr () \<longrightarrow> length (?pend p1 names) \<le> k" by auto
      have same: "?pend p1 names = ?pend p names" using run(4) Cons.prems(3) by (intro pending_others) auto
      then have "after_files sql es (take (Suc k) (?pend p (n # names))) p p'"
        using k(2) run(2-4) by (simp add: after_files_Cons)
      with k(1,3) same run(2) show ?thesis by (intro conjI exI [of _ "Suc k"]) auto
    qed
  qed
qed

lemma migrate_loop_Done:
  assumes "pg_fates p = []" "pg_applied p \<noteq> None" "distinct (map version_of names)"
    and "apply_files sql es (filter (\<lambda>n. version_of n \<notin> set (applied p)) names) (pg_data p) \<noteq> None"
  shows "\<exists>p'. migrate_loop sql es names p = (Inr (), p')"
  using assms
proof (induction names arbitrary: p)
  case (Cons n names)
  have "version_of n \<notin> set (applied p) \<Longrightarrow> sql (ReadFile es n) (pg_data p) \<noteq> None"
    using Cons.prems(4) by (auto split: option.splits)
  then obtain p1 where one: "migrate_file sql es n p = (Inr (), p1)" "pg_fates p1 = []"
    using migrate_file_Done [OF Cons.prems(1,2)] by metis
  from one(1) Cons.prems(2) have "\<exists>p'. migrate_loop sql es names p1 = (Inr (), p')"
  proof (cases rule: migrate_file_cases)
    case skipped
    with Cons one(2) show ?thesis by simp
  next
    case run
    have "filter (\<lambda>n. version_of n \<notin> set (applied p1)) names = filter (\<lambda>n. version_of n \<notin> set (applied p)) names"
      using run(4) Cons.prems(3) by (intro pending_others) auto
    with Cons one(2) run show ?thesis by simp
  qed
  with one(1) show ?case by simp
qed simp

section \<open>Properties\<close>

lemma create_table_cases:
  assumes "create_table p = (x, p')"
  shows "applied p' = applied p" "pg_data p' = pg_data p" "x = Inr () \<Longrightarrow> pg_applied p' \<noteq> None" "x = Inl e \<Longrightarrow> e = CreateTable"
  using assms by (auto simp: create_table_def applied_def pg_fate_def Let_def split: list.splits fate.splits option.splits)

lemma create_table_Done: "pg_fates p = [] \<Longrightarrow> \<exists>p1. create_table p = (Inr (), p1) \<and> pg_fates p1 = []"
  by (simp add: create_table_def pg_fate_Done Let_def)

lemma pending_same: "applied p' = applied p \<Longrightarrow> pending es p' = pending es p"
  by (simp add: pending_def)

lemma Migrate_stops_in_prefix:
  assumes "distinct (map de_Name es)" "Migrate sql es p = (x, p')"
  shows "\<exists>k. after_files sql es (take k (pending es p)) p p' \<and> (x = Inr () \<longrightarrow> length (pending es p) \<le> k)"
proof -
  obtain y p1 where c: "create_table p = (y, p1)" by fastforce
  note same = create_table_cases(1,2) [OF c]
  show ?thesis
  proof (cases y)
    case (Inl e)
    with assms(2) c same show ?thesis by (intro exI [of _ 0]) (auto simp: Migrate_def after_files_def)
  next
    case (Inr u)
    with assms(2) c have "migrate_loop sql es (migration_files es) p1 = (x, p')" by (simp add: Migrate_def)
    from migrate_loop_prefix [OF this _ distinct_versions [OF assms(1)]] create_table_cases(3) [OF c] Inr
    show ?thesis by (auto simp: pending_def same after_files_def)
  qed
qed

lemma Migrate_completes:
  assumes "distinct (map de_Name es)" "pg_fates p = []" "apply_files sql es (pending es p) (pg_data p) = Some d"
  shows "\<exists>p'. Migrate sql es p = (Inr (), p') \<and> pg_data p' = d \<and> applied p' = applied p @ map version_of (pending es p)"
proof -
  obtain p1 where c: "create_table p = (Inr (), p1)" "pg_fates p1 = []" using create_table_Done [OF assms(2)] by blast
  note same = create_table_cases(1,2) [OF c(1)]
  have "\<exists>p'. migrate_loop sql es (migration_files es) p1 = (Inr (), p')"
    using assms(3) create_table_cases(3) [OF c(1) refl]
    by (intro migrate_loop_Done [OF c(2)] distinct_versions [OF assms(1)]) (auto simp: pending_def same)
  then obtain p' where run: "Migrate sql es p = (Inr (), p')" using c(1) by (auto simp: Migrate_def)
  from Migrate_stops_in_prefix [OF assms(1) this] assms(3) show ?thesis
    using run by (auto simp: after_files_def)
qed

text \<open>After a prefix of the pending files, the rest of them is pending.\<close>

lemma pending_after:
  assumes "distinct (map de_Name es)" "after_files sql es (take k (pending es p)) p p'"
  shows "pending es p' = drop k (pending es p)"
proof -
  let ?f = "migration_files es" and ?ps = "pending es p"
  have d: "distinct (map version_of ?ps)" using distinct_versions [OF assms(1)] by (simp add: pending_def distinct_map_filter)
  have "pending es p' = filter (\<lambda>n. version_of n \<notin> version_of ` set (take k ?ps)) ?ps"
    using assms(2) by (auto simp: pending_def after_files_def intro!: filter_cong)
  also have "\<dots> = filter (\<lambda>n. version_of n \<notin> version_of ` set (take k ?ps)) (take k ?ps @ drop k ?ps)" by simp
  also have "\<dots> = drop k ?ps"
  proof -
    have "version_of ` set (take k ?ps) \<inter> version_of ` set (drop k ?ps) = {}"
      using d by (metis append_take_drop_id distinct_append map_append set_map)
    then show ?thesis by (auto simp: filter_empty_conv filter_id_conv simp del: append_take_drop_id)
  qed
  finally show ?thesis .
qed


definition sample_dir :: "dir_entry list" where
  "sample_dir = [\<lparr>de_Name = ''002_more.sql'', de_IsDir = False, de_data = ''b''\<rparr>, \<lparr>de_Name = ''001_initial.sql'', de_IsDir = False, de_data = ''a''\<rparr>,
     \<lparr>de_Name = ''notes.txt'', de_IsDir = False, de_data = ''x''\<rparr>]"

definition sample_sql :: "bytes \<Rightarrow> string \<Rightarrow> string option" where
  "sample_sql b d = (if b = ''x'' then None else Some (d @ b))"

definition sample_pg :: "fate list \<Rightarrow> string pg" where
  "sample_pg fs = \<lparr>pg_applied = None, pg_data = '''', pg_clock = 0, pg_fates = fs\<rparr>"

lemma sample_pending: "pending sample_dir (sample_pg fs) = [''001_initial.sql'', ''002_more.sql'']"
proof -
  have "migration_files sample_dir = [''001_initial.sql'', ''002_more.sql'']" by code_simp
  then show ?thesis by (simp add: pending_def applied_def sample_pg_def)
qed

lemma sample_dir_distinct: "distinct (map de_Name sample_dir)"
  by (simp add: sample_dir_def)

lemma sample_apply: "apply_files sample_sql sample_dir (pending sample_dir (sample_pg fs)) (pg_data (sample_pg fs)) = Some ''ab''"
  unfolding sample_pending by (simp add: sample_sql_def ReadFile_def sample_dir_def sample_pg_def)

lemma sample_versions: "map version_of [''001_initial.sql'', ''002_more.sql''] = [''001_initial'', ''002_more'']"
  by code_simp


text \<open>C13. However a run of the migrations ends, with calls that fail before or after taking effect, it has applied a prefix of the pending files and recorded
  exactly these; so the next run without failures succeeds and ends with the tables and the records of an uninterrupted run.
\<close>

theorem Migrate_resumes:
  assumes "distinct (map de_Name es)" "Migrate sql es p = (x, p1)"
    and "apply_files sql es (pending es p) (pg_data p) = Some d"
    and "pg_data p2 = pg_data p1" "pg_applied p2 = pg_applied p1" "pg_fates p2 = []"
  shows "\<exists>p'. Migrate sql es p2 = (Inr (), p') \<and> pg_data p' = d \<and> applied p' = applied p @ map version_of (pending es p)"
proof -
  obtain k where k: "after_files sql es (take k (pending es p)) p p1"
    using Migrate_stops_in_prefix [OF assms(1,2)] by blast
  have "applied p2 = applied p1" using assms(5) by (simp add: applied_def)
  then have rest: "pending es p2 = drop k (pending es p)" using pending_after [OF assms(1) k] pending_same by metis
  have "apply_files sql es (take k (pending es p) @ drop k (pending es p)) (pg_data p) = Some d" using assms(3) by simp
  then have "apply_files sql es (pending es p2) (pg_data p2) = Some d"
    using k assms(4) by (simp only: apply_files_append rest) (simp add: after_files_def)
  from Migrate_completes [OF assms(1,6) this] obtain p' where p': "Migrate sql es p2 = (Inr (), p')" "pg_data p' = d"
    "applied p' = applied p2 @ map version_of (drop k (pending es p))" unfolding rest by blast
  moreover have "applied p2 = applied p @ map version_of (take k (pending es p))" using k \<open>applied p2 = applied p1\<close> by (simp add: after_files_def)
  ultimately show ?thesis by (metis append.assoc append_take_drop_id map_append)
qed

text \<open>The connection fails after the first of two files; the run is repeated.\<close>

definition sample_interrupted :: "string pg" where
  "sample_interrupted = snd (Migrate sample_sql sample_dir (sample_pg [Done, Done, Done, Done, Done, Done, Failed]))"

theorem Migrate_resumes_witness:
  "pg_data sample_interrupted = ''a'' \<and> applied sample_interrupted = [''001_initial''] \<and>
   (\<exists>p'. Migrate sample_sql sample_dir (sample_interrupted\<lparr>pg_fates := []\<rparr>) = (Inr (), p') \<and> pg_data p' = ''ab'' \<and>
      applied p' = [''001_initial'', ''002_more''])"
proof (intro conjI)
  show "pg_data sample_interrupted = ''a''" "applied sample_interrupted = [''001_initial'']" by code_simp+
  obtain x where run: "Migrate sample_sql sample_dir (sample_pg [Done, Done, Done, Done, Done, Done, Failed]) = (x, sample_interrupted)"
    unfolding sample_interrupted_def by (metis prod.collapse)
  have "applied (sample_pg fs) = []" for fs by (simp add: sample_pg_def applied_def)
  then show "\<exists>p'. Migrate sample_sql sample_dir (sample_interrupted\<lparr>pg_fates := []\<rparr>) = (Inr (), p') \<and> pg_data p' = ''ab'' \<and>
      applied p' = [''001_initial'', ''002_more'']"
    using Migrate_resumes [OF sample_dir_distinct run sample_apply, of "sample_interrupted\<lparr>pg_fates := []\<rparr>"]
    unfolding sample_pending sample_versions by simp
qed

end
