(* ===== verification/Startup.thy ===== *)
theory Startup
  imports Server Migrate
begin

text \<open>
  The start of the process: \<open>Config\<close>, \<open>loadConfig\<close> and \<open>main\<close> up to the listening server (\<^verbatim>\<open>cmd/issued/main.go\<close>), \<open>NewService\<close> (\<^verbatim>\<open>internal/auth/webauthn.go\<close>) and
  \<open>NewS3Client\<close> (\<^verbatim>\<open>internal/storage/s3.go\<close>).

  The environment is a function from names to values, empty when not set. What \<open>main\<close> reaches for outside the repository is the record \<open>outside\<close>: whether the pool accepts the
  address of the database, what the database does with the text of a migration, \<open>webauthn.New\<close>, and the loading of the AWS configuration. Listening, signals and the
  graceful shutdown are not modelled.

  Shown: the configuration is accepted exactly when every required variable is set and the port is a number, and the error names all that are missing; a
  server that starts has a database within its constraints, an empty cache and hub, and an account for the configured administrator.
\<close>

section \<open>Configuration\<close>

record Config =
  BaseURL :: string
  RPID :: string
  RPDisplayName :: string
  AdminEmail :: string
  DatabaseURL :: string
  S3Bucket :: string
  S3Region :: string
  JWTSigningKey :: bytes
  InviteSigningKey :: bytes
  SMTPHost :: string
  SMTPPort :: string
  SMTPUser :: string
  SMTPPass :: string
  SMTPFrom :: string
  S3Endpoint :: string
  S3AccessKeyID :: string
  S3SecretAccessKey :: string
  S3PathStyle :: bool

datatype config_err = MissingVariables "string list" | BadSMTPPort

text \<open>The closure \<open>required\<close>: the value, and the names that were empty so far.\<close>

definition required :: "(string \<Rightarrow> string) \<Rightarrow> string \<Rightarrow> string list \<Rightarrow> string \<times> string list" where
  "required Getenv key missing = (let v = Getenv key in (v, if v = '''' then missing @ [key] else missing))"

definition loadConfig :: "(string \<Rightarrow> string) \<Rightarrow> config_err + Config" where
  "loadConfig Getenv =
     (let (baseURL, missing) = required Getenv ''BASE_URL'' [];
          (rpID, missing) = required Getenv ''RP_ID'' missing;
          (rpDisplayName, missing) = required Getenv ''RP_DISPLAY_NAME'' missing;
          (adminEmail, missing) = required Getenv ''ADMIN_EMAIL'' missing;
          (databaseURL, missing) = required Getenv ''DATABASE_URL'' missing;
          (s3Bucket, missing) = required Getenv ''S3_BUCKET'' missing;
          (s3Region, missing) = required Getenv ''S3_REGION'' missing;
          (smtpHost, missing) = required Getenv ''SMTP_HOST'' missing;
          (smtpPort, missing) = required Getenv ''SMTP_PORT'' missing;
          (smtpUser, missing) = required Getenv ''SMTP_USER'' missing;
          (smtpPass, missing) = required Getenv ''SMTP_PASS'' missing;
          (smtpFrom, missing) = required Getenv ''SMTP_FROM'' missing;
          (jwtKeyStr, missing) = required Getenv ''JWT_SIGNING_KEY'' missing;
          (inviteKeyStr, missing) = required Getenv ''INVITE_SIGNING_KEY'' missing in
      if missing \<noteq> [] then Inl (MissingVariables missing)
      else if ParseInt64 smtpPort = None then Inl BadSMTPPort
      else Inr \<lparr>BaseURL = baseURL, RPID = rpID, RPDisplayName = rpDisplayName, AdminEmail = adminEmail, DatabaseURL = databaseURL,
             S3Bucket = s3Bucket, S3Region = s3Region, JWTSigningKey = jwtKeyStr, InviteSigningKey = inviteKeyStr,
             SMTPHost = smtpHost, SMTPPort = smtpPort, SMTPUser = smtpUser, SMTPPass = smtpPass, SMTPFrom = smtpFrom,
             S3Endpoint = Getenv ''S3_ENDPOINT'', S3AccessKeyID = Getenv ''S3_ACCESS_KEY_ID'',
             S3SecretAccessKey = Getenv ''S3_SECRET_ACCESS_KEY'', S3PathStyle = (Getenv ''S3_PATH_STYLE'' = ''true'')\<rparr>)"

section \<open>The S3 client\<close>

record S3Config =
  s3c_Bucket :: string
  s3c_Region :: string
  s3c_Endpoint :: string
  s3c_AccessKeyID :: string
  s3c_SecretAccessKey :: string
  s3c_PathStyle :: bool

datatype load_option = WithRegion string | WithStaticCredentials string string string

datatype s3_option = BaseEndpoint string | UsePathStyle

text \<open>The client: the loaded AWS configuration and the options it was made with.\<close>

record 'aws S3Client =
  cl_config :: 'aws
  cl_options :: "s3_option list"
  cl_Bucket :: string

definition NewS3Client :: "(load_option list \<Rightarrow> 'aws option) \<Rightarrow> S3Config \<Rightarrow> 'aws S3Client option" where
  "NewS3Client LoadDefaultConfig cfg =
     (let loadOpts = [WithRegion (s3c_Region cfg)];
          loadOpts = (if s3c_AccessKeyID cfg \<noteq> '''' \<and> s3c_SecretAccessKey cfg \<noteq> ''''
            then loadOpts @ [WithStaticCredentials (s3c_AccessKeyID cfg) (s3c_SecretAccessKey cfg) ''''] else loadOpts) in
      case LoadDefaultConfig loadOpts of
        None \<Rightarrow> None
      | Some awsCfg \<Rightarrow>
          (let s3Opts = (if s3c_Endpoint cfg \<noteq> '''' then [BaseEndpoint (s3c_Endpoint cfg)] else []);
               s3Opts = (if s3c_PathStyle cfg then s3Opts @ [UsePathStyle] else s3Opts) in
           Some \<lparr>cl_config = awsCfg, cl_options = s3Opts, cl_Bucket = s3c_Bucket cfg\<rparr>))"

section \<open>main\<close>

record 'aws outside =
  o_Getenv :: "string \<Rightarrow> string"
  o_pool_New :: "string \<Rightarrow> bool"
  o_sql :: "bytes \<Rightarrow> db option \<Rightarrow> db option option"
  o_migrations :: "dir_entry list"
  o_webauthn_New :: "string \<Rightarrow> string \<Rightarrow> string list \<Rightarrow> wn_lib option"
  o_LoadDefaultConfig :: "load_option list \<Rightarrow> 'aws option"
  o_lib :: lib
  o_Upgrade :: "request \<Rightarrow> bool"
  o_BuildSHA :: string

datatype exit_reason =
    ConfigurationError config_err
  | PoolFailed
  | PingFailed
  | MigrationFailed migrate_err
  | BootstrapFailed auth_err
  | AuthServiceFailed
  | S3ClientFailed

record Service =
  sv_wn :: wn_lib
  sv_jwtKey :: bytes
  sv_inviteKey :: bytes

text \<open>\<open>NewService\<close>: the arguments are the fields of \<open>auth.Config\<close>.\<close>

definition NewService ::
  "(string \<Rightarrow> string \<Rightarrow> string list \<Rightarrow> wn_lib option) \<Rightarrow> string \<Rightarrow> string \<Rightarrow> string list \<Rightarrow> bytes \<Rightarrow> bytes \<Rightarrow> Service option" where
  "NewService webauthn_New rpID rpDisplayName rpOrigins jwtKey inviteKey =
     (case webauthn_New rpID rpDisplayName rpOrigins of
        None \<Rightarrow> None
      | Some wn \<Rightarrow> Some \<lparr>sv_wn = wn, sv_jwtKey = jwtKey, sv_inviteKey = inviteKey\<rparr>)"

record 'aws running =
  run_deps :: deps
  run_world :: world
  run_s3 :: "'aws S3Client"
  run_link :: "string option"

text \<open>The tables as the database serves them to the rest of the program.\<close>

definition connected :: "db \<Rightarrow> db option pg \<Rightarrow> (string \<rightharpoonup> object) \<Rightarrow> world" where
  "connected d p bucket = \<lparr>db = d, s3 = bucket, cache = None, the_hub = None, clock = pg_clock p, fates = pg_fates p\<rparr>"

definition s3_config :: "Config \<Rightarrow> S3Config" where
  "s3_config cfg = \<lparr>s3c_Bucket = S3Bucket cfg, s3c_Region = S3Region cfg, s3c_Endpoint = S3Endpoint cfg,
     s3c_AccessKeyID = S3AccessKeyID cfg, s3c_SecretAccessKey = S3SecretAccessKey cfg, s3c_PathStyle = S3PathStyle cfg\<rparr>"

definition retentionHours :: int where "retentionHours = 24"

text \<open>Everything after the migrations, on the connected database.\<close>

definition main_services ::
  "'aws outside \<Rightarrow> uuid \<Rightarrow> uuid \<Rightarrow> uuid \<Rightarrow> Config \<Rightarrow> world \<Rightarrow> exit_reason + 'aws running" where
  "main_services X newUser jti newInvite cfg w =
     (case Bootstrap (o_lib X) newUser jti newInvite (AdminEmail cfg) (InviteSigningKey cfg) (BaseURL cfg) w of
        (Inl e, _) \<Rightarrow> Inl (BootstrapFailed e)
      | (Inr link, w) \<Rightarrow>
     (case NewService (o_webauthn_New X) (RPID cfg) (RPDisplayName cfg) [BaseURL cfg] (JWTSigningKey cfg) (InviteSigningKey cfg) of
        None \<Rightarrow> Inl AuthServiceFailed
      | Some authSvc \<Rightarrow>
     (case NewS3Client (o_LoadDefaultConfig X) (s3_config cfg) of
        None \<Rightarrow> Inl S3ClientFailed
      | Some s3Client \<Rightarrow>
     Inr \<lparr>run_deps = \<lparr>d_lib = o_lib X, d_wn = sv_wn authSvc, d_Upgrade = o_Upgrade X, d_BuildSHA = o_BuildSHA X,
            d_RPDisplayName = RPDisplayName cfg, d_jwtKey = sv_jwtKey authSvc, d_inviteKey = sv_inviteKey authSvc, d_AdminHandler = True\<rparr>,
          run_world = w\<lparr>cache := Some (NewLRUCache (64 * 1024 * 1024)), the_hub := Some NewHub\<rparr>,
          run_s3 = s3Client, run_link = link\<rparr>)))"

definition main ::
  "'aws outside \<Rightarrow> uuid \<Rightarrow> uuid \<Rightarrow> uuid \<Rightarrow> db option pg \<Rightarrow> (string \<rightharpoonup> object) \<Rightarrow> exit_reason + 'aws running" where
  "main X newUser jti newInvite p bucket =
     (case loadConfig (o_Getenv X) of
        Inl e \<Rightarrow> Inl (ConfigurationError e)
      | Inr cfg \<Rightarrow>
     if \<not> o_pool_New X (DatabaseURL cfg) then Inl PoolFailed
     else
     (case pg_fate p of (f, p) \<Rightarrow>
     if f \<noteq> Done then Inl PingFailed
     else
     (case Migrate (o_sql X) (o_migrations X) p of
        (Inl e, _) \<Rightarrow> Inl (MigrationFailed e)
      | (Inr _, p) \<Rightarrow>
     (case pg_data p of
        None \<Rightarrow> Inl (BootstrapFailed (DbFailed ErrIO))
      | Some d \<Rightarrow> main_services X newUser jti newInvite cfg (connected d p bucket)))))"

section \<open>The configuration is complete\<close>

definition required_vars :: "string list" where
  "required_vars = [''BASE_URL'', ''RP_ID'', ''RP_DISPLAY_NAME'', ''ADMIN_EMAIL'', ''DATABASE_URL'', ''S3_BUCKET'', ''S3_REGION'', ''SMTP_HOST'',
     ''SMTP_PORT'', ''SMTP_USER'', ''SMTP_PASS'', ''SMTP_FROM'', ''JWT_SIGNING_KEY'', ''INVITE_SIGNING_KEY'']"

text \<open>The names of a list that the environment does not have.\<close>

definition unset :: "(string \<Rightarrow> string) \<Rightarrow> string list \<Rightarrow> string list" where
  "unset env ks = filter (\<lambda>k. env k = '''') ks"

lemma required_unset: "required env k (unset env ks) = (env k, unset env (ks @ [k]))"
  by (simp add: required_def unset_def Let_def)

lemma required_first: "required env k [] = (env k, unset env [k])"
  by (simp add: required_def unset_def Let_def)

definition config_of :: "(string \<Rightarrow> string) \<Rightarrow> Config" where
  "config_of env = \<lparr>BaseURL = env ''BASE_URL'', RPID = env ''RP_ID'', RPDisplayName = env ''RP_DISPLAY_NAME'', AdminEmail = env ''ADMIN_EMAIL'',
     DatabaseURL = env ''DATABASE_URL'', S3Bucket = env ''S3_BUCKET'', S3Region = env ''S3_REGION'', JWTSigningKey = env ''JWT_SIGNING_KEY'',
     InviteSigningKey = env ''INVITE_SIGNING_KEY'', SMTPHost = env ''SMTP_HOST'', SMTPPort = env ''SMTP_PORT'', SMTPUser = env ''SMTP_USER'',
     SMTPPass = env ''SMTP_PASS'', SMTPFrom = env ''SMTP_FROM'', S3Endpoint = env ''S3_ENDPOINT'', S3AccessKeyID = env ''S3_ACCESS_KEY_ID'',
     S3SecretAccessKey = env ''S3_SECRET_ACCESS_KEY'', S3PathStyle = (env ''S3_PATH_STYLE'' = ''true'')\<rparr>"

lemma loadConfig_eq:
  "loadConfig env =
     (if unset env required_vars \<noteq> [] then Inl (MissingVariables (unset env required_vars))
      else if ParseInt64 (env ''SMTP_PORT'') = None then Inl BadSMTPPort
      else Inr (config_of env))"
  unfolding loadConfig_def Let_def required_first required_unset prod.case required_vars_def append.simps config_of_def ..

text \<open>The configuration is accepted exactly when none of the fourteen required variables is empty and the SMTP port is an integer; every field is then the value of its
  variable. Otherwise the error names every missing variable, in the order of the source, before the port is looked at.
\<close>

theorem loadConfig_exact:
  "((\<exists>cfg. loadConfig env = Inr cfg) \<longleftrightarrow> (\<forall>k \<in> set required_vars. env k \<noteq> '''') \<and> ParseInt64 (env ''SMTP_PORT'') \<noteq> None)
   \<and> (\<forall>cfg. loadConfig env = Inr cfg \<longrightarrow> cfg = config_of env)
   \<and> (\<forall>ks. loadConfig env = Inl (MissingVariables ks) \<longrightarrow> ks = filter (\<lambda>k. env k = '''') required_vars)"
  unfolding loadConfig_eq by (auto simp: unset_def filter_empty_conv)

definition sample_env :: "string \<Rightarrow> string" where
  "sample_env k = (if k \<in> {''RP_ID'', ''SMTP_PORT''} then '''' else ''7'')"

theorem loadConfig_exact_witness:
  "loadConfig sample_env = Inl (MissingVariables [''RP_ID'', ''SMTP_PORT''])
   \<and> filter (\<lambda>k. sample_env k = '''') required_vars = [''RP_ID'', ''SMTP_PORT'']"
proof -
  have run: "loadConfig sample_env = Inl (MissingVariables [''RP_ID'', ''SMTP_PORT''])" by code_simp
  then have "[''RP_ID'', ''SMTP_PORT''] = filter (\<lambda>k. sample_env k = '''') required_vars"
    by (rule loadConfig_exact [THEN conjunct2, THEN conjunct2, rule_format])
  with run show ?thesis by simp
qed

section \<open>A server that starts\<close>

lemma MintInviteTokenWithDuration_ok:
  "MintInviteTokenWithDuration L j n c m role ps key dur w = (x, w') \<Longrightarrow> db_ok (db w) \<Longrightarrow> db_ok (db w')"
  by (auto simp: MintInviteTokenWithDuration_def Let_def split: option.splits prod.splits sum.splits
      dest: db_call_ok [OF keeps_ok_insert_invite])

lemma Bootstrap_ok: "Bootstrap L n j i m key url w = (x, w') \<Longrightarrow> db_ok (db w) \<Longrightarrow> db_ok (db w')"
  by (auto simp: Bootstrap_def split: prod.splits sum.splits if_splits
      dest!: quiet_query quiet_ok dest: db_call_ok [OF keeps_ok_insert_user] MintInviteTokenWithDuration_ok)

text \<open>After \<open>Bootstrap\<close> there is a user with the configured address; a link is made exactly for a new one, which is an active administrator.\<close>

text \<open>After \<open>Bootstrap\<close> there is a user with the configured address; a link is made only for a new one, which is an active administrator.\<close>

lemma Bootstrap_user:
  assumes "Bootstrap L n j i m key url w = (Inr link, w')"
  shows "\<exists>u \<in> set (users (db w')). EqualFold (u_email u) m \<and> (link \<noteq> None \<longrightarrow> u_global_role u = ''admin'' \<and> u_status u = ''active'')"
proof -
  obtain x w1 where q: "db_call (query (\<lambda>d. one_row (find (\<lambda>u. EqualFold (u_email u) m) (users d)))) w = (x, w1)" by fastforce
  show ?thesis
  proof (cases x)
    case (Inr u)
    with q have f: "find (\<lambda>u. EqualFold (u_email u) m) (users (db w)) = Some u"
      by (auto dest!: db_call_query_Inr simp: one_row_def split: option.splits)
    have "link = None" "w' = w1" using assms q Inr by (auto simp: Bootstrap_def)
    moreover have "db w1 = db w" using quiet_query [OF q] by (rule quietD)
    ultimately show ?thesis using f by (auto simp: find_Some_iff)
  next
    case (Inl e)
    with assms q have "e = ErrNoRows" by (auto simp: Bootstrap_def split: if_splits)
    obtain y w2 where ins: "db_call (insert_user n m ''admin'') w1 = (y, w2)" by fastforce
    with assms q Inl \<open>e = ErrNoRows\<close> obtain a where y: "y = Inr a" by (cases y) (auto simp: Bootstrap_def)
    from ins y have u: "insert_user n m ''admin'' (clock w1) (db w1) = (Inr a, db w2)" by (auto dest: db_call_Inr)
    obtain z w3 where mint: "MintInviteTokenWithDuration L j i a m ''admin'' [] key enrollDuration w2 = (z, w3)" by fastforce
    with assms q Inl \<open>e = ErrNoRows\<close> ins y obtain tok where z: "z = Inr tok" "w' = w3"
      by (cases z) (auto simp: Bootstrap_def)
    with mint have "users (db w') = users (db w2)"
      by (auto simp: MintInviteTokenWithDuration_def Let_def insert_invite_def split: option.splits prod.splits sum.splits if_splits
          dest!: db_call_Inr) (metis db.select_convs(1) db.surjective db.update_convs(3))
    moreover have "db w2 = snd (insert_user n m ''admin'' (clock w1) (db w1))" using u by simp
    ultimately show ?thesis using u by (auto simp: insert_user_def EqualFold_def split: if_splits)
  qed
qed

text \<open>What is relied on of the database: it commits the text of a migration only in a state that satisfies the declared constraints.\<close>

definition commits_consistent :: "(bytes \<Rightarrow> db option \<Rightarrow> db option option) \<Rightarrow> bool" where
  "commits_consistent sql \<longleftrightarrow> (\<forall>b d d'. sql b d = Some d' \<and> pred_option db_ok d \<longrightarrow> pred_option db_ok d')"

lemma apply_files_ok:
  "commits_consistent sql \<Longrightarrow> apply_files sql es ns d = Some d' \<Longrightarrow> pred_option db_ok d \<Longrightarrow> pred_option db_ok d'"
proof (induction ns arbitrary: d)
  case (Cons n ns)
  then obtain d1 where "sql (ReadFile es n) d = Some d1" "apply_files sql es ns d1 = Some d'" by (auto split: option.splits)
  with Cons show ?case unfolding commits_consistent_def by blast
qed simp

lemma Migrate_ok:
  assumes "commits_consistent sql" "distinct (map de_Name es)" "Migrate sql es p = (x, p')" "pred_option db_ok (pg_data p)"
  shows "pred_option db_ok (pg_data p')"
  using Migrate_stops_in_prefix [OF assms(2,3)] apply_files_ok [OF assms(1) _ assms(4)] by (auto simp: after_files_def)

lemma main_cases:
  assumes "main X n j i p bucket = Inr r"
  obtains cfg p1 p2 d w link where "loadConfig (o_Getenv X) = Inr cfg" "pg_data p1 = pg_data p" "Migrate (o_sql X) (o_migrations X) p1 = (Inr (), p2)"
    "pg_data p2 = Some d" "Bootstrap (o_lib X) n j i (AdminEmail cfg) (InviteSigningKey cfg) (BaseURL cfg) (connected d p2 bucket) = (Inr link, w)"
    "run_world r = w\<lparr>cache := Some (NewLRUCache (64 * 1024 * 1024)), the_hub := Some NewHub\<rparr>" "run_link r = link"
proof -
  obtain f p1 where f: "pg_fate p = (f, p1)" by fastforce
  obtain cfg where cfg: "loadConfig (o_Getenv X) = Inr cfg" using assms by (auto simp: main_def split: sum.splits)
  obtain x p2 where m: "Migrate (o_sql X) (o_migrations X) p1 = (x, p2)" by fastforce
  obtain d where d: "pg_data p2 = Some d" and x: "x = Inr ()" and
    svc: "main_services X n j i cfg (connected d p2 bucket) = Inr r"
    using assms cfg f m by (auto simp: main_def split: if_splits sum.splits option.splits)
  show thesis
    using that [OF cfg pg_fate_frame(1) [OF f] m [unfolded x] d] svc
    by (auto simp: main_services_def split: prod.splits sum.splits option.splits)
qed

lemma main_world_ok:
  assumes "commits_consistent (o_sql X)" "distinct (map de_Name (o_migrations X))" "pred_option db_ok (pg_data p)"
    and "main X n j i p bucket = Inr r"
  shows "db_ok (db (run_world r))"
  using assms(4)
proof (cases rule: main_cases)
  case (1 cfg p1 p2 d w link)
  have "pred_option db_ok (pg_data p2)" using Migrate_ok [OF assms(1,2) 1(3)] assms(3) 1(2) by simp
  with 1(4) have "db_ok (db (connected d p2 bucket))" by (simp add: connected_def)
  from Bootstrap_ok [OF 1(5) this] 1(6) show ?thesis by simp
qed

text \<open>A server that starts is in order: the database satisfies all constraints of the schema, whatever of the migrations had been applied before; the cache is empty with 64 MB of room, the hub has no
  clients; and there is an account with the configured address of the administrator, with an enrollment link printed only for an account that is an active administrator.
\<close>

theorem main_starts_in_order:
  assumes "commits_consistent (o_sql X)" "distinct (map de_Name (o_migrations X))" "pred_option db_ok (pg_data p)"
    and "main X n j i p bucket = Inr r"
  shows "db_ok (db (run_world r)) \<and> cache (run_world r) = Some (NewLRUCache 67108864) \<and> the_hub (run_world r) = Some NewHub
     \<and> (\<exists>u \<in> set (users (db (run_world r))). EqualFold (u_email u) (o_Getenv X ''ADMIN_EMAIL'') \<and>
          (run_link r \<noteq> None \<longrightarrow> u_global_role u = ''admin'' \<and> u_status u = ''active''))"
  using assms(4)
proof (cases rule: main_cases)
  case (1 cfg p1 p2 d w link)
  have "AdminEmail cfg = o_Getenv X ''ADMIN_EMAIL''"
    using 1(1) unfolding loadConfig_eq by (auto simp: config_of_def split: if_splits)
  with Bootstrap_user [OF 1(5)] main_world_ok [OF assms] 1(6,7) show ?thesis by simp
qed

text \<open>A first start: the only migration makes the empty tables, and the administrator is new.\<close>

definition sample_outside :: "unit outside" where
  "sample_outside = \<lparr>o_Getenv = (\<lambda>k. if k = ''SMTP_PORT'' then ''587'' else ''a@x''), o_pool_New = (\<lambda>_. True),
     o_sql = (\<lambda>b d. Some (case d of None \<Rightarrow> Some empty_db | Some d \<Rightarrow> Some d)),
     o_migrations = [\<lparr>de_Name = ''001_initial.sql'', de_IsDir = False, de_data = ''CREATE''\<rparr>],
     o_webauthn_New = (\<lambda>_ _ _. Some sample_wn), o_LoadDefaultConfig = (\<lambda>_. Some ()), o_lib = sample_lib, o_Upgrade = (\<lambda>_. True), o_BuildSHA = ''dev''\<rparr>"

definition sample_fresh :: "db option pg" where
  "sample_fresh = \<lparr>pg_applied = None, pg_data = None, pg_clock = 0, pg_fates = []\<rparr>"

lemma empty_db_ok: "db_ok empty_db"
  by (simp add: empty_db_def db_ok_def schema_defs unique_on_def)

lemma sample_outside_sql: "commits_consistent (o_sql sample_outside)"
  by (auto simp: commits_consistent_def sample_outside_def empty_db_ok split: option.splits)

lemma sample_config: "loadConfig (o_Getenv sample_outside) = Inr (config_of (o_Getenv sample_outside))"
proof -
  have "ParseInt64 ''587'' = Some 587" by code_simp
  then show ?thesis unfolding loadConfig_eq by (simp add: sample_outside_def unset_def required_vars_def)
qed

lemma sample_migrated:
  "\<exists>vs. Migrate (o_sql sample_outside) (o_migrations sample_outside) sample_fresh =
     (Inr (), \<lparr>pg_applied = Some vs, pg_data = Some empty_db, pg_clock = 0, pg_fates = []\<rparr>)"
proof -
  have "migration_files (o_migrations sample_outside) = [''001_initial.sql'']" by code_simp
  then show ?thesis
    by (simp add: Migrate_def create_table_def migrate_file_def pg_fate_def sample_fresh_def sample_outside_def applied_def ReadFile_def Let_def)
qed

lemma sample_started: "\<exists>r. main sample_outside 90 91 92 sample_fresh Map.empty = Inr r \<and> run_link r \<noteq> None"
proof -
  obtain vs where m: "Migrate (o_sql sample_outside) (o_migrations sample_outside) sample_fresh =
     (Inr (), \<lparr>pg_applied = Some vs, pg_data = Some empty_db, pg_clock = 0, pg_fates = []\<rparr>)" using sample_migrated by blast
  have f: "pg_fate sample_fresh = (Done, sample_fresh)" by (simp add: pg_fate_def sample_fresh_def)
  show ?thesis
    unfolding main_def sample_config sum.case f prod.case m
    by (simp add: sample_outside_def main_services_def connected_def Bootstrap_def db_call_Done query_def empty_db_def insert_user_def user_ids_def
        MintInviteTokenWithDuration_def Let_def insert_invite_def sample_lib_def NewService_def NewS3Client_def config_of_def s3_config_def)
qed

theorem main_starts_in_order_witness:
  "\<exists>r. main sample_outside 90 91 92 sample_fresh Map.empty = Inr r \<and> db_ok (db (run_world r)) \<and>
     (\<exists>u \<in> set (users (db (run_world r))). EqualFold (u_email u) ''a@x'' \<and> u_global_role u = ''admin'')"
proof -
  obtain r where r: "main sample_outside 90 91 92 sample_fresh Map.empty = Inr r" "run_link r \<noteq> None" using sample_started by blast
  have "distinct (map de_Name (o_migrations sample_outside))" "pred_option db_ok (pg_data sample_fresh)" "o_Getenv sample_outside ''ADMIN_EMAIL'' = ''a@x''"
    by (simp_all add: sample_outside_def sample_fresh_def)
  with main_starts_in_order [OF sample_outside_sql _ _ r(1)] r show ?thesis by auto
qed

end
