(* ===== verification/System.thy ===== *)
theory System
  imports Startup
begin

text \<open>
  The running process: the requests of \<open>Server\<close>, the goroutines of the hub and of the replays, the hourly garbage collection, the passing of time and the
  failures to come, interleaved. A state is the console's map of ceremonies with the world. Nothing happens after the process has crashed.

  Shown: what an invariant of the steps is good for (a locale), that the steps keep the invariant of the whole system, and that the hub inside the
  server only takes the steps of the hub on its own, so that every theorem of \<open>Hub\<close> about reachable hubs holds in the server.
\<close>

section \<open>Steps\<close>

definition replay_of :: "string \<Rightarrow> err + event_row list \<Rightarrow> json list" where
  "replay_of f x = (case x of Inl _ \<Rightarrow> [] | Inr rows \<Rightarrow> replay_payloads f rows)"

text \<open>A connection whose read loop still runs.\<close>

definition reading :: "hub \<Rightarrow> nat \<Rightarrow> bool" where
  "reading h i \<longleftrightarrow> i < h_next h \<and> c_reading (h_heap h i)"

inductive server_step :: "deps \<Rightarrow> ceremonies \<times> world \<Rightarrow> ceremonies \<times> world \<Rightarrow> bool" for D where
  request: "the_hub w = Some h \<Longrightarrow> \<not> h_crashed h \<Longrightarrow> serve D g meth path r wa w = (a, wa', w') \<Longrightarrow> server_step D (wa, w) (wa', w')"
| event_loop: "the_hub w = Some h \<Longrightarrow> \<not> h_crashed h \<Longrightarrow> h' \<in> {run_register h, run_unregister h, run_broadcast h} \<Longrightarrow>
    server_step D (wa, w) (wa, w\<lparr>the_hub := Some h'\<rparr>)"
| read_loop: "the_hub w = Some h \<Longrightarrow> \<not> h_crashed h \<Longrightarrow> reading h i \<Longrightarrow> h' \<in> {readLoop_msg h i msg, readLoop_exit h i} \<Longrightarrow>
    server_step D (wa, w) (wa, w\<lparr>the_hub := Some h'\<rparr>)"
| write_loop: "the_hub w = Some h \<Longrightarrow> \<not> h_crashed h \<Longrightarrow> i < h_next h \<Longrightarrow>
    server_step D (wa, w) (wa, w\<lparr>the_hub := Some (writeLoop_step h i)\<rparr>)"
| replay_query: "the_hub w = Some h \<Longrightarrow> \<not> h_crashed h \<Longrightarrow> (i, f, n) \<in> set (h_pending h) \<Longrightarrow> replay_rows (d_lib D) f n w = (x, w') \<Longrightarrow>
    server_step D (wa, w)
      (wa, w'\<lparr>the_hub := Some (h\<lparr>h_pending := remove1 (i, f, n) (h_pending h), h_replays := h_replays h @ [(i, replay_of f x)]\<rparr>)\<rparr>)"
| replay_send: "the_hub w = Some h \<Longrightarrow> \<not> h_crashed h \<Longrightarrow> server_step D (wa, w) (wa, w\<lparr>the_hub := Some (replay_step h n)\<rparr>)"
| collect: "the_hub w = Some h \<Longrightarrow> \<not> h_crashed h \<Longrightarrow> server_step D (wa, w) (wa, runGC retentionHours w)"
| elapse: "the_hub w = Some h \<Longrightarrow> \<not> h_crashed h \<Longrightarrow> clock w \<le> t \<Longrightarrow> server_step D (wa, w) (wa, w\<lparr>clock := t, fates := fs\<rparr>)"

section \<open>Invariants of a system\<close>

locale invariant_system =
  fixes step :: "'s \<Rightarrow> 's \<Rightarrow> bool" and inv :: "'s \<Rightarrow> bool"
  assumes step_inv: "step s s' \<Longrightarrow> inv s \<Longrightarrow> inv s'"
begin

lemma steps_inv: "step\<^sup>*\<^sup>* s s' \<Longrightarrow> inv s \<Longrightarrow> inv s'"
  by (induction rule: rtranclp_induct) (auto intro: step_inv)

end

text \<open>The state of the server: the database within its constraints, the cache within its bound and never filled, the hub as the hub's own steps make it.\<close>

definition server_inv :: "ceremonies \<times> world \<Rightarrow> bool" where
  "server_inv s \<longleftrightarrow> db_ok (db (snd s)) \<and> (\<forall>c. cache (snd s) = Some c \<longrightarrow> lru_ok c \<and> items c = Map.empty)
     \<and> (\<forall>h. the_hub (snd s) = Some h \<longrightarrow> hub_reachable h)"

lemma server_inv_hub:
  assumes "server_inv (wa, w)" "the_hub w = Some h" "hub_step h h'"
  shows "server_inv (wa, w\<lparr>the_hub := Some h'\<rparr>)"
  using assms by (auto simp: server_inv_def intro: hub_reachable.step)

lemma server_inv_mem:
  "server_inv (wa, w) \<Longrightarrow> the_hub w = Some h \<Longrightarrow> \<not> h_crashed h \<Longrightarrow> db_ok (db w) \<and> mem_ok w"
  "db_ok (db w) \<and> mem_ok w \<Longrightarrow> server_inv (wa, w)"
  by (simp_all add: server_inv_def mem_ok_def hub_live_def)

lemma server_inv_quiet: "quiet w w' \<Longrightarrow> server_inv (wa, w) \<Longrightarrow> server_inv (wa, w')"
  by (simp add: server_inv_def quietD)

lemma server_step_inv: "server_step D s s' \<Longrightarrow> server_inv s \<Longrightarrow> server_inv s'"
proof (induction rule: server_step.induct)
  case (request w h g meth path r wa a wa' w')
  then have "db_ok (db w)" "mem_ok w" using server_inv_mem(1) by blast+
  with serve_ok [OF request(3)] show ?case by (intro server_inv_mem(2))
next
  case (event_loop w h h' wa)
  then have "hub_step h h'" using hub_step.register [of h] hub_step.unregister [of h] hub_step.broadcast [of h] by blast
  then show ?case by (rule server_inv_hub [OF event_loop(4,1)])
next
  case (read_loop w h i h' msg wa)
  then have "hub_step h h'" using hub_step.message [of h i msg] hub_step.disconnect [of h i] unfolding reading_def by blast
  then show ?case by (rule server_inv_hub [OF read_loop(5,1)])
next
  case (write_loop w h i wa)
  show ?case by (rule server_inv_hub [OF write_loop(4,1) hub_step.write_frame [OF write_loop(2,3)]])
next
  case (replay_query w h i f n x w' wa)
  note q = quiet_query [OF replay_query(4) [unfolded replay_rows_def]]
  have "the_hub w' = Some h" using quietD(4) [OF q] replay_query(1) by simp
  then show ?case by (rule server_inv_hub [OF server_inv_quiet [OF q replay_query(5)] _ hub_step.replay_start [OF replay_query(2,3)]])
next
  case (replay_send w h n wa)
  show ?case by (rule server_inv_hub [OF replay_send(3,1) hub_step.replay [OF replay_send(2)]])
next
  case (collect w h wa)
  then show ?case
    using db_call_frame [of "gc_stmt retentionHours" w] db_call_keeps_ok [OF keeps_ok_gc, of w]
    by (auto simp: server_inv_def runGC_def)
next
  case (elapse w h t wa fs)
  then show ?case by (simp add: server_inv_def)
qed

interpretation server: invariant_system "server_step D" server_inv
  by unfold_locales (rule server_step_inv)

interpretation hub_alone: invariant_system hub_step hub_inv
  by unfold_locales (rule hub_step_inv)


section \<open>Requests that write files\<close>

lemma tag_of_files: "files d' = files d \<Longrightarrow> tag_of d' = tag_of d"
  by (simp add: tag_of_def file_of_def fun_eq_iff)

lemma console_mem_files: "console_mem w w' \<Longrightarrow> files (db w') = files (db w)"
  by (auto simp: console_mem_def same_mem_def revoke_access_def split: option.splits)

lemma admin_serve_files:
  "admin_serve D g meth path r wa w = (a, wa', w') \<Longrightarrow> files (db w') = files (db w)"
  by (auto simp: admin_serve_def Let_def same_mem_def split: mux_result.splits admin_route.splits prod.splits
      dest!: public_handle_mem console_handle_mem console_mem_files)

lemma RequireAuth_cases:
  assumes "RequireAuth L key handler r w = (resp, w')"
  obtains "w' = w" | uid where "handler (r\<lparr>rq_user := Some uid\<rparr>) w = (resp, w')"
  using assms by (auto simp: RequireAuth_def Let_def split: if_splits list.splits sum.splits)

text \<open>A request runs one of the six write handlers, or it leaves the table of the files alone.\<close>

lemma serve_files:
  assumes "serve D g meth path r wa w = (a, wa', w')"
  shows "(\<exists>oper resp. write_handle (d_lib D) oper w = (resp, w') \<and> a = Api resp) \<or> files (db w') = files (db w)"
proof (cases "mux_find NewRouter meth path")
  case (Matched p h)
  let ?r = "r\<lparr>rq_path := path_value p path\<rparr>"
  show ?thesis
  proof (cases "v1_handler D h")
    case (Some handler)
    with assms Matched obtain resp where "RequireAuth (d_lib D) (d_jwtKey D) handler ?r w = (resp, w')" and a: "a = Api resp"
      by (auto simp: serve_def split: prod.splits)
    then show ?thesis
    proof (cases rule: RequireAuth_cases)
      case (2 uid)
      from Some show ?thesis
      proof (cases rule: v1_handler_cases)
        case (reads oper)
        with 2 have "quiet w w'" by (auto intro: read_handle_quiet)
        then show ?thesis by (simp add: quietD)
      next
        case (writes oper)
        with 2 a show ?thesis by metis
      qed
    qed simp
  next
    case None
    consider "h = Events" | "h \<noteq> Events" "h = AdminConsole \<and> d_AdminHandler D" | "h \<noteq> Events" "\<not> (h = AdminConsole \<and> d_AdminHandler D)" by blast
    then show ?thesis
    proof cases
      case 1
      with None assms Matched show ?thesis by (auto simp: serve_def split: prod.splits dest: ws_Handler_db)
    next
      case 2
      with None assms Matched have "admin_serve D g meth path ?r wa w = (a, wa', w')" by (simp add: serve_def)
      then show ?thesis by (simp add: admin_serve_files)
    next
      case 3
      with None assms Matched show ?thesis by (auto simp: serve_def Let_def split: if_splits)
    qed
  qed
qed (use assms in \<open>auto simp: serve_def\<close>)

text \<open>So does every step of the process.\<close>

lemma server_step_files:
  assumes "server_step D (wa, w) (wa', w')"
  shows "(\<exists>oper resp. write_handle (d_lib D) oper w = (resp, w')) \<or> files (db w') = files (db w)"
  using assms
proof cases
  case request
  then show ?thesis using serve_files by blast
next
  case (replay_query h i f n x w1)
  note q = quiet_query [OF replay_query(6) [unfolded replay_rows_def]]
  then show ?thesis using replay_query by (simp add: quietD)
next
  case collect
  have "files (db (snd (db_call (gc_stmt retentionHours) w))) = files (db w)"
    using calls_mem(20) [OF prod.collapse [symmetric]] by (simp add: same_mem_def)
  then show ?thesis using collect by (simp add: runGC_def)
qed simp_all

end
