(* ===== verification/Interleaving.thy ===== *)
theory Interleaving
  imports Write_Safety
begin

text \<open>
  The write handlers of \<^verbatim>\<open>internal/api/v1/write.go\<close> at the grain at which the server really runs them: every
  request has a goroutine of its own, and between two calls of one request those of others take place.

  A handler is a program: a finished answer, a step on the shared state followed by the rest of the program, or a statement on
  the \<open>files\<close> table followed by what the program does with its result. One step is one statement, one call to the
  bucket, one operation on the cache or the hub (each of them under its lock or channel), or one look at the clock. The programs
  follow the source call by call, like the definitions of theory \<open>Write_Api\<close>, which they share the checks that make at
  most one call with.

  Shown: a program that runs alone is the handler of \<open>Write_Api\<close>, so that every theorem about the handlers is a
  theorem about the programs without interference; a program makes at most one statement on the \<open>files\<close> table, the one
  that its request asks for, and its answer is a success exactly when the statement was accepted.
  Theory \<open>Concurrency\<close> runs many of them at once.
\<close>

section \<open>Programs\<close>

datatype 'a act =
    Ret 'a
  | Call "world \<Rightarrow> 'a act \<times> world"
  | Commit file_op "err + nat \<Rightarrow> 'a act"

text \<open>The statement behind an operation on the \<open>files\<close> table.\<close>

fun file_stmt :: "file_op \<Rightarrow> nat stmt" where
  "file_stmt (Upsert pid path etag sz ct by ifm) = upsert_stmt pid path etag sz ct by ifm"
| "file_stmt (Remove pid path ifm) = delete_file pid path ifm"
| "file_stmt (RemoveAny pid path) = delete_file_any pid path"

definition call :: "(world \<Rightarrow> 'a \<times> world) \<Rightarrow> 'a act" where
  "call f = Call (\<lambda>w. map_prod Ret id (f w))"

primrec bind_act :: "'a act \<Rightarrow> ('a \<Rightarrow> 'b act) \<Rightarrow> 'b act" where
  "bind_act (Ret a) k = k a"
| "bind_act (Call f) k = Call (\<lambda>w. map_prod (\<lambda>p. bind_act p k) id (f w))"
| "bind_act (Commit oper g) k = Commit oper (\<lambda>r. bind_act (g r) k)"

text \<open>A program that runs alone.\<close>

primrec run_act :: "'a act \<Rightarrow> world \<Rightarrow> 'a \<times> world" where
  "run_act (Ret a) w = (a, w)"
| "run_act (Call f) w = (case map_prod run_act id (f w) of (g, w1) \<Rightarrow> g w1)"
| "run_act (Commit oper k) w = (case db_call (file_stmt oper) w of (r, w1) \<Rightarrow> run_act (k r) w1)"

lemma act_induct [case_names Ret Call Commit]:
  assumes "\<And>a. P (Ret a)" and "\<And>f. (\<And>w. P (fst (f w))) \<Longrightarrow> P (Call f)"
    and "\<And>oper k. (\<And>r. P (k r)) \<Longrightarrow> P (Commit oper k)"
  shows "P p"
proof (induction p)
  case (Call f)
  have "P (fst (f w))" for w
    by (rule Call.IH [OF rangeI [of f w]]) (cases "f w", simp)
  then show ?case by (rule assms(2))
qed (simp_all add: assms)

lemma run_call [simp]: "run_act (call f) w = f w"
  by (cases "f w") (simp add: call_def)

lemma run_bind [simp]: "run_act (bind_act p k) w = (case run_act p w of (a, w1) \<Rightarrow> run_act (k a) w1)"
proof (induction p arbitrary: w rule: act_induct)
  case (Call f)
  from Call [of w] show ?case by (cases "f w") simp
qed (simp_all split: prod.splits)

text \<open>The early return, as \<open>or_return\<close>.\<close>

definition or_ret :: "('r + 'a) act \<Rightarrow> ('a \<Rightarrow> 'r act) \<Rightarrow> 'r act" where
  "or_ret p k = bind_act p (\<lambda>x. case x of Inl resp \<Rightarrow> Ret resp | Inr a \<Rightarrow> k a)"

lemma run_or_ret [simp]: "run_act (or_ret p k) w = or_return (run_act p w) (\<lambda>a w. run_act (k a) w)"
  by (simp add: or_ret_def or_return_def split: prod.splits sum.splits)

section \<open>The checks\<close>

text \<open>\<open>resolveUser\<close>, \<open>parseFolderID\<close> and \<open>readBody\<close> make at most one call, \<open>storage.ProjectRole\<close> makes two.\<close>

definition storage_ProjectRole_act :: "uuid \<Rightarrow> uuid \<Rightarrow> (err + string) act" where
  "storage_ProjectRole_act userID projectID =
     bind_act (call (db_call (query (\<lambda>d. one_row (map_option u_global_role (lookup_by u_id userID (users d))))))) (\<lambda>x.
       case x of Inl e \<Rightarrow> Ret (Inl e)
       | Inr globalRole \<Rightarrow>
           if globalRole = ''admin'' then Ret (Inr ''admin'')
           else call (db_call (query (\<lambda>d. one_row (map_option m_role
                  (lookup_by member_key (projectID, userID) (project_members d)))))))"

definition ProjectRole_act :: "uuid \<Rightarrow> uuid \<Rightarrow> (err + string) act" where
  "ProjectRole_act userID projectID =
     bind_act (storage_ProjectRole_act userID projectID) (\<lambda>x. Ret
       (case x of Inl e \<Rightarrow> if e = ErrNoRows then Inl ErrForbidden else Inl e | Inr role \<Rightarrow> Inr role))"

definition checked_act :: "(err + 'a) act \<Rightarrow> (response + 'a) act" where
  "checked_act p = bind_act p (\<lambda>x. Ret (case x of Inl e \<Rightarrow> Inl (writeErrStatus e) | Inr a \<Rightarrow> Inr a))"

definition guarded_act ::
  "lib \<Rightarrow> request \<Rightarrow> response option \<Rightarrow> string \<Rightarrow> (uuid \<Rightarrow> uuid \<Rightarrow> response act) \<Rightarrow> response act" where
  "guarded_act L r bad minRole k =
     or_ret (call (resolveUser L r)) (\<lambda>(userID, _).
     or_ret (call (parseFolderID L r)) (\<lambda>folderID.
     case bad of Some resp \<Rightarrow> Ret resp | None \<Rightarrow>
     or_ret (checked_act (ProjectRole_act userID folderID)) (\<lambda>role.
     or_ret (checked_act (Ret (RequireRole role minRole))) (\<lambda>_. k userID folderID))))"

lemma run_storage_ProjectRole [simp]: "run_act (storage_ProjectRole_act u f) w = storage_ProjectRole u f w"
  by (simp add: storage_ProjectRole_act_def storage_ProjectRole_def split: prod.splits sum.splits)

lemma run_ProjectRole [simp]: "run_act (ProjectRole_act u f) w = ProjectRole u f w"
  by (simp add: ProjectRole_act_def ProjectRole_def split: prod.splits sum.splits err.splits)

lemma run_checked [simp]: "run_act (checked_act p) w = checked (run_act p w)"
  by (simp add: checked_act_def checked_def split: prod.splits sum.splits)

lemma run_guarded:
  "run_act (guarded_act L r bad minRole k) w = guarded L r bad minRole (\<lambda>u f w. run_act (k u f) w) w"
  by (simp add: guarded_act_def guarded_def case_prod_beta' or_return_def split: option.splits prod.splits sum.splits)

section \<open>After the change\<close>

definition fanOutEvent_act :: "lib \<Rightarrow> uuid \<Rightarrow> uuid \<Rightarrow> json \<Rightarrow> unit act" where
  "fanOutEvent_act L projectID actorID payload =
     bind_act (call (\<lambda>w. (the_hub w = None, w))) (\<lambda>noHub.
       if noHub then Ret ()
       else bind_act (call (AppendEvent projectID actorID payload)) (\<lambda>_.
         call (\<lambda>w. ((), w\<lparr>the_hub := map_option (\<lambda>h. hub_Broadcast h (uuid_String L projectID) payload) (the_hub w)\<rparr>))))"

definition finish_act ::
  "lib \<Rightarrow> request \<Rightarrow> string \<Rightarrow> string \<Rightarrow> string \<Rightarrow> string \<Rightarrow> string \<Rightarrow> (string \<Rightarrow> json) \<Rightarrow> uuid \<Rightarrow> uuid \<Rightarrow> unit act" where
  "finish_act L r action path key before after ev userID folderID =
     bind_act (call (\<lambda>w. ((), cache_drop key w))) (\<lambda>_.
     bind_act (call (WriteAuditLog L userID action (uuid_String L folderID) path before after (clientIP r) (userAgent r))) (\<lambda>_.
     bind_act (call (\<lambda>w. (nowTS L w, w))) (\<lambda>ts.
     fanOutEvent_act L folderID userID (ev ts))))"

text \<open>What \<open>UpsertFile\<close> makes of the row count.\<close>

definition upsert_result :: "err + nat \<Rightarrow> err + unit" where
  "upsert_result res = (case res of Inl e \<Rightarrow> Inl e | Inr n \<Rightarrow> if n = 0 then Inl ErrETagConflict else Inr ())"

definition store_file_act ::
  "lib \<Rightarrow> request \<Rightarrow> string \<Rightarrow> string \<Rightarrow> string \<Rightarrow> string \<Rightarrow> string \<Rightarrow> nat \<Rightarrow> string \<Rightarrow> (string \<Rightarrow> string \<Rightarrow> json) \<Rightarrow>
   uuid \<Rightarrow> uuid \<Rightarrow> string \<Rightarrow> bytes \<Rightarrow> response act" where
  "store_file_act L r action path key ct conflict status before ev userID folderID matchEtag body =
     bind_act (call (PutObject key body ct (computeETag body))) (\<lambda>put. case put of
       Inl _ \<Rightarrow> Ret (writeError 500 ''internal error'')
     | Inr _ \<Rightarrow>
       Commit (Upsert folderID path (computeETag body) (int (length body)) ct userID matchEtag) (\<lambda>res.
       case upsert_result res of
         Inl e \<Rightarrow> Ret (if e = ErrETagConflict then writeError 409 conflict else writeError 500 ''internal error'')
       | Inr _ \<Rightarrow>
           bind_act (finish_act L r action path key before (computeETag body) (ev (computeETag body)) userID folderID) (\<lambda>_.
             Ret (writeETagJSON status (computeETag body)))))"

definition put_file_act ::
  "lib \<Rightarrow> request \<Rightarrow> string \<Rightarrow> string \<Rightarrow> (uuid \<Rightarrow> string) \<Rightarrow> (bytes \<Rightarrow> string) \<Rightarrow> (bool \<Rightarrow> nat) \<Rightarrow>
   (uuid \<Rightarrow> uuid \<Rightarrow> bool \<Rightarrow> string \<Rightarrow> string \<Rightarrow> json) \<Rightarrow> uuid \<Rightarrow> uuid \<Rightarrow> response act" where
  "put_file_act L r action path key ct status ev userID folderID =
     (let isCreate = (rq_header r ''If-None-Match'' = ''*'');
          ifMatch = rq_header r ''If-Match'' in
      if \<not> isCreate \<and> ifMatch = '''' then Ret (writeError 428 ''If-Match or If-None-Match: * required'')
      else or_ret (call (readBody r)) (\<lambda>body.
        bind_act (call (FileExists folderID path)) (\<lambda>old.
          store_file_act L r action path (key folderID) (ct body) ''etag conflict'' (status isCreate) (old_etag old)
            (ev folderID userID isCreate) userID folderID (if \<not> isCreate then ifMatch else '''') body)))"

lemma AppendEvent_keeps_hub: "the_hub (snd (AppendEvent f u p w)) = the_hub w"
  by (simp add: AppendEvent_def db_call_frame)

lemma run_fanOutEvent: "run_act (fanOutEvent_act L f u p) w = ((), fanOutEvent L f u p w)"
  using AppendEvent_keeps_hub [of f u p w]
  by (cases "AppendEvent f u p w"; cases "the_hub w") (simp_all add: fanOutEvent_act_def fanOutEvent_def)

lemma run_finish: "run_act (finish_act L r action path key before after ev u f) w =
    ((), finish L r action path key before after ev u f w)"
proof -
  obtain x w2 where a: "WriteAuditLog L u action (uuid_String L f) path before after (clientIP r) (userAgent r)
      (cache_drop key w) = (x, w2)" by fastforce
  then have "w2 = snd (WriteAuditLog L u action (uuid_String L f) path before after (clientIP r) (userAgent r) (cache_drop key w))"
    by simp
  from WriteAuditLog_effect(6) [OF this] a show ?thesis
    by (simp add: finish_act_def finish_def run_fanOutEvent nowTS_def Let_def)
qed

lemma run_store_file:
  "run_act (store_file_act L r action path key ct conflict status before ev u f m body) w =
     store_file L r action path key ct conflict status before ev u f m body w"
  by (simp add: store_file_act_def store_file_def UpsertFile_upsert_stmt upsert_result_def run_finish split: prod.splits sum.splits)

lemma run_put_file:
  "run_act (put_file_act L r action path key ct status ev u f) w = put_file L r action path key ct status ev u f w"
  by (simp add: put_file_act_def put_file_def run_store_file Let_def or_return_def split: prod.splits sum.splits)


section \<open>The six handlers\<close>

definition PutIssue_act :: "lib \<Rightarrow> request \<Rightarrow> response act" where
  "PutIssue_act L r =
     guarded_act L r (bad_id r) ''editor''
       (put_file_act L r ''put_issue'' (rq_path r ''id'' @ ''.md'') (\<lambda>f. issue_key L f (rq_path r ''id'')) (\<lambda>_. markdown) (\<lambda>_. 200)
         (\<lambda>f u c etag ts. enc_IssueChangedEvent
            \<lparr>ic_folderId = uuid_String L f, ic_issueId = rq_path r ''id'', ic_op = op_name c, ic_etag = Some etag,
             ic_actor = uuid_String L u, ic_ts = ts\<rparr>))"

definition PutAttachment_act :: "lib \<Rightarrow> request \<Rightarrow> response act" where
  "PutAttachment_act L r =
     guarded_act L r (bad_attachment r) ''editor''
       (put_file_act L r ''put_attachment'' (rq_path r ''id'' @ ''/'' @ rq_path r ''name'')
         (\<lambda>f. attachment_key L f (rq_path r ''id'') (rq_path r ''name'')) (detectContentType L) (\<lambda>c. if c then 201 else 200)
         (\<lambda>f u c etag ts. enc_AttachmentChangedEvent
            \<lparr>ac_folderId = uuid_String L f, ac_issueId = rq_path r ''id'', ac_name = rq_path r ''name'', ac_op = op_name c,
             ac_etag = Some etag, ac_actor = uuid_String L u, ac_ts = ts\<rparr>))"

definition PutProjectJSON_act :: "lib \<Rightarrow> request \<Rightarrow> response act" where
  "PutProjectJSON_act L r =
     guarded_act L r None ''admin''
       (put_file_act L r ''put_project_json'' ''project.json'' (project_json_key L) (\<lambda>_. ''application/json'') (\<lambda>_. 200)
         (\<lambda>f u c etag ts. enc_ProjectMetaChangedEvent
            \<lparr>pm_folderId = uuid_String L f, pm_etag = Some etag, pm_actor = uuid_String L u, pm_ts = ts\<rparr>))"

definition PostIssue_act :: "lib \<Rightarrow> request \<Rightarrow> response act" where
  "PostIssue_act L r =
     guarded_act L r None ''editor'' (\<lambda>u f.
       case Option.bind (json_tokenise L (rq_body r)) dec_postIssueRequest of
         None \<Rightarrow> Ret (writeError 400 ''invalid JSON body'')
       | Some req \<Rightarrow>
       if \<not> issueIDPattern_MatchString (pr_id req) then Ret (writeError 400 bad_issue_id)
       else bind_act (call (FileExists f (pr_id req @ ''.md''))) (\<lambda>old. case old of
          Inl _ \<Rightarrow> Ret (writeError 500 ''internal error'')
        | Inr (_, ex) \<Rightarrow>
       if ex then Ret (writeError 409 ''issue already exists'')
       else store_file_act L r ''post_issue'' (pr_id req @ ''.md'') (issue_key L f (pr_id req)) markdown ''issue already exists'' 201 ''''
         (\<lambda>etag ts. enc_IssueChangedEvent
            \<lparr>ic_folderId = uuid_String L f, ic_issueId = pr_id req, ic_op = ''created'', ic_etag = Some etag,
             ic_actor = uuid_String L u, ic_ts = ts\<rparr>) u f '''' (pr_body req)))"

text \<open>\<open>DeleteFile\<close>: the statement, and, when it hit no row, the second query that tells the reasons apart.\<close>

definition DeleteFile_act :: "uuid \<Rightarrow> string \<Rightarrow> string \<Rightarrow> ((err + unit) \<Rightarrow> 'a act) \<Rightarrow> 'a act" where
  "DeleteFile_act f path ifMatch k =
     Commit (Remove f path ifMatch) (\<lambda>res. case res of
       Inl e \<Rightarrow> k (Inl e)
     | Inr n \<Rightarrow>
         if n = 0 then
           bind_act (call (db_call (query (\<lambda>d. Inr (file_of d f path \<noteq> None))))) (\<lambda>ex.
             k (case ex of Inl _ \<Rightarrow> Inl ErrNoRows | Inr b \<Rightarrow> if \<not> b then Inl ErrNoRows else Inl ErrETagConflict))
         else k (Inr ()))"

definition DeleteIssue_act :: "lib \<Rightarrow> request \<Rightarrow> response act" where
  "DeleteIssue_act L r =
     guarded_act L r (bad_id r) ''editor'' (\<lambda>u f.
       if rq_header r ''If-Match'' = '''' then Ret (writeError 428 ''If-Match required'')
       else DeleteFile_act f (rq_path r ''id'' @ ''.md'') (rq_header r ''If-Match'') (\<lambda>res. case res of
         Inl e \<Rightarrow> Ret
           (if e = ErrETagConflict then writeError 409 ''etag conflict''
            else if e = ErrNoRows then writeError 404 ''issue not found''
            else writeError 500 ''internal error'')
       | Inr _ \<Rightarrow>
         bind_act (call (DeleteS3Object (issue_key L f (rq_path r ''id'')))) (\<lambda>_.
         bind_act (finish_act L r ''delete_issue'' (rq_path r ''id'' @ ''.md'') (issue_key L f (rq_path r ''id''))
             (rq_header r ''If-Match'') ''''
             (\<lambda>ts. enc_IssueChangedEvent
                \<lparr>ic_folderId = uuid_String L f, ic_issueId = rq_path r ''id'', ic_op = ''deleted'', ic_etag = None,
                 ic_actor = uuid_String L u, ic_ts = ts\<rparr>) u f) (\<lambda>_.
         Ret no_content))))"

definition DeleteAttachment_act :: "lib \<Rightarrow> request \<Rightarrow> response act" where
  "DeleteAttachment_act L r =
     guarded_act L r (bad_attachment r) ''editor'' (\<lambda>u f.
       Commit (RemoveAny f (rq_path r ''id'' @ ''/'' @ rq_path r ''name'')) (\<lambda>res. case res of
         Inl _ \<Rightarrow> Ret (writeError 500 ''internal error'')
       | Inr _ \<Rightarrow>
         bind_act (call (DeleteS3Object (attachment_key L f (rq_path r ''id'') (rq_path r ''name'')))) (\<lambda>_.
         bind_act (finish_act L r ''delete_attachment'' (rq_path r ''id'' @ ''/'' @ rq_path r ''name'')
             (attachment_key L f (rq_path r ''id'') (rq_path r ''name'')) '''' ''''
             (\<lambda>ts. enc_AttachmentChangedEvent
                \<lparr>ac_folderId = uuid_String L f, ac_issueId = rq_path r ''id'', ac_name = rq_path r ''name'', ac_op = ''deleted'',
                 ac_etag = None, ac_actor = uuid_String L u, ac_ts = ts\<rparr>) u f) (\<lambda>_.
         Ret no_content))))"

fun write_act :: "lib \<Rightarrow> write_op \<Rightarrow> response act" where
  "write_act L (PutIssue r) = PutIssue_act L r"
| "write_act L (PostIssue r) = PostIssue_act L r"
| "write_act L (DeleteIssue r) = DeleteIssue_act L r"
| "write_act L (PutAttachment r) = PutAttachment_act L r"
| "write_act L (DeleteAttachment r) = DeleteAttachment_act L r"
| "write_act L (PutProjectJSON r) = PutProjectJSON_act L r"

lemma run_DeleteFile:
  "run_act (DeleteFile_act f path ifMatch k) w =
     (case DeleteFile f path ifMatch w of (r, w1) \<Rightarrow> run_act (k r) w1)"
  by (simp add: DeleteFile_act_def DeleteFile_def split: prod.splits sum.splits)

lemmas run_acts = run_guarded run_put_file run_store_file run_finish run_DeleteFile

lemma run_PutIssue: "run_act (PutIssue_act L r) w = PutIssueHandler L r w"
  by (simp add: PutIssue_act_def PutIssueHandler_eq run_acts)

lemma run_PutAttachment: "run_act (PutAttachment_act L r) w = PutAttachmentHandler L r w"
  by (simp add: PutAttachment_act_def PutAttachmentHandler_eq run_acts)

lemma run_PutProjectJSON: "run_act (PutProjectJSON_act L r) w = PutProjectJSONHandler L r w"
  by (simp add: PutProjectJSON_act_def PutProjectJSONHandler_eq run_acts)

lemma run_PostIssue: "run_act (PostIssue_act L r) w = PostIssueHandler L r w"
  unfolding PostIssue_act_def PostIssueHandler_eq run_guarded
  by (rule arg_cong [where f = "\<lambda>k. guarded L r None ''editor'' k w"])
     (simp add: fun_eq_iff run_store_file split: option.splits prod.splits sum.splits)

lemma run_DeleteIssue: "run_act (DeleteIssue_act L r) w = DeleteIssueHandler L r w"
  unfolding DeleteIssue_act_def DeleteIssueHandler_eq run_guarded
  by (rule arg_cong [where f = "\<lambda>k. guarded L r (bad_id r) ''editor'' k w"])
     (simp add: fun_eq_iff run_DeleteFile run_finish split: option.splits prod.splits sum.splits)

lemma run_DeleteAttachment: "run_act (DeleteAttachment_act L r) w = DeleteAttachmentHandler L r w"
  unfolding DeleteAttachment_act_def DeleteAttachmentHandler_eq run_guarded
  by (rule arg_cong [where f = "\<lambda>k. guarded L r (bad_attachment r) ''editor'' k w"])
     (simp add: fun_eq_iff run_finish split: option.splits prod.splits sum.splits)

text \<open>Alone, the program of a write request is its handler: the calls are the same, in the same order, with the same
  answer and the same final state, on every branch and with every pattern of failures. What is proved of the
  handlers as single steps therefore holds of the programs that nobody interferes with.\<close>

lemma programs_implement_handlers: "run_act (write_act L oper) w = write_handle L oper w"
  by (cases oper) (simp_all add: run_PutIssue run_PostIssue run_DeleteIssue run_PutAttachment run_DeleteAttachment run_PutProjectJSON)


section \<open>The shape of a program\<close>

text \<open>\<open>settled Q\<close>: no statement on \<open>files\<close> is left, and the answer will satisfy \<open>Q\<close>. \<open>pending P R N\<close>: at most one statement is
  left; it satisfies \<open>P\<close> and the answer will be related to it and its result by \<open>R\<close>; without a statement
  the answer will satisfy \<open>N\<close>. Both hold whatever the other requests do in between.\<close>

definition stmt_result :: "err + nat \<Rightarrow> bool" where
  "stmt_result res \<longleftrightarrow> res \<noteq> Inl ErrETagConflict \<and> res \<noteq> Inl ErrNoRows"

primrec settled :: "('a \<Rightarrow> bool) \<Rightarrow> 'a act \<Rightarrow> bool" where
  "settled Q (Ret a) \<longleftrightarrow> Q a"
| "settled Q (Call f) \<longleftrightarrow> (\<forall>w. fst (map_prod (settled Q) id (f w)))"
| "settled Q (Commit oper k) \<longleftrightarrow> False"

primrec pending :: "(file_op \<Rightarrow> bool) \<Rightarrow> (file_op \<Rightarrow> err + nat \<Rightarrow> 'a \<Rightarrow> bool) \<Rightarrow> ('a \<Rightarrow> bool) \<Rightarrow> 'a act \<Rightarrow> bool" where
  "pending P R N (Ret a) \<longleftrightarrow> N a"
| "pending P R N (Call f) \<longleftrightarrow> (\<forall>w. fst (map_prod (pending P R N) id (f w)))"
| "pending P R N (Commit oper k) \<longleftrightarrow> P oper \<and> (\<forall>res. stmt_result res \<longrightarrow> settled (R oper res) (k res))"

lemma settled_call [simp]: "settled Q (call f) \<longleftrightarrow> (\<forall>w. Q (fst (f w)))"
  by (simp add: call_def)

lemma pending_call [simp]: "pending P R N (call f) \<longleftrightarrow> (\<forall>w. N (fst (f w)))"
  by (simp add: call_def)

lemma settled_mono: "settled Q p \<Longrightarrow> (\<And>a. Q a \<Longrightarrow> Q' a) \<Longrightarrow> settled Q' p"
  by (induction p rule: act_induct) simp_all

lemma settled_bind [simp]: "settled Q (bind_act p k) \<longleftrightarrow> settled (\<lambda>a. settled Q (k a)) p"
  by (induction p rule: act_induct) simp_all

lemma pending_bind: "settled (\<lambda>a. pending P R N (k a)) p \<Longrightarrow> pending P R N (bind_act p k)"
  by (induction p rule: act_induct) simp_all

text \<open>The statement of a request, and the answers it may lead to: a success when it was accepted, 404 or 409 when it was refused, 500 when
  it failed (and may have taken effect), no success without a statement.\<close>

definition commits_to :: "lib \<Rightarrow> write_op \<Rightarrow> file_op \<Rightarrow> bool" where
  "commits_to L oper fo \<longleftrightarrow> file_op_key fo = write_key L oper \<and> file_op_guard fo = write_guard oper \<and>
     file_op_writes fo = write_tag L oper"

fun rows_ok :: "file_op \<Rightarrow> nat \<Rightarrow> bool" where
  "rows_ok (RemoveAny _ _) n \<longleftrightarrow> True"
| "rows_ok (Upsert _ _ _ _ _ _ _) n \<longleftrightarrow> n \<noteq> 0"
| "rows_ok (Remove _ _ _) n \<longleftrightarrow> n \<noteq> 0"

definition stmt_accepted :: "file_op \<Rightarrow> err + nat \<Rightarrow> bool" where
  "stmt_accepted fo res = (case res of Inl _ \<Rightarrow> False | Inr n \<Rightarrow> rows_ok fo n)"

definition success :: "response \<Rightarrow> bool" where
  "success resp \<longleftrightarrow> rs_status resp \<in> {200, 201, 204}"

definition answer_fits :: "file_op \<Rightarrow> err + nat \<Rightarrow> response \<Rightarrow> bool" where
  "answer_fits fo res resp \<longleftrightarrow>
     (if stmt_accepted fo res then success resp
      else if isl res then rs_status resp = 500
      else rs_status resp \<in> {404, 409})"

abbreviation one_statement :: "lib \<Rightarrow> write_op \<Rightarrow> response act \<Rightarrow> bool" where
  "one_statement L oper \<equiv> pending (commits_to L oper) answer_fits (\<lambda>resp. \<not> success resp)"


lemma pending_or_ret:
  "settled (\<lambda>x. case x of Inl resp \<Rightarrow> N resp | Inr a \<Rightarrow> pending P R N (k a)) p \<Longrightarrow> pending P R N (or_ret p k)"
  unfolding or_ret_def by (rule pending_bind) (erule settled_mono, auto split: sum.splits)

lemma success_simps: "success no_content" "success (writeETagJSON status etag) \<longleftrightarrow> status \<in> {200, 201, 204}"
  "success (writeError code msg) \<longleftrightarrow> code \<in> {200, 201, 204}"
  by (simp_all add: success_def no_content_def writeETagJSON_def writeError_def)

lemma status_writeError: "rs_status (writeError code msg) = code"
  by (simp add: writeError_def)

lemma not_success_writeErrStatus: "\<not> success (writeErrStatus e)"
  by (cases e) (simp_all add: writeErrStatus_def success_simps)

lemma settled_ProjectRole [simp]: "settled (\<lambda>_. True) (ProjectRole_act u f)"
  by (auto simp: ProjectRole_act_def storage_ProjectRole_act_def split: sum.splits)

lemma pending_guarded:
  assumes "\<And>resp. bad = Some resp \<Longrightarrow> \<not> success resp"
    and "\<And>u f. uuid_Parse L (rq_path r ''folderId'') = Some f \<Longrightarrow> bad = None \<Longrightarrow> pending P R (\<lambda>resp. \<not> success resp) (k u f)"
  shows "pending P R (\<lambda>resp. \<not> success resp) (guarded_act L r bad minRole k)"
proof -
  let ?role = "\<lambda>u f. or_ret (checked_act (ProjectRole_act u f)) (\<lambda>role.
     or_ret (checked_act (Ret (RequireRole role minRole))) (\<lambda>_. k u f))"
  have role: "pending P R (\<lambda>resp. \<not> success resp) (?role u f)"
    if "uuid_Parse L (rq_path r ''folderId'') = Some f" "bad = None" for u f
    using that by (intro pending_or_ret)
      (auto simp: checked_act_def not_success_writeErrStatus assms(2) or_ret_def split: sum.splits intro!: settled_mono [OF settled_ProjectRole])
  have folder: "pending P R (\<lambda>resp. \<not> success resp) (or_ret (call (parseFolderID L r)) (\<lambda>f.
      case bad of Some resp \<Rightarrow> Ret resp | None \<Rightarrow> ?role u f))" for u
    by (rule pending_or_ret) (auto simp: parseFolderID_def success_simps assms(1) role split: option.splits)
  show ?thesis
    unfolding guarded_act_def
    by (rule pending_or_ret)
      (auto simp: resolveUser_def success_simps folder split: option.splits prod.splits sum.splits)
qed

lemma settled_fanOutEvent [simp]: "settled (\<lambda>_. True) (fanOutEvent_act L f u p)"
  by (simp add: fanOutEvent_act_def)

lemma settled_finish: "Q () \<Longrightarrow> settled Q (finish_act L r action path key before after ev u f)"
  by (simp add: finish_act_def) (auto intro: settled_mono [OF settled_fanOutEvent])

lemma pending_store_file:
  assumes "P (Upsert f path (computeETag body) (int (length body)) ct u m)" and "success (writeETagJSON status (computeETag body))"
  shows "pending P answer_fits (\<lambda>resp. \<not> success resp)
    (store_file_act L r action path key ct conflict status before ev u f m body)"
  using assms
  by (auto simp: store_file_act_def success_simps answer_fits_def stmt_accepted_def stmt_result_def upsert_result_def status_writeError
      split: sum.splits intro!: pending_bind settled_finish)

lemma pending_put_file:
  assumes "P (Upsert f path (computeETag (rq_body r)) (int (length (rq_body r))) (ct (rq_body r)) u (match_etag r))"
    and "\<And>c. success (writeETagJSON (status c) (computeETag (rq_body r)))"
  shows "pending P answer_fits (\<lambda>resp. \<not> success resp) (put_file_act L r action path key ct status ev u f)"
  using assms unfolding put_file_act_def Let_def
  by (auto simp: success_simps readBody_def match_etag_def split: sum.splits
      intro!: pending_or_ret pending_bind pending_store_file)

lemma upsert_commits:
  "file_op_key (Upsert f path etag sz ct u m) = (f, path)"
  "file_op_guard (Upsert f path etag sz ct u m) = (\<lambda>t. t = expected_tag m)"
  "file_op_guard (Remove f path m) = (\<lambda>t. t = Some m)"
  "file_op_guard (RemoveAny f path) = (\<lambda>t. True)"
  by (simp_all add: fun_eq_iff)

lemma write_guard_simps:
  "write_guard (PutIssue r) = (\<lambda>t. t = expected_tag (match_etag r))"
  "write_guard (PutAttachment r) = (\<lambda>t. t = expected_tag (match_etag r))"
  "write_guard (PutProjectJSON r) = (\<lambda>t. t = expected_tag (match_etag r))"
  "write_guard (PostIssue r) = (\<lambda>t. t = None)"
  "write_guard (DeleteIssue r) = (\<lambda>t. t = Some (rq_header r ''If-Match''))"
  "write_guard (DeleteAttachment r) = (\<lambda>t. True)"
  by (simp_all add: fun_eq_iff)

lemmas commits_simps = commits_to_def upsert_commits write_guard_simps write_key_def issue_path_def attachment_path_def

lemma bad_not_success: "bad_id r = Some resp \<Longrightarrow> \<not> success resp" "bad_attachment r = Some resp \<Longrightarrow> \<not> success resp"
  by (auto simp: success_def dest: bad_path_400)

lemma one_PostIssue: "one_statement L (PostIssue r) (PostIssue_act L r)"
  unfolding PostIssue_act_def
  by (rule pending_guarded)
    (auto simp: success_simps commits_simps post_request_def expected_tag_def success_simps split: option.splits sum.splits prod.splits
      intro!: pending_bind pending_store_file)

lemma one_DeleteIssue: "one_statement L (DeleteIssue r) (DeleteIssue_act L r)"
  unfolding DeleteIssue_act_def DeleteFile_act_def
  by (rule pending_guarded)
    (auto simp: bad_not_success success_simps commits_simps answer_fits_def stmt_accepted_def stmt_result_def status_writeError
      success_simps split: sum.splits intro!: settled_finish)

lemma one_DeleteAttachment: "one_statement L (DeleteAttachment r) (DeleteAttachment_act L r)"
  unfolding DeleteAttachment_act_def
  by (rule pending_guarded)
    (auto simp: bad_not_success commits_simps answer_fits_def stmt_accepted_def status_writeError success_simps
      split: sum.splits intro!: settled_finish)

lemma one_Put:
  "one_statement L (PutIssue r) (PutIssue_act L r)"
  "one_statement L (PutAttachment r) (PutAttachment_act L r)"
  "one_statement L (PutProjectJSON r) (PutProjectJSON_act L r)"
  unfolding PutIssue_act_def PutAttachment_act_def PutProjectJSON_act_def
  by (rule pending_guarded, auto simp: bad_not_success commits_simps success_simps intro!: pending_put_file)+

lemma write_act_one_statement: "one_statement L oper (write_act L oper)"
  by (cases oper) (simp_all add: one_PostIssue one_DeleteIssue one_DeleteAttachment one_Put)


section \<open>What the calls keep\<close>

text \<open>Every call of a program, whatever comes before it, keeps \<open>safe\<close>; its statement is left out.\<close>

primrec keeps :: "(world \<Rightarrow> bool) \<Rightarrow> 'a act \<Rightarrow> bool" where
  "keeps safe (Ret a) \<longleftrightarrow> True"
| "keeps safe (Call f) \<longleftrightarrow> (\<forall>w. (safe w \<longrightarrow> safe (snd (f w))) \<and> fst (map_prod (keeps safe) id (f w)))"
| "keeps safe (Commit oper k) \<longleftrightarrow> (\<forall>res. keeps safe (k res))"

lemma keeps_call [simp]: "keeps safe (call f) \<longleftrightarrow> (\<forall>w. safe w \<longrightarrow> safe (snd (f w)))"
  by (simp add: call_def)

lemma keeps_bind: "keeps safe p \<Longrightarrow> (\<And>a. keeps safe (k a)) \<Longrightarrow> keeps safe (bind_act p k)"
  by (induction p rule: act_induct) simp_all

lemma keeps_or_ret: "keeps safe p \<Longrightarrow> (\<And>a. keeps safe (k a)) \<Longrightarrow> keeps safe (or_ret p k)"
  unfolding or_ret_def by (rule keeps_bind) (auto split: sum.splits)

text \<open>The calls the handlers make, and that the programs keep what these keep. A query uses up a fate and does nothing else.\<close>

lemma query_looks: "snd (db_call (query q) w) = snd (next_fate w)"
proof -
  have "w1\<lparr>db := db w1\<rparr> = w1" for w1 :: world by simp
  then show ?thesis by (simp add: db_call_def query_def split: prod.splits fate.splits)
qed

locale call_invariant =
  fixes safe :: "world \<Rightarrow> bool"
  assumes looks: "safe w \<Longrightarrow> safe (snd (next_fate w))"
    and audits: "safe w \<Longrightarrow> safe (snd (WriteAuditLog L u action proj path before after ip ua w))"
    and appends: "safe w \<Longrightarrow> safe (snd (AppendEvent f u p w))"
    and bucket: "safe w \<Longrightarrow> safe (snd (s3_call (g :: (string \<rightharpoonup> object) \<Rightarrow> (err + unit) \<times> (string \<rightharpoonup> object)) w))"
    and drops: "safe w \<Longrightarrow> safe (cache_drop key w)"
    and publishes: "safe w \<Longrightarrow> safe (w\<lparr>the_hub := map_option (\<lambda>h. hub_Broadcast h pid p) (the_hub w)\<rparr>)"
begin

lemma queries: "safe w \<Longrightarrow> safe (snd (db_call (query q) w))"
  by (simp add: query_looks looks)

lemma query_result: "safe w \<Longrightarrow> db_call (query q) w = (x, w') \<Longrightarrow> safe w'"
  by (drule queries [of w q]) simp

lemma calls:
  "safe w \<Longrightarrow> safe (snd (resolveUser L r w))" "safe w \<Longrightarrow> safe (snd (parseFolderID L r w))" "safe w \<Longrightarrow> safe (snd (readBody r w))"
  "safe w \<Longrightarrow> safe (snd (FileExists f path w))" "safe w \<Longrightarrow> safe (snd (PutObject key body ct etag w))" "safe w \<Longrightarrow> safe (snd (DeleteS3Object key w))"
  by (auto simp: resolveUser_def UserByID_def parseFolderID_def readBody_def FileExists_def PutObject_def DeleteS3Object_def bucket
      split: option.splits prod.splits sum.splits err.splits dest: query_result)

lemma guarded: "(\<And>u f. keeps safe (k u f)) \<Longrightarrow> keeps safe (guarded_act L r bad minRole k)"
  unfolding guarded_act_def ProjectRole_act_def storage_ProjectRole_act_def checked_act_def
  by (auto simp: calls queries intro!: keeps_or_ret keeps_bind split: prod.splits sum.splits option.splits)

lemma finish: "keeps safe (finish_act L r action path key before after ev u f)"
  unfolding finish_act_def fanOutEvent_act_def by (auto simp: drops audits appends publishes intro!: keeps_bind)

lemma store_file: "keeps safe (store_file_act L r action path key ct conflict status before ev u f m body)"
  unfolding store_file_act_def by (auto simp: calls finish intro!: keeps_bind split: sum.splits)

lemma put_file: "keeps safe (put_file_act L r action path key ct status ev u f)"
  unfolding put_file_act_def Let_def by (auto simp: calls store_file intro!: keeps_or_ret keeps_bind)

lemma write_act_keeps: "keeps safe (write_act L oper)"
proof (cases oper)
  case (PostIssue r)
  show ?thesis unfolding PostIssue write_act.simps PostIssue_act_def
    by (rule guarded) (auto simp: calls store_file intro!: keeps_bind split: option.splits sum.splits)
next
  case (DeleteIssue r)
  show ?thesis unfolding DeleteIssue write_act.simps DeleteIssue_act_def DeleteFile_act_def
    by (rule guarded) (auto simp: calls queries finish intro!: keeps_bind split: sum.splits)
next
  case (DeleteAttachment r)
  show ?thesis unfolding DeleteAttachment write_act.simps DeleteAttachment_act_def
    by (rule guarded) (auto simp: calls finish intro!: keeps_bind split: sum.splits)
qed (auto simp: PutIssue_act_def PutAttachment_act_def PutProjectJSON_act_def put_file intro!: guarded)

end

text \<open>The constraints of the schema together with every single tag.\<close>

definition tagged :: "(uuid \<times> string \<Rightarrow> string option) \<Rightarrow> world \<Rightarrow> bool" where
  "tagged t w \<longleftrightarrow> db_ok (db w) \<and> tag_of (db w) = t"

interpretation tags: call_invariant "tagged t" for t
  using WriteAuditLog_effect(2) [OF refl] AppendEvent_effect(2) [OF refl]
    logs_growD(5) [OF WriteAuditLog_effect(1) [OF refl]] logs_growD(5) [OF AppendEvent_effect(1) [OF refl]]
    next_fate_keeps(1) [OF prod.collapse [symmetric]]
  by unfold_locales (auto simp: tagged_def s3_call_frame cache_drop_def)

text \<open>That no more call fails.\<close>

interpretation no_fates: call_invariant "\<lambda>w. fates w = []"
  by unfold_locales (simp_all add: next_fate_def db_call_fates s3_call_fates WriteAuditLog_def AppendEvent_def cache_drop_def)

definition calm_step :: "(world \<Rightarrow> 'a \<times> world) \<Rightarrow> bool" where
  "calm_step f \<longleftrightarrow> (\<forall>w. db_ok (db w) \<longrightarrow> db_ok (db (snd (f w))) \<and> tag_of (db (snd (f w))) = tag_of (db w))"

definition calm :: "'a act \<Rightarrow> bool" where
  "calm p \<longleftrightarrow> (\<forall>t. keeps (tagged t) p)"

lemma calm_simps [simp]:
  "calm (Ret a)" "calm (Call f) \<longleftrightarrow> calm_step f \<and> (\<forall>w. calm (fst (f w)))" "calm (Commit oper k) \<longleftrightarrow> (\<forall>res. calm (k res))"
  by (auto simp: calm_def calm_step_def tagged_def)

lemma write_act_calm: "calm (write_act L oper)"
  by (simp add: calm_def tags.write_act_keeps)

lemma keeps_fates: "keeps (\<lambda>w. fates w = []) p \<Longrightarrow> fates w = [] \<Longrightarrow> fates (snd (run_act p w)) = []"
proof (induction p arbitrary: w rule: act_induct)
  case (Call f)
  then have "fates (snd (f w)) = []" "keeps (\<lambda>w. fates w = []) (fst (f w))" by simp_all
  with Call.IH show ?case by (cases "f w") (metis case_prod_conv fst_conv id_apply map_prod_simp run_act.simps(2) snd_conv)
next
  case (Commit fo k)
  have "fates (snd (db_call (file_stmt fo) w)) = []" using Commit.prems(2) by (rule db_call_fates)
  with Commit show ?case by (cases "db_call (file_stmt fo) w") simp
qed simp

lemma write_handle_fates: "write_handle L oper w = (resp, w') \<Longrightarrow> fates w = [] \<Longrightarrow> fates w' = []"
  using keeps_fates [OF no_fates.write_act_keeps, of w L oper] programs_implement_handlers [of L oper w] by simp

section \<open>The statement\<close>

lemma tag_of_update: "(\<And>p q. file_of d' p q = (if (p, q) = k then None else file_of d p q)) \<Longrightarrow> tag_of d' = (tag_of d)(k := None)"
  by (auto simp: tag_of_def fun_eq_iff)

lemma file_stmt_pure:
  assumes ok: "db_ok d" and run: "file_stmt fo t d = (res, d')"
  shows "(if stmt_accepted fo res then file_op_guard fo (tag_of d (file_op_key fo)) \<and>
      tag_of d' = (tag_of d)(file_op_key fo := file_op_writes fo) else tag_of d' = tag_of d) \<and> stmt_result res"
proof (cases fo)
  case (Upsert f path etag sz ct u m)
  with run have "upsert_stmt f path etag sz ct u m t d = (res, d')" by simp
  from upsert_stmt_effect [OF ok this] show ?thesis unfolding Upsert
    by (auto simp: stmt_accepted_def stmt_result_def split: if_splits)
next
  case (Remove f path m)
  with run have "delete_file f path m t d = (res, d')" by simp
  from file_of_delete_file [OF ok this] tag_of_update [of d' "(f, path)" d] show ?thesis unfolding Remove
    by (cases "map_option f_etag (file_of d f path) = Some m") (auto simp: stmt_accepted_def stmt_result_def tag_of_def fun_eq_iff)
next
  case (RemoveAny f path)
  with run have "delete_file_any f path t d = (res, d')" by simp
  moreover from this have "\<not> isl res" by (auto simp: delete_file_any_def Let_def)
  ultimately show ?thesis
    using tag_of_update [OF file_of_delete_file_any [OF ok, of f path t res d']] unfolding RemoveAny
    by (cases res) (auto simp: stmt_accepted_def stmt_result_def)
qed

lemma file_stmt_effect:
  assumes ok: "db_ok (db w)" and run: "db_call (file_stmt fo) w = (res, w')"
  shows "db_ok (db w')" "stmt_result res"
    "stmt_accepted fo res \<Longrightarrow> file_op_guard fo (tag_of (db w) (file_op_key fo)) \<and>
       tag_of (db w') = (tag_of (db w))(file_op_key fo := file_op_writes fo)"
    "\<not> isl res \<Longrightarrow> \<not> stmt_accepted fo res \<Longrightarrow> tag_of (db w') = tag_of (db w)"
    "tag_of (db w') = tag_of (db w) \<or> file_op_guard fo (tag_of (db w) (file_op_key fo)) \<and>
       tag_of (db w') = (tag_of (db w))(file_op_key fo := file_op_writes fo)"
proof -
  have keeps: "keeps_ok (file_stmt fo)" by (cases fo) (simp_all add: keeps_ok_upsert_stmt keeps_ok_stmts)
  then show "db_ok (db w')" using db_call_keeps_ok ok run by (metis snd_conv)
  obtain res0 d0 where stmt: "file_stmt fo (clock w) (db w) = (res0, d0)" by fastforce
  have eff: "(if stmt_accepted fo res0 then file_op_guard fo (tag_of (db w) (file_op_key fo)) \<and>
      tag_of d0 = (tag_of (db w))(file_op_key fo := file_op_writes fo) else tag_of d0 = tag_of (db w)) \<and> stmt_result res0"
    using ok stmt by (rule file_stmt_pure)
  have cases3: "res = res0 \<and> db w' = d0 \<or> res = Inl ErrIO \<and> (db w' = db w \<or> db w' = d0)"
    using run stmt by (auto simp: db_call_def next_fate_keeps split: prod.splits fate.splits)
  show "stmt_result res" using cases3 eff by (auto simp: stmt_result_def)
  show "stmt_accepted fo res \<Longrightarrow> file_op_guard fo (tag_of (db w) (file_op_key fo)) \<and>
       tag_of (db w') = (tag_of (db w))(file_op_key fo := file_op_writes fo)"
    using cases3 eff by (auto simp: stmt_accepted_def)
  show "\<not> isl res \<Longrightarrow> \<not> stmt_accepted fo res \<Longrightarrow> tag_of (db w') = tag_of (db w)"
    using cases3 eff by auto
  show "tag_of (db w') = tag_of (db w) \<or> file_op_guard fo (tag_of (db w) (file_op_key fo)) \<and>
       tag_of (db w') = (tag_of (db w))(file_op_key fo := file_op_writes fo)"
    using cases3 eff by (auto split: if_splits)
qed

end
