(* ===== verification/Concurrency.thy ===== *)
theory Concurrency
  imports Interleaving
begin

text \<open>
  Any number of write requests at once. The system is a pool of programs (theory \<open>Interleaving\<close>), one per request in the order of
  arrival, over the shared world; a step is a step of one of them, an arrival, an answer, or a change that the rest of the server makes. A
  run is recorded as the trace of its events.

  Shown: every interleaving is linearizable with respect to the files. The abstract specification is a map from paths to tags on which
  a request acts in one step (\<open>spec_exec\<close>, an instance of \<open>versioned_store\<close>); the statements of a run, in their order, are a
  history of it that gives every answer and respects the order of requests that do not overlap. Lost updates and writes without the role are excluded
  under every interleaving; both are stated over the states and events of the run itself (\<open>conc_path\<close>). The
  bucket is not linearizable: theory \<open>Races\<close> has runs in which writes of one file overlap and its object is lost. What the calls of a
  request wait for (the hub's locks and channels) is the subject of \<open>Hub_Locks\<close>; here a call is one step.
\<close>

section \<open>The system\<close>

record conc =
  pool :: "(write_op \<times> response act) option list"
  shared :: world

datatype event =
    Arrive nat write_op
  | Tick nat
  | Stmt nat file_op "err + nat"
  | Answer nat response
  | Other

text \<open>What the rest of the server may do in between: anything that keeps the constraints of the schema and the tags.\<close>

definition others :: "world \<Rightarrow> world \<Rightarrow> bool" where
  "others w w' \<longleftrightarrow> db_ok (db w') \<and> tag_of (db w') = tag_of (db w)"

inductive conc_step :: "lib \<Rightarrow> conc \<Rightarrow> event \<Rightarrow> conc \<Rightarrow> bool" for L where
  arrive: "conc_step L c (Arrive (length (pool c)) oper) (c\<lparr>pool := pool c @ [Some (oper, write_act L oper)]\<rparr>)"
| tick: "p < length (pool c) \<Longrightarrow> pool c ! p = Some (oper, Call f) \<Longrightarrow> f (shared c) = (a, w) \<Longrightarrow>
    conc_step L c (Tick p) (c\<lparr>pool := (pool c)[p := Some (oper, a)], shared := w\<rparr>)"
| stmt: "p < length (pool c) \<Longrightarrow> pool c ! p = Some (oper, Commit fo k) \<Longrightarrow> db_call (file_stmt fo) (shared c) = (res, w) \<Longrightarrow>
    conc_step L c (Stmt p fo res) (c\<lparr>pool := (pool c)[p := Some (oper, k res)], shared := w\<rparr>)"
| answer: "p < length (pool c) \<Longrightarrow> pool c ! p = Some (oper, Ret resp) \<Longrightarrow>
    conc_step L c (Answer p resp) (c\<lparr>pool := (pool c)[p := None]\<rparr>)"
| other: "others (shared c) w \<Longrightarrow> conc_step L c Other (c\<lparr>shared := w\<rparr>)"

inductive conc_run :: "lib \<Rightarrow> conc \<Rightarrow> event list \<Rightarrow> conc \<Rightarrow> bool" for L c0 where
  start: "conc_run L c0 [] c0"
| snoc: "conc_run L c0 tr c \<Longrightarrow> conc_step L c e c' \<Longrightarrow> conc_run L c0 (tr @ [e]) c'"

text \<open>No requests yet.\<close>

definition idle :: "world \<Rightarrow> conc" where
  "idle w = \<lparr>pool = [], shared = w\<rparr>"

lemma idle_simps [simp]: "pool (idle w) = []" "shared (idle w) = w"
  by (simp_all add: idle_def)

inductive_cases conc_run_snocE: "conc_run L c0 (tr @ [e]) c"

section \<open>The specification\<close>

type_synonym tags = "uuid \<times> string \<Rightarrow> string option"

text \<open>A request on the tags alone: accepted and done at once, or refused without effect.\<close>

definition spec_exec :: "lib \<Rightarrow> write_op \<Rightarrow> tags \<Rightarrow> bool \<times> tags" where
  "spec_exec L oper t =
     (if write_guard oper (t (write_key L oper)) then (True, t(write_key L oper := write_tag L oper)) else (False, t))"

interpretation spec: versioned_store "\<lambda>_. True" "\<lambda>t. t" "spec_exec L" "write_key L" write_guard "write_tag L" for L
  by unfold_locales (auto simp: spec_exec_def split: if_splits)

section \<open>What a trace says of one request\<close>

definition arrivals :: "nat \<Rightarrow> event list \<Rightarrow> write_op list" where
  "arrivals p tr = concat (map (\<lambda>e. case e of Arrive q oper \<Rightarrow> if q = p then [oper] else [] | _ \<Rightarrow> []) tr)"

definition statements :: "nat \<Rightarrow> event list \<Rightarrow> (file_op \<times> (err + nat)) list" where
  "statements p tr = concat (map (\<lambda>e. case e of Stmt q fo res \<Rightarrow> if q = p then [(fo, res)] else [] | _ \<Rightarrow> []) tr)"

definition answers :: "nat \<Rightarrow> event list \<Rightarrow> response list" where
  "answers p tr = concat (map (\<lambda>e. case e of Answer q resp \<Rightarrow> if q = p then [resp] else [] | _ \<Rightarrow> []) tr)"

lemma trace_Nil [simp]: "arrivals p [] = []" "statements p [] = []" "answers p [] = []"
  by (simp_all add: arrivals_def statements_def answers_def)

lemma trace_snoc [simp]:
  "arrivals p (tr @ [e]) = arrivals p tr @ (case e of Arrive q oper \<Rightarrow> if q = p then [oper] else [] | _ \<Rightarrow> [])"
  "statements p (tr @ [e]) = statements p tr @ (case e of Stmt q fo res \<Rightarrow> if q = p then [(fo, res)] else [] | _ \<Rightarrow> [])"
  "answers p (tr @ [e]) = answers p tr @ (case e of Answer q resp \<Rightarrow> if q = p then [resp] else [] | _ \<Rightarrow> [])"
  by (simp_all add: arrivals_def statements_def answers_def)

lemma in_trace:
  "Arrive p oper \<in> set tr \<longleftrightarrow> oper \<in> set (arrivals p tr)"
  "Answer p resp \<in> set tr \<longleftrightarrow> resp \<in> set (answers p tr)"
  "Stmt p fo res \<in> set tr \<longleftrightarrow> (fo, res) \<in> set (statements p tr)"
  by (auto simp: arrivals_def answers_def statements_def split: event.splits if_splits)

text \<open>The state of a request, from its entry in the pool: it is on its way or answered, with or without its statement.\<close>

definition thread_ok :: "lib \<Rightarrow> event list \<Rightarrow> nat \<Rightarrow> (write_op \<times> response act) option \<Rightarrow> bool" where
  "thread_ok L tr p entry \<longleftrightarrow>
     (case entry of
        Some (oper, a) \<Rightarrow> arrivals p tr = [oper] \<and> answers p tr = [] \<and> calm a \<and>
          (statements p tr = [] \<and> one_statement L oper a \<or>
           (\<exists>fo res. statements p tr = [(fo, res)] \<and> commits_to L oper fo \<and> settled (answer_fits fo res) a))
      | None \<Rightarrow> (\<exists>oper resp. arrivals p tr = [oper] \<and> answers p tr = [resp] \<and>
          (statements p tr = [] \<and> \<not> success resp \<or>
           (\<exists>fo res. statements p tr = [(fo, res)] \<and> commits_to L oper fo \<and> answer_fits fo res resp))))"

definition threads_ok :: "lib \<Rightarrow> event list \<Rightarrow> conc \<Rightarrow> bool" where
  "threads_ok L tr c \<longleftrightarrow> db_ok (db (shared c)) \<and> (\<forall>p < length (pool c). thread_ok L tr p (pool c ! p)) \<and>
     (\<forall>p \<ge> length (pool c). arrivals p tr = [] \<and> statements p tr = [] \<and> answers p tr = [])"

text \<open>An event of one request leaves the others alone.\<close>

fun about :: "event \<Rightarrow> nat option" where
  "about (Arrive p _) = Some p"
| "about (Tick p) = Some p"
| "about (Stmt p _ _) = Some p"
| "about (Answer p _) = Some p"
| "about Other = None"

lemma about_other:
  assumes "about e \<noteq> Some p"
  shows "arrivals p (tr @ [e]) = arrivals p tr" "statements p (tr @ [e]) = statements p tr" "answers p (tr @ [e]) = answers p tr"
  using assms by (cases e; simp)+

lemma thread_ok_other: "about e \<noteq> Some p \<Longrightarrow> thread_ok L (tr @ [e]) p entry \<longleftrightarrow> thread_ok L tr p entry"
  by (cases entry) (auto simp: thread_ok_def about_other simp del: trace_snoc)

lemma threads_ok_update:
  assumes "threads_ok L tr c" "p < length (pool c)" "about e = Some p" "thread_ok L (tr @ [e]) p entry" "db_ok (db w)"
  shows "threads_ok L (tr @ [e]) (c\<lparr>pool := (pool c)[p := entry], shared := w\<rparr>)"
  using assms by (auto simp: threads_ok_def nth_list_update thread_ok_other about_other simp del: trace_snoc)

lemma threads_ok_step:
  assumes ok: "threads_ok L tr c" and step: "conc_step L c e c'"
  shows "threads_ok L (tr @ [e]) c'"
  using step
proof cases
  case (arrive oper)
  have "thread_ok L (tr @ [e]) (length (pool c)) (Some (oper, write_act L oper))"
    using ok arrive by (simp add: threads_ok_def thread_ok_def write_act_one_statement write_act_calm)
  with ok arrive show ?thesis
    by (auto simp: threads_ok_def nth_append less_Suc_eq thread_ok_other about_other simp del: trace_snoc)
next
  case (tick p oper f a w)
  have old: "thread_ok L tr p (Some (oper, Call f))" using ok tick by (auto simp: threads_ok_def)
  from old have f: "calm_step f" "calm (fst (f (shared c)))" by (simp_all add: thread_ok_def)
  have "thread_ok L (tr @ [e]) p (Some (oper, a))"
    using old f tick by (fastforce simp: thread_ok_def dest: spec [of _ "shared c"])
  moreover have "db_ok (db w)" using ok f(1) tick(5) unfolding calm_step_def threads_ok_def by (metis snd_conv)
  ultimately show ?thesis using threads_ok_update [OF ok tick(3)] tick by simp
next
  case (stmt p oper fo k res w)
  have "thread_ok L tr p (Some (oper, Commit fo k))" using ok stmt by (auto simp: threads_ok_def)
  then have old: "arrivals p tr = [oper]" "answers p tr = []" "calm (k res)" "statements p tr = []"
    "one_statement L oper (Commit fo k)" by (auto simp: thread_ok_def)
  note eff = file_stmt_effect [OF _ stmt(5)]
  have db: "db_ok (db (shared c))" using ok by (simp add: threads_ok_def)
  have "thread_ok L (tr @ [e]) p (Some (oper, k res))"
    using old eff(2) [OF db] stmt by (auto simp: thread_ok_def)
  with eff(1) [OF db] show ?thesis using threads_ok_update [OF ok stmt(3)] stmt by simp
next
  case (answer p oper resp)
  have "thread_ok L tr p (Some (oper, Ret resp))" using ok answer by (auto simp: threads_ok_def)
  then have "thread_ok L (tr @ [e]) p None" using answer by (auto simp: thread_ok_def)
  with ok show ?thesis using threads_ok_update [OF ok answer(3), of e None "shared c"] answer
    by (simp add: threads_ok_def)
next
  case (other w)
  then show ?thesis using ok by (auto simp: threads_ok_def others_def thread_ok_other about_other simp del: trace_snoc)
qed

lemma threads_ok_run: "conc_run L (idle w) tr c \<Longrightarrow> db_ok (db w) \<Longrightarrow> threads_ok L tr c"
  by (induction rule: conc_run.induct) (auto simp: threads_ok_def [of L "[]"] intro: threads_ok_step)


section \<open>Linearizability\<close>

text \<open>Something that satisfies \<open>P\<close> stands before something that satisfies \<open>Q\<close>.\<close>

definition precedes :: "('a \<Rightarrow> bool) \<Rightarrow> ('a \<Rightarrow> bool) \<Rightarrow> 'a list \<Rightarrow> bool" where
  "precedes P Q xs \<longleftrightarrow> (\<exists>i j. i < j \<and> j < length xs \<and> P (xs ! i) \<and> Q (xs ! j))"

lemma precedes_Nil [simp]: "\<not> precedes P Q []"
  by (simp add: precedes_def)

lemma precedes_snoc [simp]: "precedes P Q (xs @ [x]) \<longleftrightarrow> precedes P Q xs \<or> Q x \<and> (\<exists>y \<in> set xs. P y)"
proof
  assume "precedes P Q (xs @ [x])"
  then show "precedes P Q xs \<or> Q x \<and> (\<exists>y \<in> set xs. P y)"
    by (auto simp: precedes_def nth_append less_Suc_eq split: if_splits)
next
  assume "precedes P Q xs \<or> Q x \<and> (\<exists>y \<in> set xs. P y)"
  then show "precedes P Q (xs @ [x])"
  proof
    assume "precedes P Q xs"
    then obtain i j where "i < j" "j < length xs" "P (xs ! i)" "Q (xs ! j)" unfolding precedes_def by blast
    then show ?thesis unfolding precedes_def by (intro exI [of _ i] exI [of _ j]) (simp add: nth_append)
  next
    assume "Q x \<and> (\<exists>y \<in> set xs. P y)"
    then obtain i where "i < length xs" "P (xs ! i)" "Q x" by (auto simp: in_set_conv_nth)
    then show ?thesis unfolding precedes_def by (intro exI [of _ i] exI [of _ "length xs"]) (simp add: nth_append)
  qed
qed

text \<open>One request was answered before the other arrived.\<close>

definition answered_before :: "event list \<Rightarrow> nat \<Rightarrow> nat \<Rightarrow> bool" where
  "answered_before tr p q \<longleftrightarrow> precedes (\<lambda>e. \<exists>resp. e = Answer p resp) (\<lambda>e. \<exists>oper. e = Arrive q oper) tr"

text \<open>A history of the specification that explains a run: the requests in some order, each at most once, every one of them accepted by the specification, which they lead from the
  first tags to the last; the requests answered with a success are in it, those refused are not, and the order agrees with that of requests that did not overlap.\<close>

definition explains :: "lib \<Rightarrow> tags \<Rightarrow> event list \<Rightarrow> (nat \<times> write_op) list \<Rightarrow> tags \<Rightarrow> bool" where
  "explains L t tr lin t' \<longleftrightarrow>
     distinct (map fst lin) \<and> (\<forall>(p, oper) \<in> set lin. Arrive p oper \<in> set tr) \<and>
     run_ops (spec_exec L) (map snd lin) t = (replicate (length lin) True, t') \<and>
     (\<forall>p resp. Answer p resp \<in> set tr \<longrightarrow>
        (success resp \<longrightarrow> p \<in> fst ` set lin) \<and> (\<not> success resp \<and> rs_status resp \<noteq> 500 \<longrightarrow> p \<notin> fst ` set lin)) \<and>
     (\<forall>p q. answered_before tr p q \<and> p \<in> fst ` set lin \<and> q \<in> fst ` set lin \<longrightarrow>
        precedes (\<lambda>x. fst x = p) (\<lambda>x. fst x = q) lin)"

text \<open>The same with the statements in place of the answers, which is what the steps keep.\<close>

definition tracks :: "lib \<Rightarrow> tags \<Rightarrow> event list \<Rightarrow> (nat \<times> write_op) list \<Rightarrow> tags \<Rightarrow> bool" where
  "tracks L t tr lin t' \<longleftrightarrow>
     distinct (map fst lin) \<and> (\<forall>(p, oper) \<in> set lin. arrivals p tr = [oper] \<and> statements p tr \<noteq> []) \<and>
     run_ops (spec_exec L) (map snd lin) t = (replicate (length lin) True, t') \<and>
     (\<forall>p fo res. statements p tr = [(fo, res)] \<longrightarrow>
        (stmt_accepted fo res \<longrightarrow> p \<in> fst ` set lin) \<and> (\<not> stmt_accepted fo res \<and> \<not> isl res \<longrightarrow> p \<notin> fst ` set lin)) \<and>
     (\<forall>p q. answered_before tr p q \<and> p \<in> fst ` set lin \<and> q \<in> fst ` set lin \<longrightarrow>
        precedes (\<lambda>x. fst x = p) (\<lambda>x. fst x = q) lin)"

lemma tracksD:
  assumes "tracks L t tr lin t'"
  shows "(p, oper) \<in> set lin \<Longrightarrow> arrivals p tr = [oper] \<and> statements p tr \<noteq> []"
    "distinct (map fst lin)"
    "statements p tr = [(fo, res)] \<Longrightarrow>
       (stmt_accepted fo res \<longrightarrow> p \<in> fst ` set lin) \<and> (\<not> stmt_accepted fo res \<and> \<not> isl res \<longrightarrow> p \<notin> fst ` set lin)"
    "run_ops (spec_exec L) (map snd lin) t = (replicate (length lin) True, t')"
    "answered_before tr p q \<Longrightarrow> p \<in> fst ` set lin \<Longrightarrow> q \<in> fst ` set lin \<Longrightarrow> precedes (\<lambda>x. fst x = p) (\<lambda>x. fst x = q) lin"
  using assms unfolding tracks_def by blast+

lemma tracks_idle: "tracks L t [] [] t"
  by (simp add: tracks_def answered_before_def)

text \<open>Every step but a statement leaves the history as it is.\<close>

lemma tracks_silent:
  assumes t: "tracks L t tr lin t'" and ok: "threads_ok L tr c" and step: "conc_step L c e c'"
    and e: "\<And>p fo res. e \<noteq> Stmt p fo res"
  shows "tracks L t (tr @ [e]) lin t'"
proof -
  have st: "statements p (tr @ [e]) = statements p tr" for p using e by (cases e) auto
  have fresh: "e \<noteq> Arrive p oper" if "statements p tr \<noteq> []" for p oper
    using step that ok by cases (auto simp: threads_ok_def)
  have ar: "arrivals p (tr @ [e]) = arrivals p tr" if "statements p tr \<noteq> []" for p
    using fresh [OF that] by (cases e) auto
  have ab: "answered_before (tr @ [e]) p q \<longleftrightarrow> answered_before tr p q" if "q \<in> fst ` set lin" for p q
  proof -
    have "statements q tr \<noteq> []" using t that by (auto simp: tracks_def)
    from fresh [OF this] show ?thesis by (simp add: answered_before_def)
  qed
  have "\<forall>p q. answered_before (tr @ [e]) p q \<and> p \<in> fst ` set lin \<and> q \<in> fst ` set lin \<longrightarrow>
      precedes (\<lambda>x. fst x = p) (\<lambda>x. fst x = q) lin"
    using t ab unfolding tracks_def by blast
  moreover have "\<forall>(p, oper) \<in> set lin. arrivals p (tr @ [e]) = [oper] \<and> statements p (tr @ [e]) \<noteq> []"
    using t st ar by (auto simp: tracks_def simp del: trace_snoc)
  ultimately show ?thesis using t unfolding tracks_def st by blast
qed

lemma run_ops_snoc_True:
  assumes "run_ops ex xs s = (replicate (length xs) True, s1)" and "ex x s1 = (True, s2)"
  shows "run_ops ex (xs @ [x]) s = (replicate (length (xs @ [x])) True, s2)"
  using assms by (simp add: run_ops_append replicate_append_same)

lemma silent_tags:
  assumes ok: "threads_ok L tr c" and step: "conc_step L c e c'" and e: "\<And>p fo res. e \<noteq> Stmt p fo res"
  shows "tag_of (db (shared c')) = tag_of (db (shared c))"
  using step
proof cases
  case (tick p oper f a w)
  have "thread_ok L tr p (Some (oper, Call f))" using ok tick by (auto simp: threads_ok_def)
  then have "calm_step f" by (simp add: thread_ok_def)
  moreover have "db_ok (db (shared c))" using ok by (simp add: threads_ok_def)
  ultimately have "tag_of (db (snd (f (shared c)))) = tag_of (db (shared c))" by (simp add: calm_step_def)
  with tick show ?thesis by simp
qed (use e in \<open>auto simp: others_def\<close>)

text \<open>A statement that took effect is appended to it.\<close>

lemma tracks_snoc:
  assumes t: "tracks L t tr lin t'" and th: "arrivals p tr = [oper]" "statements p tr = []" and not_answered: "\<And>j. \<not> answered_before tr p j"
    and spec: "spec_exec L oper t' = (True, t'')" and took: "stmt_accepted fo res \<or> isl res"
  shows "tracks L t (tr @ [Stmt p fo res]) (lin @ [(p, oper)]) t''"
proof -
  have new: "p \<notin> fst ` set lin" using t th(2) by (auto simp: tracks_def)
  have ab: "answered_before (tr @ [Stmt p fo res]) i j \<longleftrightarrow> answered_before tr i j" for i j
    by (simp add: answered_before_def)
  have "run_ops (spec_exec L) (map snd lin) t = (replicate (length (map snd lin)) True, t')" using t by (simp add: tracks_def)
  from run_ops_snoc_True [OF this spec]
  have run: "run_ops (spec_exec L) (map snd (lin @ [(p, oper)])) t = (replicate (length (lin @ [(p, oper)])) True, t'')" by simp
  have order: "precedes (\<lambda>x. fst x = i) (\<lambda>x. fst x = j) (lin @ [(p, oper)])"
    if ans: "answered_before tr i j" "i \<in> fst ` set (lin @ [(p, oper)])" "j \<in> fst ` set (lin @ [(p, oper)])" for i j
  proof -
    have i: "i \<in> fst ` set lin" using ans(1,2) not_answered by auto
    then show ?thesis using tracksD(5) [OF t ans(1) i] ans(3) by auto
  qed
  have "distinct (map fst (lin @ [(p, oper)]))" using t new by (simp add: tracks_def)
  moreover have "\<forall>(i, x) \<in> set (lin @ [(p, oper)]). arrivals i (tr @ [Stmt p fo res]) = [x] \<and> statements i (tr @ [Stmt p fo res]) \<noteq> []"
    using t th by (auto simp: tracks_def)
  moreover have "\<forall>i fo' res'. statements i (tr @ [Stmt p fo res]) = [(fo', res')] \<longrightarrow>
      (stmt_accepted fo' res' \<longrightarrow> i \<in> fst ` set (lin @ [(p, oper)])) \<and>
      (\<not> stmt_accepted fo' res' \<and> \<not> isl res' \<longrightarrow> i \<notin> fst ` set (lin @ [(p, oper)]))"
    using t th(2) took by (auto simp: tracks_def)
  ultimately show ?thesis unfolding tracks_def ab using run order by blast
qed

lemma tracks_stmt:
  assumes t: "tracks L t tr lin t'" and ok: "threads_ok L tr c" and step: "conc_step L c (Stmt p fo res) c'"
    and t': "t' = tag_of (db (shared c))"
  shows "\<exists>lin'. tracks L t (tr @ [Stmt p fo res]) lin' (tag_of (db (shared c')))"
proof -
  from step obtain oper k w where p: "p < length (pool c)" "pool c ! p = Some (oper, Commit fo k)"
    and run: "db_call (file_stmt fo) (shared c) = (res, w)" and c': "shared c' = w" by cases auto
  have th: "arrivals p tr = [oper]" "answers p tr = []" "statements p tr = []" "commits_to L oper fo"
    using ok p by (fastforce simp: threads_ok_def thread_ok_def)+
  have new: "p \<notin> fst ` set lin" using t th(3) by (auto simp: tracks_def)
  note eff = file_stmt_effect [OF _ run]
  have db: "db_ok (db (shared c))" using ok by (simp add: threads_ok_def)
  have not_answered: "\<not> answered_before tr p j" for j
  proof
    assume "answered_before tr p j"
    then obtain i resp where "i < length tr" "tr ! i = Answer p resp"
      unfolding answered_before_def precedes_def using less_trans by blast
    then have "Answer p resp \<in> set tr" by (metis nth_mem)
    then show False using th(2) by (simp add: in_trace)
  qed
  show ?thesis
  proof (cases "stmt_accepted fo res \<or> isl res \<and> tag_of (db w) \<noteq> tag_of (db (shared c))")
    case True
    have "file_op_guard fo (t' (file_op_key fo))" "tag_of (db w) = t'(file_op_key fo := file_op_writes fo)"
      using True eff(3,5) [OF db] t' by auto
    then have "spec_exec L oper t' = (True, tag_of (db w))" using th(4) by (simp add: spec_exec_def commits_to_def)
    from tracks_snoc [OF t th(1,3) not_answered this] True c' show ?thesis by blast
  next
    case False
    then have "tag_of (db w) = t'" using eff(4) [OF db] t' by auto
    moreover have "answered_before (tr @ [Stmt p fo res]) i j \<longleftrightarrow> answered_before tr i j" for i j by (simp add: answered_before_def)
    ultimately have "tracks L t (tr @ [Stmt p fo res]) lin (tag_of (db w))"
      using t new th False unfolding tracks_def by auto
    then show ?thesis using c' by blast
  qed
qed

lemma tracks_run:
  assumes "conc_run L (idle w) tr c" and ok: "db_ok (db w)"
  shows "\<exists>lin. tracks L (tag_of (db w)) tr lin (tag_of (db (shared c)))"
  using assms(1)
proof (induction rule: conc_run.induct)
  case start
  show ?case using tracks_idle by fastforce
next
  case (snoc tr c e c')
  then obtain lin where lin: "tracks L (tag_of (db w)) tr lin (tag_of (db (shared c)))" by blast
  note th = threads_ok_run [OF snoc.hyps(1) ok]
  show ?case
  proof (cases "\<exists>p fo res. e = Stmt p fo res")
    case True
    then show ?thesis using tracks_stmt [OF lin th] snoc.hyps(2) by blast
  next
    case False
    then have "tracks L (tag_of (db w)) (tr @ [e]) lin (tag_of (db (shared c)))"
      by (intro tracks_silent [OF lin th snoc.hyps(2)]) auto
    with silent_tags [OF th snoc.hyps(2)] False show ?thesis by auto
  qed
qed


lemma tracks_explains:
  assumes t: "tracks L t tr lin t'" and ok: "threads_ok L tr c"
  shows "explains L t tr lin t'"
proof -
  have "success resp \<longrightarrow> p \<in> fst ` set lin" "\<not> success resp \<and> rs_status resp \<noteq> 500 \<longrightarrow> p \<notin> fst ` set lin"
    if "Answer p resp \<in> set tr" for p resp
  proof -
    have ans: "resp \<in> set (answers p tr)" using that by (simp add: in_trace)
    have "p < length (pool c)"
    proof (rule ccontr)
      assume "\<not> p < length (pool c)"
      then have "answers p tr = []" using ok by (simp add: threads_ok_def)
      with ans show False by simp
    qed
    then have th: "thread_ok L tr p (pool c ! p)" using ok by (simp add: threads_ok_def)
    have "pool c ! p = None"
    proof (cases "pool c ! p")
      case (Some x)
      with th have "answers p tr = []" by (simp add: thread_ok_def split: prod.splits)
      with ans show ?thesis by simp
    qed
    with th have "thread_ok L tr p None" by simp
    then obtain resp' where "answers p tr = [resp']" "statements p tr = [] \<and> \<not> success resp' \<or>
        (\<exists>fo res. statements p tr = [(fo, res)] \<and> answer_fits fo res resp')"
      unfolding thread_ok_def option.case by blast
    with ans consider "statements p tr = []" "\<not> success resp"
      | fo res where "statements p tr = [(fo, res)]" "answer_fits fo res resp" by auto
    then have "(success resp \<longrightarrow> p \<in> fst ` set lin) \<and> (\<not> success resp \<and> rs_status resp \<noteq> 500 \<longrightarrow> p \<notin> fst ` set lin)"
    proof cases
      case 1
      have "p \<notin> fst ` set lin" using tracksD(1)[OF t] 1(1) by auto
      with 1(2) show ?thesis by simp
    next
      case (2 fo res)
      have l: "stmt_accepted fo res \<longrightarrow> p \<in> fst ` set lin" "\<not> stmt_accepted fo res \<and> \<not> isl res \<longrightarrow> p \<notin> fst ` set lin"
        using tracksD(3) [OF t 2(1)] by simp_all
      show ?thesis
        using l 2(2) unfolding answer_fits_def success_def
        by (cases "stmt_accepted fo res"; cases "isl res") (auto split: if_splits)
    qed
    then show "success resp \<longrightarrow> p \<in> fst ` set lin" "\<not> success resp \<and> rs_status resp \<noteq> 500 \<longrightarrow> p \<notin> fst ` set lin"
      by blast+
  qed
  moreover have "\<forall>(p, oper) \<in> set lin. Arrive p oper \<in> set tr"
    using tracksD(1)[OF t] by (auto simp: in_trace)
  ultimately show ?thesis using tracksD(2,4,5)[OF t] unfolding explains_def by simp
qed

lemma run_explained:
  assumes "conc_run L (idle w) tr c" and "db_ok (db w)"
  obtains lin where "explains L (tag_of (db w)) tr lin (tag_of (db (shared c)))"
  using tracks_run [OF assms] tracks_explains [OF _ threads_ok_run [OF assms]] by blast

section \<open>Steps of one program\<close>

text \<open>A program makes some steps on its own.\<close>

inductive act_steps :: "'a act \<Rightarrow> world \<Rightarrow> 'a act \<Rightarrow> world \<Rightarrow> bool" where
  here: "act_steps a w a w"
| call: "f w = (a, w1) \<Longrightarrow> act_steps a w1 b w2 \<Longrightarrow> act_steps (Call f) w b w2"
| commit: "db_call (file_stmt fo) w = (res, w1) \<Longrightarrow> act_steps (k res) w1 b w2 \<Longrightarrow> act_steps (Commit fo k) w b w2"

lemma act_steps_trans: "act_steps a w b w1 \<Longrightarrow> act_steps b w1 c w2 \<Longrightarrow> act_steps a w c w2"
  by (induction rule: act_steps.induct) (auto intro: act_steps.intros)

lemma act_steps_bind: "act_steps p w p' w1 \<Longrightarrow> act_steps (bind_act p k) w (bind_act p' k) w1"
  by (induction rule: act_steps.induct) (auto intro!: act_steps.intros)

text \<open>To the end, with the result of running alone.\<close>

lemma act_steps_run: "run_act p w = (a, w1) \<Longrightarrow> act_steps p w (Ret a) w1"
proof (induction p arbitrary: w rule: act_induct)
  case (Call f)
  obtain q w2 where f: "f w = (q, w2)" by fastforce
  from Call.IH [of w w2] Call.prems f show ?case by (auto intro: act_steps.call)
next
  case (Commit fo k)
  then show ?case by (auto intro: act_steps.commit split: prod.splits)
qed (auto intro: act_steps.here)

lemma act_steps_past: "run_act p w = (a, w1) \<Longrightarrow> act_steps (k a) w1 b w2 \<Longrightarrow> act_steps (bind_act p k) w b w2"
  using act_steps_bind [OF act_steps_run, of p w a w1 k] act_steps_trans by fastforce

lemma act_steps_or_ret: "run_act p w = (Inr a, w1) \<Longrightarrow> act_steps (k a) w1 b w2 \<Longrightarrow> act_steps (or_ret p k) w b w2"
  unfolding or_ret_def by (rule act_steps_past) auto

text \<open>The steps of a program are steps of the system.\<close>

lemma conc_run_trans: "conc_run L c1 tr' c2 \<Longrightarrow> conc_run L c0 tr c1 \<Longrightarrow> conc_run L c0 (tr @ tr') c2"
proof (induction rule: conc_run.induct)
  case (snoc tr' c e c')
  then show ?case using conc_run.snoc [of L c0 "tr @ tr'" c e c'] by simp
qed simp

lemma conc_run_one: "conc_step L c e c' \<Longrightarrow> conc_run L c [e] c'"
  using conc_run.snoc [OF conc_run.start] by fastforce

lemma act_steps_conc:
  "act_steps a w b w1 \<Longrightarrow> p < length ps \<Longrightarrow> ps ! p = Some (oper, a) \<Longrightarrow>
   \<exists>tr. conc_run L \<lparr>pool = ps, shared = w\<rparr> tr \<lparr>pool = ps[p := Some (oper, b)], shared = w1\<rparr> \<and> Other \<notin> set tr"
proof (induction arbitrary: ps rule: act_steps.induct)
  case (here a w)
  then have "ps[p := Some (oper, a)] = ps" by (metis list_update_id)
  then show ?case using conc_run.start [of L] by (metis empty_iff list.set(1))
next
  case (call f w a w1 b w2)
  let ?ps = "ps[p := Some (oper, a)]"
  have "conc_step L \<lparr>pool = ps, shared = w\<rparr> (Tick p) \<lparr>pool = ?ps, shared = w1\<rparr>"
    using conc_step.tick [of p "\<lparr>pool = ps, shared = w\<rparr>" oper f a w1 L] call by simp
  moreover obtain tr where "conc_run L \<lparr>pool = ?ps, shared = w1\<rparr> tr \<lparr>pool = ?ps[p := Some (oper, b)], shared = w2\<rparr>" "Other \<notin> set tr"
    using call.IH [of ?ps] call.prems by auto
  ultimately show ?case using conc_run_trans [OF _ conc_run_one] by (intro exI [of _ "[Tick p] @ tr"]) simp
next
  case (commit fo w res w1 k b w2)
  let ?ps = "ps[p := Some (oper, k res)]"
  have "conc_step L \<lparr>pool = ps, shared = w\<rparr> (Stmt p fo res) \<lparr>pool = ?ps, shared = w1\<rparr>"
    using conc_step.stmt [of p "\<lparr>pool = ps, shared = w\<rparr>" oper fo k res w1 L] commit by simp
  moreover obtain tr where "conc_run L \<lparr>pool = ?ps, shared = w1\<rparr> tr \<lparr>pool = ?ps[p := Some (oper, b)], shared = w2\<rparr>" "Other \<notin> set tr"
    using commit.IH [of ?ps] commit.prems by auto
  ultimately show ?case using conc_run_trans [OF _ conc_run_one] by (intro exI [of _ "[Stmt p fo res] @ tr"]) simp
qed

lemma conc_arrive:
  "conc_run L \<lparr>pool = ps, shared = w\<rparr> [Arrive (length ps) oper] \<lparr>pool = ps @ [Some (oper, write_act L oper)], shared = w\<rparr>"
  using conc_run_one [OF conc_step.arrive [of L "\<lparr>pool = ps, shared = w\<rparr>" oper]] by simp

lemma conc_answer:
  assumes "p < length ps" and "ps ! p = Some (oper, Ret resp)"
  shows "conc_run L \<lparr>pool = ps, shared = w\<rparr> [Answer p resp] \<lparr>pool = ps[p := None], shared = w\<rparr>"
  using conc_run_one [OF conc_step.answer [of p "\<lparr>pool = ps, shared = w\<rparr>" oper resp L]] assms by simp

text \<open>A request in the pool runs to its end.\<close>

lemma conc_finish:
  assumes "p < length ps" and "ps ! p = Some (oper, a)" and "run_act a w = (resp, w1)"
  shows "\<exists>tr. conc_run L \<lparr>pool = ps, shared = w\<rparr> tr \<lparr>pool = ps[p := None], shared = w1\<rparr> \<and> Answer p resp \<in> set tr \<and> Other \<notin> set tr"
proof -
  obtain tr where "conc_run L \<lparr>pool = ps, shared = w\<rparr> tr \<lparr>pool = ps[p := Some (oper, Ret resp)], shared = w1\<rparr>" "Other \<notin> set tr"
    using act_steps_conc [OF act_steps_run [OF assms(3)] assms(1,2)] by blast
  moreover have "conc_run L \<lparr>pool = ps[p := Some (oper, Ret resp)], shared = w1\<rparr> [Answer p resp] \<lparr>pool = ps[p := None], shared = w1\<rparr>"
    using conc_answer [of p "ps[p := Some (oper, Ret resp)]" oper resp L w1] assms(1) by simp
  ultimately show ?thesis using conc_run_trans by (intro exI [of _ "tr @ [Answer p resp]"]) auto
qed

text \<open>Requests one after the other are one of the interleavings.\<close>

lemma conc_sequential:
  assumes "conc_run L c0 tr \<lparr>pool = ps, shared = w\<rparr>" and "write_handle L oper w = (resp, w1)"
  shows "\<exists>tr'. conc_run L c0 tr' \<lparr>pool = ps @ [None], shared = w1\<rparr> \<and> set tr \<subseteq> set tr' \<and>
    Arrive (length ps) oper \<in> set tr' \<and> Answer (length ps) resp \<in> set tr' \<and> (Other \<in> set tr' \<longrightarrow> Other \<in> set tr)"
proof -
  let ?ps = "ps @ [Some (oper, write_act L oper)]"
  have "run_act (write_act L oper) w = (resp, w1)" using assms(2) programs_implement_handlers by simp
  then obtain tr1 where "conc_run L \<lparr>pool = ?ps, shared = w\<rparr> tr1 \<lparr>pool = ?ps[length ps := None], shared = w1\<rparr>"
    "Answer (length ps) resp \<in> set tr1" "Other \<notin> set tr1"
    using conc_finish [of "length ps" ?ps oper "write_act L oper" w resp w1 L] by auto
  moreover from this(1) have "conc_run L \<lparr>pool = ps, shared = w\<rparr> ([Arrive (length ps) oper] @ tr1) \<lparr>pool = ps @ [None], shared = w1\<rparr>"
    using conc_run_trans [OF _ conc_arrive] by fastforce
  ultimately show ?thesis using conc_run_trans [OF _ assms(1)] by (intro exI [of _ "tr @ [Arrive (length ps) oper] @ tr1"]) auto
qed


section \<open>The role check of a program\<close>

text \<open>\<open>vouched V p\<close>: before \<open>p\<close> makes its statement it looks at a state that satisfies \<open>V\<close>; \<open>Q\<close> is what its result satisfies when it has
  not met such a state.\<close>

primrec vouched :: "(world \<Rightarrow> bool) \<Rightarrow> ('a \<Rightarrow> bool) \<Rightarrow> 'a act \<Rightarrow> bool" where
  "vouched V Q (Ret a) \<longleftrightarrow> Q a"
| "vouched V Q (Call f) \<longleftrightarrow> (\<forall>w. db_ok (db w) \<longrightarrow> V w \<or> fst (map_prod (vouched V Q) id (f w)))"
| "vouched V Q (Commit oper k) \<longleftrightarrow> False"

lemma vouched_call [simp]: "vouched V Q (call f) \<longleftrightarrow> (\<forall>w. db_ok (db w) \<longrightarrow> V w \<or> Q (fst (f w)))"
  by (simp add: call_def)

lemma vouched_bind [simp]: "vouched V Q (bind_act p k) \<longleftrightarrow> vouched V (\<lambda>a. vouched V Q (k a)) p"
  by (induction p rule: act_induct) simp_all

lemma vouched_mono: "vouched V Q p \<Longrightarrow> (\<And>a. Q a \<Longrightarrow> Q' a) \<Longrightarrow> vouched V Q' p"
  by (induction p rule: act_induct) auto

lemma vouched_weaken: "vouched V Q p \<Longrightarrow> (\<And>w. V w \<Longrightarrow> V' w) \<Longrightarrow> vouched V' Q p"
  by (induction p rule: act_induct) auto

lemma vouched_or_ret:
  "vouched V (\<lambda>x. case x of Inl resp \<Rightarrow> True | Inr a \<Rightarrow> vouched V (\<lambda>_. True) (k a)) p \<Longrightarrow> vouched V (\<lambda>_. True) (or_ret p k)"
  by (simp add: or_ret_def) (erule vouched_mono, auto split: sum.splits)

text \<open>The user of the request has the role in the folder of the request.\<close>

definition may_write :: "lib \<Rightarrow> write_op \<Rightarrow> db \<Rightarrow> bool" where
  "may_write L oper d \<longleftrightarrow>
     (\<exists>u f k. Option.bind (rq_user (op_request oper)) (uuid_Parse L) = Some u \<and>
        uuid_Parse L (rq_path (op_request oper) ''folderId'') = Some f \<and>
        rank_in d u f = Some k \<and> roleRank (op_role oper) \<le> k)"

definition has_rank :: "int \<Rightarrow> uuid \<Rightarrow> uuid \<Rightarrow> world \<Rightarrow> bool" where
  "has_rank need u f w \<longleftrightarrow> (\<exists>k. rank_in (db w) u f = Some k \<and> need \<le> k)"

lemma member_has_rank:
  assumes "db_ok (db w)" "lookup_by member_key (f, u) (project_members (db w)) = Some m" "need \<le> roleRank (m_role m)" "need \<le> 3"
  shows "has_rank need u f w"
proof -
  have "m \<in> set (project_members (db w))" "m_user_id m = u" using lookup_by_Some [OF assms(2)] by (auto simp: member_key_def)
  moreover have "members_ok (db w)" using assms(1) by (simp add: db_ok_def)
  ultimately have "u \<in> user_ids (db w)" unfolding members_ok_def by blast
  then obtain usr where "lookup_by u_id u (users (db w)) = Some usr"
    using lookup_by_None [of u_id u "users (db w)"] by (cases "lookup_by u_id u (users (db w))") (auto simp: user_ids_def)
  with assms show ?thesis by (simp add: has_rank_def rank_in_def)
qed

lemma vouched_ProjectRole:
  assumes "need \<le> 3"
  shows "vouched (has_rank need u f) (\<lambda>x. \<forall>role. x = Inr role \<longrightarrow> roleRank role < need) (ProjectRole_act u f)"
proof -
  let ?member = "\<lambda>d. one_row (map_option m_role (lookup_by member_key (f, u) (project_members d)))"
  have admin: "has_rank need u f w" if "db_call (query (\<lambda>d. one_row (map_option u_global_role (lookup_by u_id u (users d))))) w = (Inr ''admin'', w')" for w w'
    using db_call_query_Inr [OF that] assms by (auto simp: has_rank_def rank_in_def one_row_def split: option.splits)
  have member: "has_rank need u f w" if "db_ok (db w)" "db_call (query ?member) w = (Inr role, w')" "need \<le> roleRank role" for w w' role
  proof -
    from db_call_query_Inr [OF that(2)] obtain m where "lookup_by member_key (f, u) (project_members (db w)) = Some m" "m_role m = role"
      by (auto simp: one_row_def split: option.splits)
    with that show ?thesis using member_has_rank assms by blast
  qed
  show ?thesis
    unfolding ProjectRole_act_def storage_ProjectRole_act_def
    using admin member by (auto split: sum.splits) (metis linorder_not_le prod.collapse)+
qed

lemma vouched_guarded:
  assumes "roleRank minRole \<le> 3"
  shows "vouched (\<lambda>w. \<exists>u f. Option.bind (rq_user r) (uuid_Parse L) = Some u \<and> uuid_Parse L (rq_path r ''folderId'') = Some f \<and>
      has_rank (roleRank minRole) u f w) (\<lambda>_. True) (guarded_act L r bad minRole k)" (is "vouched ?V _ _")
proof -
  have role: "vouched ?V (\<lambda>_. True) (or_ret (checked_act (ProjectRole_act u f)) (\<lambda>role.
      or_ret (checked_act (Ret (RequireRole role minRole))) (\<lambda>_. k u f)))"
    if "Option.bind (rq_user r) (uuid_Parse L) = Some u" "uuid_Parse L (rq_path r ''folderId'') = Some f" for u f
  proof -
    have "vouched ?V (\<lambda>x. \<forall>role. x = Inr role \<longrightarrow> roleRank role < roleRank minRole) (ProjectRole_act u f)"
      using vouched_ProjectRole [OF assms, of u f] by (rule vouched_weaken) (use that in blast)
    then show ?thesis
      by (intro vouched_or_ret) (auto simp: checked_act_def or_ret_def RequireRole_def elim!: vouched_mono split: sum.splits)
  qed
  have folder: "vouched ?V (\<lambda>_. True) (or_ret (call (parseFolderID L r)) (\<lambda>f. case bad of Some resp \<Rightarrow> Ret resp | None \<Rightarrow>
      or_ret (checked_act (ProjectRole_act u f)) (\<lambda>role. or_ret (checked_act (Ret (RequireRole role minRole))) (\<lambda>_. k u f))))"
    if "Option.bind (rq_user r) (uuid_Parse L) = Some u" for u
    using that role by (intro vouched_or_ret) (auto simp: parseFolderID_def split: option.splits)
  show ?thesis
    unfolding guarded_act_def using folder
    by (intro vouched_or_ret) (auto simp: resolveUser_def split: option.splits prod.splits sum.splits)
qed

lemma write_act_vouched: "vouched (\<lambda>w. may_write L oper (db w)) (\<lambda>_. True) (write_act L oper)"
proof -
  have V: "(\<lambda>w. may_write L oper (db w)) = (\<lambda>w. \<exists>u f. Option.bind (rq_user (op_request oper)) (uuid_Parse L) = Some u \<and>
      uuid_Parse L (rq_path (op_request oper) ''folderId'') = Some f \<and> has_rank (roleRank (op_role oper)) u f w)"
    by (auto simp: may_write_def has_rank_def fun_eq_iff)
  have le: "roleRank (op_role oper) \<le> 3" by (cases oper) (simp_all add: roleRank_def)
  show ?thesis
    unfolding V using le
    by (cases oper; simp only: op_request.simps op_role.simps write_act.simps PutIssue_act_def PutAttachment_act_def
        PutProjectJSON_act_def PostIssue_act_def DeleteIssue_act_def DeleteAttachment_act_def) (erule vouched_guarded)+
qed

section \<open>The states of a run\<close>

text \<open>A run with its states: every event together with the state after it.\<close>

type_synonym path = "(event \<times> conc) list"

definition state_at :: "conc \<Rightarrow> path \<Rightarrow> nat \<Rightarrow> conc" where
  "state_at c0 xs i = (if i = 0 then c0 else snd (xs ! (i - 1)))"

definition conc_path :: "lib \<Rightarrow> conc \<Rightarrow> path \<Rightarrow> bool" where
  "conc_path L c0 xs \<longleftrightarrow> (\<forall>i < length xs. conc_step L (state_at c0 xs i) (fst (xs ! i)) (state_at c0 xs (Suc i)))"

definition trace :: "path \<Rightarrow> event list" where
  "trace xs = map fst xs"

lemma conc_path_take:
  assumes "conc_path L c0 xs" and "n \<le> length xs"
  shows "conc_run L c0 (trace (take n xs)) (state_at c0 xs n)"
  using assms(2)
proof (induction n)
  case 0
  then show ?case using conc_run.start by (simp add: trace_def state_at_def)
next
  case (Suc n)
  then have "conc_step L (state_at c0 xs n) (fst (xs ! n)) (state_at c0 xs (Suc n))" using assms(1) by (simp add: conc_path_def)
  from conc_run.snoc [OF Suc.IH this] Suc.prems show ?case by (simp add: trace_def take_Suc_conv_app_nth)
qed

lemma conc_path_run: "conc_path L c0 xs \<Longrightarrow> conc_run L c0 (trace xs) (state_at c0 xs (length xs))"
  using conc_path_take [of L c0 xs "length xs"] by simp

lemma state_at_snoc: "n \<le> length xs \<Longrightarrow> state_at c0 (xs @ [x]) n = state_at c0 xs n" "state_at c0 (xs @ [x]) (Suc (length xs)) = snd x"
  by (auto simp: state_at_def nth_append)

lemma conc_run_path: "conc_run L c0 tr c \<Longrightarrow> \<exists>xs. conc_path L c0 xs \<and> trace xs = tr \<and> state_at c0 xs (length xs) = c"
proof (induction rule: conc_run.induct)
  case start
  show ?case by (intro exI [of _ "[]"]) (simp add: conc_path_def trace_def state_at_def)
next
  case (snoc tr c e c')
  then obtain xs where xs: "conc_path L c0 xs" "trace xs = tr" "state_at c0 xs (length xs) = c" by blast
  have "conc_path L c0 (xs @ [(e, c')])"
    using xs snoc.hyps(2) by (auto simp: conc_path_def nth_append less_Suc_eq state_at_snoc)
  with xs show ?case by (intro exI [of _ "xs @ [(e, c')]"]) (simp add: trace_def state_at_snoc)
qed

lemma in_trace_take: "e \<in> set (trace (take n xs)) \<longleftrightarrow> (\<exists>i < n. i < length xs \<and> fst (xs ! i) = e)"
  unfolding trace_def in_set_conv_nth by auto

lemma in_trace_path: "e \<in> set (trace xs) \<longleftrightarrow> (\<exists>i < length xs. fst (xs ! i) = e)"
  unfolding trace_def in_set_conv_nth by auto

lemma threads_ok_path:
  "conc_path L (idle w) xs \<Longrightarrow> db_ok (db w) \<Longrightarrow> n \<le> length xs \<Longrightarrow> threads_ok L (trace (take n xs)) (state_at (idle w) xs n)"
  using threads_ok_run [OF conc_path_take] by blast

text \<open>At some moment before position \<open>n\<close>, after its arrival, request \<open>p\<close> made a call in a state in which its user held the role.\<close>

definition authorised :: "lib \<Rightarrow> conc \<Rightarrow> path \<Rightarrow> nat \<Rightarrow> nat \<Rightarrow> write_op \<Rightarrow> bool" where
  "authorised L c0 xs n p oper \<longleftrightarrow>
     (\<exists>i j. i < j \<and> j < n \<and> fst (xs ! i) = Arrive p oper \<and> fst (xs ! j) = Tick p \<and> may_write L oper (db (shared (state_at c0 xs j))))"

lemma authorised_Suc: "authorised L c0 xs n p oper \<Longrightarrow> authorised L c0 xs (Suc n) p oper"
  unfolding authorised_def using less_SucI by blast

text \<open>A request that has not been vouched for yet will be.\<close>

definition cleared :: "lib \<Rightarrow> conc \<Rightarrow> path \<Rightarrow> nat \<Rightarrow> bool" where
  "cleared L c0 xs n \<longleftrightarrow>
     (\<forall>p oper a. p < length (pool (state_at c0 xs n)) \<longrightarrow> pool (state_at c0 xs n) ! p = Some (oper, a) \<longrightarrow>
        authorised L c0 xs n p oper \<or> vouched (\<lambda>w. may_write L oper (db w)) (\<lambda>_. True) a)"

lemma cleared_keep:
  assumes "cleared L c0 xs n" and "p < length (pool (state_at c0 xs n))" "pool (state_at c0 xs n) ! p = Some (oper, a)"
  shows "authorised L c0 xs (Suc n) p oper \<or> vouched (\<lambda>w. may_write L oper (db w)) (\<lambda>_. True) a"
  using assms authorised_Suc unfolding cleared_def by blast

lemma cleared_tick:
  assumes path: "conc_path L (idle w) xs" "db_ok (db w)" and n: "n < length xs" and clear: "cleared L (idle w) xs n"
    and p: "p < length (pool (state_at (idle w) xs n))" "pool (state_at (idle w) xs n) ! p = Some (oper, Call f)"
    and f: "f (shared (state_at (idle w) xs n)) = (a, v)" and e: "fst (xs ! n) = Tick p"
  shows "authorised L (idle w) xs (Suc n) p oper \<or> vouched (\<lambda>w. may_write L oper (db w)) (\<lambda>_. True) a"
proof (cases "may_write L oper (db (shared (state_at (idle w) xs n)))")
  case True
  have ok: "threads_ok L (trace (take n xs)) (state_at (idle w) xs n)" using threads_ok_path [OF path] n by simp
  have "thread_ok L (trace (take n xs)) p (Some (oper, Call f))" using ok p by (auto simp: threads_ok_def)
  then have "Arrive p oper \<in> set (trace (take n xs))" by (simp add: thread_ok_def in_trace)
  with True e show ?thesis unfolding in_trace_take authorised_def by blast
next
  case False
  have "db_ok (db (shared (state_at (idle w) xs n)))" using threads_ok_path [OF path] n by (simp add: threads_ok_def)
  with cleared_keep [OF clear p] f False show ?thesis by fastforce
qed

lemma cleared_Suc:
  assumes path: "conc_path L (idle w) xs" "db_ok (db w)" and n: "n < length xs" and clear: "cleared L (idle w) xs n"
  shows "cleared L (idle w) xs (Suc n)"
proof -
  have step: "conc_step L (state_at (idle w) xs n) (fst (xs ! n)) (state_at (idle w) xs (Suc n))" using path n by (simp add: conc_path_def)
  note keep = cleared_keep [OF clear]
  from step show ?thesis
  proof cases
    case (arrive oper)
    then show ?thesis using keep write_act_vouched [of L oper] by (auto simp: cleared_def nth_append less_Suc_eq split: if_splits)
  next
    case (tick p oper f a v)
    then show ?thesis using keep cleared_tick [OF path n clear tick(3-5,1)] by (auto simp: cleared_def nth_list_update split: if_splits)
  next
    case (stmt p oper fo k res v)
    then have "authorised L (idle w) xs (Suc n) p oper" using keep by fastforce
    with stmt show ?thesis using keep by (auto simp: cleared_def nth_list_update split: if_splits)
  next
    case (answer p oper resp)
    then show ?thesis using keep by (auto simp: cleared_def nth_list_update split: if_splits)
  next
    case (other v)
    then show ?thesis using keep by (auto simp: cleared_def)
  qed
qed

lemma cleared_path:
  assumes "conc_path L (idle w) xs" "db_ok (db w)" and "n \<le> length xs"
  shows "cleared L (idle w) xs n"
  using assms(3)
proof (induction n)
  case 0
  show ?case by (simp add: cleared_def state_at_def)
next
  case (Suc n)
  then show ?case using cleared_Suc [OF assms(1,2)] by simp
qed


section \<open>Properties\<close>

text \<open>Three requests one after the other, from theory \<open>Write_Safety\<close>: create, delete, create again.\<close>

lemma run_ops_3:
  assumes "fst (run_ops (write_exec L) [x, y, z] w) = [True, True, True]"
  obtains r0 w0 r1 w1 r2 w2 where "write_handle L x w = (r0, w0)" "write_handle L y w0 = (r1, w1)" "write_handle L z w1 = (r2, w2)"
    "success r0" "success r1" "success r2"
  using assms by (auto simp: write_exec_def success_def split: prod.splits)

lemma three_in_turn:
  assumes "fst (run_ops (write_exec L) [x, y, z] w) = [True, True, True]"
  obtains tr c r0 r1 r2 where "conc_run L (idle w) tr c" "Arrive 0 x \<in> set tr" "Arrive 1 y \<in> set tr" "Arrive 2 z \<in> set tr"
    "Answer 0 r0 \<in> set tr" "Answer 1 r1 \<in> set tr" "Answer 2 r2 \<in> set tr" "success r0" "success r1" "success r2"
proof -
  obtain r0 w0 r1 w1 r2 w2 where r: "write_handle L x w = (r0, w0)" "write_handle L y w0 = (r1, w1)" "write_handle L z w1 = (r2, w2)"
    "success r0" "success r1" "success r2" using run_ops_3 [OF assms] by blast
  have "conc_run L (idle w) [] \<lparr>pool = [], shared = w\<rparr>" using conc_run.start by (simp add: idle_def)
  from conc_sequential [OF this r(1)] obtain t0 where t0: "conc_run L (idle w) t0 \<lparr>pool = [None], shared = w0\<rparr>"
    "Arrive 0 x \<in> set t0" "Answer 0 r0 \<in> set t0" by auto
  from conc_sequential [OF t0(1) r(2)] obtain t1 where t1: "conc_run L (idle w) t1 \<lparr>pool = [None, None], shared = w1\<rparr>"
    "set t0 \<subseteq> set t1" "Arrive 1 y \<in> set t1" "Answer 1 r1 \<in> set t1" by auto
  from conc_sequential [OF t1(1) r(3)] obtain t2 where "conc_run L (idle w) t2 \<lparr>pool = [None, None, None], shared = w2\<rparr>"
    "set t1 \<subseteq> set t2" "Arrive 2 z \<in> set t2" "Answer 2 r2 \<in> set t2" by (auto simp: numeral_2_eq_2)
  with t0 t1 r(4-6) that show thesis by blast
qed

text \<open>C2. The files are linearizable: however the statements and calls of any number of write requests interleave with each other and with the rest of
  the server, and whatever fails, there is an order of requests, each at most once, that the abstract store accepts one after the other and that leads from the
  first tags to the last; it contains every request answered with a success and none answered with a refusal (a 500 may be
  either), and a request that was answered before another arrived stands before it. The constraints of the schema hold at the end.\<close>

theorem writes_linearizable:
  assumes "db_ok (db w)" and "conc_run L (idle w) tr c"
  shows "db_ok (db (shared c)) \<and> (\<exists>lin. explains L (tag_of (db w)) tr lin (tag_of (db (shared c))))"
  using run_explained [OF assms(2,1)] threads_ok_run [OF assms(2,1)] by (metis threads_ok_def)

theorem writes_linearizable_witness:
  "\<exists>tr c lin. conc_run sample_lib (idle plain_world) tr c \<and> explains sample_lib (tag_of sample_db) tr lin (tag_of (db (shared c))) \<and>
     fst ` set lin \<supseteq> {0, 1, 2}"
proof -
  obtain x y z where s: "sample_writes = [x, y, z]" by (simp add: sample_writes_def Let_def)
  obtain tr c r0 r1 r2 where run: "conc_run sample_lib (idle plain_world) tr c" "Answer 0 r0 \<in> set tr" "Answer 1 r1 \<in> set tr"
    "Answer 2 r2 \<in> set tr" "success r0" "success r1" "success r2"
    using three_in_turn [OF sample_writes_run [unfolded s]] by metis
  obtain lin where "explains sample_lib (tag_of (db plain_world)) tr lin (tag_of (db (shared c)))"
    using writes_linearizable [OF _ run(1)] by auto
  with run show ?thesis unfolding explains_def by (intro exI [of _ tr] exI [of _ c] exI [of _ lin]) auto
qed


text \<open>Positions of a history.\<close>

lemma explainsE:
  assumes "explains L t tr lin t'" and "Answer p resp \<in> set tr" and "success resp"
  obtains i oper where "i < length lin" "lin ! i = (p, oper)" "Arrive p oper \<in> set tr"
proof -
  from assms have "p \<in> fst ` set lin" unfolding explains_def by blast
  then obtain i where "i < length lin" "fst (lin ! i) = p" by (auto simp: in_set_conv_nth)
  moreover from this(1) have "(fst (lin ! i), snd (lin ! i)) \<in> set lin" by simp
  then have "Arrive (fst (lin ! i)) (snd (lin ! i)) \<in> set tr" using assms(1) unfolding explains_def by blast
  ultimately show thesis using that [of i "snd (lin ! i)"] by (metis prod.collapse)
qed

lemma arrived_once:
  assumes "conc_run L (idle w) tr c" "db_ok (db w)" "Arrive p x \<in> set tr" "Arrive p y \<in> set tr"
  shows "x = y"
proof -
  have ok: "threads_ok L tr c" by (rule threads_ok_run [OF assms(1,2)])
  have mem: "x \<in> set (arrivals p tr)" "y \<in> set (arrivals p tr)" using assms(3,4) by (simp_all add: in_trace)
  then have "p < length (pool c)" using ok by (fastforce simp: threads_ok_def not_less [symmetric])
  then have "thread_ok L tr p (pool c ! p)" using ok by (simp add: threads_ok_def)
  then have "\<exists>z. arrivals p tr = [z]" by (auto simp: thread_ok_def split: option.splits)
  with mem show ?thesis by auto
qed

lemma success_has_statement:
  assumes "conc_run L (idle w) tr c" "db_ok (db w)" "Answer p resp \<in> set tr" "success resp"
  shows "\<exists>fo res. Stmt p fo res \<in> set tr"
proof -
  obtain lin where lin: "tracks L (tag_of (db w)) tr lin (tag_of (db (shared c)))" using tracks_run [OF assms(1,2)] by blast
  note e = tracks_explains [OF lin threads_ok_run [OF assms(1,2)]]
  obtain i oper where "i < length lin" "lin ! i = (p, oper)" using explainsE [OF e assms(3,4)] by blast
  then have "(p, oper) \<in> set lin" by (metis nth_mem)
  with tracksD(1)[OF lin] have "statements p tr \<noteq> []" by blast
  then obtain fo res where "(fo, res) \<in> set (statements p tr)" by (metis last_in_set surj_pair)
  then show ?thesis unfolding in_trace by blast
qed

text \<open>A request is on its way or answered, and has at most one statement.\<close>

lemma thread_of_path:
  assumes "conc_path L (idle w) xs" "db_ok (db w)" "Answer p resp \<in> set (trace xs)"
  shows "\<exists>entry. thread_ok L (trace xs) p entry"
proof -
  have ok: "threads_ok L (trace xs) (state_at (idle w) xs (length xs))" using threads_ok_path [OF assms(1,2), of "length xs"] by simp
  then have "p < length (pool (state_at (idle w) xs (length xs)))" using assms(3) by (fastforce simp: threads_ok_def in_trace not_less [symmetric])
  with ok show ?thesis by (auto simp: threads_ok_def)
qed

lemma statement_at:
  assumes path: "conc_path L (idle w) xs" "db_ok (db w)" and m: "m < length xs" "fst (xs ! m) = Stmt p fo res"
  shows "\<exists>oper. Arrive p oper \<in> set (trace (take m xs)) \<and> commits_to L oper fo \<and> Stmt p fo' res' \<notin> set (trace (take m xs)) \<and>
    db_call (file_stmt fo) (shared (state_at (idle w) xs m)) = (res, shared (state_at (idle w) xs (Suc m))) \<and>
    db_ok (db (shared (state_at (idle w) xs m)))"
proof -
  have ok: "threads_ok L (trace (take m xs)) (state_at (idle w) xs m)" using threads_ok_path [OF path] m(1) by simp
  have "conc_step L (state_at (idle w) xs m) (Stmt p fo res) (state_at (idle w) xs (Suc m))" using path(1) m by (metis conc_path_def)
  then obtain oper k where p: "p < length (pool (state_at (idle w) xs m))" "pool (state_at (idle w) xs m) ! p = Some (oper, Commit fo k)"
    and call: "db_call (file_stmt fo) (shared (state_at (idle w) xs m)) = (res, shared (state_at (idle w) xs (Suc m)))" by cases auto
  have th: "thread_ok L (trace (take m xs)) p (Some (oper, Commit fo k))" using ok p by (auto simp: threads_ok_def)
  then have "arrivals p (trace (take m xs)) = [oper]" "statements p (trace (take m xs)) = []" "commits_to L oper fo"
    by (auto simp: thread_ok_def)
  with call ok show ?thesis by (auto simp: in_trace threads_ok_def)
qed

lemma statement_once:
  assumes path: "conc_path L (idle w) xs" "db_ok (db w)" and i: "i < length xs" "fst (xs ! i) = Stmt p fo res"
    and j: "j < length xs" "fst (xs ! j) = Stmt p fo' res'"
  shows "i = j"
proof -
  have "\<not> i < j" using statement_at [OF path j, of fo res] i by (auto simp: in_trace_take)
  moreover have "\<not> j < i" using statement_at [OF path i, of fo' res'] j by (auto simp: in_trace_take)
  ultimately show ?thesis by simp
qed

text \<open>The tag of a file over a run, and where an accepted PUT found and left it.\<close>

definition tag_at :: "conc \<Rightarrow> path \<Rightarrow> uuid \<times> string \<Rightarrow> nat \<Rightarrow> string option" where
  "tag_at c0 xs key i = tag_of (db (shared (state_at c0 xs i))) key"

lemma accepted_at:
  assumes path: "conc_path L (idle w) xs" "db_ok (db w)" and a: "Arrive p oper \<in> set (trace xs)"
    and "Answer p resp \<in> set (trace xs)" and "success resp"
  shows "\<exists>i fo res. i < length xs \<and> fst (xs ! i) = Stmt p fo res \<and> write_guard oper (tag_at (idle w) xs (write_key L oper) i) \<and>
    tag_at (idle w) xs (write_key L oper) (Suc i) = write_tag L oper"
proof -
  obtain entry where th: "thread_ok L (trace xs) p entry" using thread_of_path [OF path assms(4)] by blast
  have ans: "resp \<in> set (answers p (trace xs))" "oper \<in> set (arrivals p (trace xs))" using assms(3,4) by (simp_all add: in_trace)
  have "\<exists>fo res. (fo, res) \<in> set (statements p (trace xs)) \<and> commits_to L oper fo \<and> answer_fits fo res resp"
    using th ans assms(5) by (fastforce simp: thread_ok_def split: option.splits prod.splits)
  then obtain fo res where st: "Stmt p fo res \<in> set (trace xs)" "commits_to L oper fo" "answer_fits fo res resp" by (auto simp: in_trace)
  have acc: "stmt_accepted fo res" using st(3) assms(5) by (auto simp: answer_fits_def success_def split: if_splits)
  obtain i where i: "i < length xs" "fst (xs ! i) = Stmt p fo res" using st(1) by (auto simp: in_trace_path)
  obtain call: "db_call (file_stmt fo) (shared (state_at (idle w) xs i)) = (res, shared (state_at (idle w) xs (Suc i)))"
    and db: "db_ok (db (shared (state_at (idle w) xs i)))" using statement_at [OF path i] by blast
  from file_stmt_effect(3) [OF db call acc] st(2) i show ?thesis
    by (intro exI [of _ i] exI [of _ fo] exI [of _ res]) (simp add: tag_at_def commits_to_def)
qed

text \<open>A tag that a run changes is changed by a statement, and to what its request writes.\<close>

lemma change_at:
  assumes path: "conc_path L (idle w) xs" "db_ok (db w)" and m: "m < length xs" and change: "tag_at (idle w) xs key (Suc m) \<noteq> tag_at (idle w) xs key m"
  shows "\<exists>s oper fo res. fst (xs ! m) = Stmt s fo res \<and> Arrive s oper \<in> set (trace (take m xs)) \<and> write_key L oper = key"
proof -
  have ok: "threads_ok L (trace (take m xs)) (state_at (idle w) xs m)" using threads_ok_path [OF path] m by simp
  have step: "conc_step L (state_at (idle w) xs m) (fst (xs ! m)) (state_at (idle w) xs (Suc m))" using path m by (simp add: conc_path_def)
  have "\<exists>s fo res. fst (xs ! m) = Stmt s fo res" using silent_tags [OF ok step] change unfolding tag_at_def by metis
  then obtain s fo res where e: "fst (xs ! m) = Stmt s fo res" by blast
  then obtain oper where o: "Arrive s oper \<in> set (trace (take m xs))" "commits_to L oper fo"
    and call: "db_call (file_stmt fo) (shared (state_at (idle w) xs m)) = (res, shared (state_at (idle w) xs (Suc m)))"
    and db: "db_ok (db (shared (state_at (idle w) xs m)))" using statement_at [OF path m] by blast
  from file_stmt_effect(5) [OF db call] change have "file_op_key fo = key" by (auto simp: tag_at_def split: if_splits)
  with e o show ?thesis by (auto simp: commits_to_def)
qed

lemma written_back:
  fixes T :: "nat \<Rightarrow> 'a"
  shows "n \<le> j \<Longrightarrow> T n \<noteq> x \<Longrightarrow> T j = x \<Longrightarrow> \<exists>m. n \<le> m \<and> m < j \<and> T m \<noteq> x \<and> T (Suc m) = x"
proof (induction "j - n" arbitrary: n)
  case (Suc d)
  show ?case
  proof (cases "T (Suc n) = x")
    case True
    then show ?thesis using Suc by (intro exI [of _ n]) auto
  next
    case False
    have "Suc n \<le> j" "d = j - Suc n" using Suc by auto
    from Suc.hyps(1) [OF this(2,1) False Suc.prems(3)] show ?thesis using Suc_leD by blast
  qed
qed auto

text \<open>Two accepted requests for one file that insist on the same tag, the first of which does not write it.\<close>

lemma third_request:
  assumes path: "conc_path L (idle w) xs" "db_ok (db w)" and i: "i < length xs" "fst (xs ! i) = Stmt p fo res"
    and j: "j < length xs" "fst (xs ! j) = Stmt q fo' res'" and ij: "i < j"
    and tags: "tag_at (idle w) xs key (Suc i) \<noteq> x" "tag_at (idle w) xs key j = x"
  shows "\<exists>m s oper fo res. i < m \<and> m < j \<and> s \<noteq> p \<and> s \<noteq> q \<and> fst (xs ! m) = Stmt s fo res \<and> Arrive s oper \<in> set (trace (take m xs)) \<and>
    write_key L oper = key \<and> tag_at (idle w) xs key m \<noteq> x \<and> tag_at (idle w) xs key (Suc m) = x"
proof -
  from written_back [of "Suc i" j "tag_at (idle w) xs key" x] ij tags
  obtain m where m: "Suc i \<le> m" "m < j" "tag_at (idle w) xs key m \<noteq> x" "tag_at (idle w) xs key (Suc m) = x" by auto
  then have lt: "m < length xs" using j(1) by simp
  from change_at [OF path lt, of key] m obtain s oper fo'' res'' where s: "fst (xs ! m) = Stmt s fo'' res''"
    "Arrive s oper \<in> set (trace (take m xs))" "write_key L oper = key" by auto
  have "s \<noteq> p" using statement_once [OF path i lt] s(1) m(1) by auto
  moreover have "s \<noteq> q" using statement_once [OF path j lt] s(1) m(2) by auto
  ultimately show ?thesis using m s by (metis Suc_le_eq)
qed

text \<open>C3. No lost update under any interleaving: two PUTs of the same issue that are conditioned on the same state (the same tag, or no issue), neither of which writes that state, are
  both answered with a success only if a third request wrote that state back in between: after the statement of one of the two and before that of the other, the statement of
  a third request, which had arrived for the same file, changed the file's tag from something else to that state.\<close>

theorem interleaved_no_lost_update:
  assumes "db_ok (db w)" and "conc_path L (idle w) xs" and "p \<noteq> q"
    and "Arrive p (PutIssue r) \<in> set (trace xs)" and "Answer p resp \<in> set (trace xs)" and ok: "success resp"
    and "Arrive q (PutIssue r') \<in> set (trace xs)" and "Answer q resp' \<in> set (trace xs)" and ok': "success resp'"
    and key: "write_key L (PutIssue r) = key" "write_key L (PutIssue r') = key"
    and x: "expected_tag (match_etag r) = x" "expected_tag (match_etag r') = x"
    and "x \<noteq> Some (computeETag (rq_body r))" and "x \<noteq> Some (computeETag (rq_body r'))"
  shows "\<exists>i m j a b s oper fo1 res1 fo2 res2 fo res. i < m \<and> m < j \<and> j < length xs \<and>
    fst (xs ! i) = Stmt a fo1 res1 \<and> fst (xs ! j) = Stmt b fo2 res2 \<and> {a, b} = {p, q} \<and>
    s \<noteq> p \<and> s \<noteq> q \<and> fst (xs ! m) = Stmt s fo res \<and> Arrive s oper \<in> set (trace (take m xs)) \<and> write_key L oper = key \<and>
    tag_at (idle w) xs key m \<noteq> x \<and> tag_at (idle w) xs key (Suc m) = x"
proof -
  obtain i fo res where i: "i < length xs" "fst (xs ! i) = Stmt p fo res" "tag_at (idle w) xs key i = x" "tag_at (idle w) xs key (Suc i) \<noteq> x"
    using accepted_at [OF assms(2,1,4,5) ok] key x assms(14) by auto
  obtain j fo' res' where j: "j < length xs" "fst (xs ! j) = Stmt q fo' res'" "tag_at (idle w) xs key j = x" "tag_at (idle w) xs key (Suc j) \<noteq> x"
    using accepted_at [OF assms(2,1,7,8) ok'] key x assms(15) by auto
  have "i \<noteq> j" using i j assms(3) by auto
  then consider "i < j" | "j < i" by linarith
  then show ?thesis
  proof cases
    case 1
    obtain m s oper fo'' res'' where m: "i < m" "m < j" "s \<noteq> p" "s \<noteq> q" "fst (xs ! m) = Stmt s fo'' res''"
      "Arrive s oper \<in> set (trace (take m xs))" "write_key L oper = key" "tag_at (idle w) xs key m \<noteq> x" "tag_at (idle w) xs key (Suc m) = x"
      using third_request [OF assms(2,1) i(1,2) j(1,2) 1 i(4) j(3)] by blast
    have "{p, q} = {p, q}" by simp
    from m(1,2) j(1) i(2) j(2) this m(3-9) show ?thesis by (intro exI conjI)
  next
    case 2
    obtain m s oper fo'' res'' where m: "j < m" "m < i" "s \<noteq> q" "s \<noteq> p" "fst (xs ! m) = Stmt s fo'' res''"
      "Arrive s oper \<in> set (trace (take m xs))" "write_key L oper = key" "tag_at (idle w) xs key m \<noteq> x" "tag_at (idle w) xs key (Suc m) = x"
      using third_request [OF assms(2,1) j(1,2) i(1,2) 2 j(4) i(3)] by blast
    have "{q, p} = {p, q}" by auto
    from m(1,2) i(1) j(2) i(2) this m(4,3,5-9) show ?thesis by (intro exI conjI)
  qed
qed

theorem interleaved_no_lost_update_witness:
  "\<exists>xs m s oper fo res. conc_path sample_lib (idle plain_world) xs \<and> s \<noteq> 0 \<and> s \<noteq> 2 \<and> fst (xs ! m) = Stmt s fo res \<and>
     Arrive s oper \<in> set (trace (take m xs)) \<and> tag_at (idle plain_world) xs (7, ''0001.md'') (Suc m) = None"
proof -
  let ?r = "\<lambda>b. sample_request 2 ''0001'' [(''If-None-Match'', ''*''), (''X-Forwarded-For'', ''unknown'')] b"
  obtain y where s: "sample_writes = [PutIssue (?r ''a''), y, PutIssue (?r ''b'')]" by (simp add: sample_writes_def Let_def)
  obtain tr c a0 a1 a2 where run: "conc_run sample_lib (idle plain_world) tr c" "Arrive 0 (PutIssue (?r ''a'')) \<in> set tr"
    "Arrive 2 (PutIssue (?r ''b'')) \<in> set tr" "Answer 0 a0 \<in> set tr" "Answer 2 a2 \<in> set tr" "success a0" "success a2"
    using three_in_turn [OF sample_writes_run [unfolded s]] by metis
  obtain xs where xs: "conc_path sample_lib (idle plain_world) xs" "trace xs = tr" using conc_run_path [OF run(1)] by blast
  note t = run(2-5) [folded xs(2)]
  have x: "expected_tag (match_etag (?r b)) = None" "write_key sample_lib (PutIssue (?r b)) = (7, ''0001.md'')" for b
    by (simp_all add: match_etag_def expected_tag_def write_key_def issue_path_def)
  have ok: "db_ok (db plain_world)" by simp
  have ne: "(0::nat) \<noteq> 2" "None \<noteq> Some (computeETag (rq_body (?r b)))" for b by simp_all
  from interleaved_no_lost_update [OF ok xs(1) ne(1) t(1,3) run(6) t(2,4) run(7) x(2) x(2) x(1) x(1) ne(2) ne(2)] xs(1)
  show ?thesis by blast
qed


text \<open>C4. No write without the role under any interleaving: before a request's statement on the files runs (whatever comes of it), and after the request arrived, the request
  itself made a call in a state of the run in which its user held the required role in its folder. (Not necessarily at the moment of the statement: the check and the
  statement are separate calls, and a member who is removed in between still writes.)\<close>

theorem interleaved_only_if_allowed:
  assumes "db_ok (db w)" and "conc_path L (idle w) xs" and "Arrive p oper \<in> set (trace xs)"
    and "n < length xs" and "fst (xs ! n) = Stmt p fo res"
  shows "\<exists>i j u f k. i < j \<and> j < n \<and> fst (xs ! i) = Arrive p oper \<and> fst (xs ! j) = Tick p \<and>
    Option.bind (rq_user (op_request oper)) (uuid_Parse L) = Some u \<and> uuid_Parse L (rq_path (op_request oper) ''folderId'') = Some f \<and>
    rank_in (db (shared (state_at (idle w) xs j))) u f = Some k \<and> roleRank (op_role oper) \<le> k"
proof -
  have "conc_step L (state_at (idle w) xs n) (Stmt p fo res) (state_at (idle w) xs (Suc n))" using assms(2,4,5) by (metis conc_path_def)
  then obtain oper' k where p: "p < length (pool (state_at (idle w) xs n))" "pool (state_at (idle w) xs n) ! p = Some (oper', Commit fo k)"
    by cases auto
  have "cleared L (idle w) xs n" using cleared_path [OF assms(2,1)] assms(4) by simp
  then have a: "authorised L (idle w) xs n p oper'" using p unfolding cleared_def by fastforce
  then obtain i j where ij: "i < j" "j < n" "fst (xs ! i) = Arrive p oper'" "fst (xs ! j) = Tick p"
    "may_write L oper' (db (shared (state_at (idle w) xs j)))" unfolding authorised_def by blast
  then have "i < length xs" using assms(4) by simp
  with ij(3) have "Arrive p oper' \<in> set (trace xs)" unfolding in_trace_path by blast
  then have "oper' = oper" using arrived_once [OF conc_path_run [OF assms(2)] assms(1)] assms(3) by blast
  with ij show ?thesis unfolding may_write_def by blast
qed

theorem interleaved_only_if_allowed_witness:
  "\<exists>xs n fo res j. conc_path sample_lib (idle plain_world) xs \<and> fst (xs ! n) = Stmt 0 fo res \<and> j < n \<and> fst (xs ! j) = Tick 0 \<and>
     rank_in (db (shared (state_at (idle plain_world) xs j))) 2 7 \<noteq> None"
proof -
  let ?r = "sample_request 2 ''0001'' [(''If-None-Match'', ''*''), (''X-Forwarded-For'', ''unknown'')] ''a''"
  obtain y z where s: "sample_writes = [PutIssue ?r, y, z]" by (simp add: sample_writes_def Let_def)
  obtain tr c r0 where run: "conc_run sample_lib (idle plain_world) tr c" "Arrive 0 (PutIssue ?r) \<in> set tr" "Answer 0 r0 \<in> set tr" "success r0"
    using three_in_turn [OF sample_writes_run [unfolded s]] by metis
  have "\<exists>fo res. Stmt 0 fo res \<in> set tr" by (rule success_has_statement [OF run(1) _ run(3,4)]) simp
  then obtain fo res where st: "Stmt 0 fo res \<in> set tr" by blast
  obtain xs where xs: "conc_path sample_lib (idle plain_world) xs" "trace xs = tr" using conc_run_path [OF run(1)] by blast
  with st obtain n where n: "n < length xs" "fst (xs ! n) = Stmt 0 fo res" by (auto simp: in_trace_path)
  have ok: "db_ok (db plain_world)" by simp
  obtain i j u f k where "i < j" and j: "j < n" "fst (xs ! j) = Tick 0" "rank_in (db (shared (state_at (idle plain_world) xs j))) u f = Some k"
    and u: "Option.bind (rq_user (op_request (PutIssue ?r))) (uuid_Parse sample_lib) = Some u"
      "uuid_Parse sample_lib (rq_path (op_request (PutIssue ?r)) ''folderId'') = Some f"
    using interleaved_only_if_allowed [OF ok xs(1) run(2) [folded xs(2)] n] by blast
  from u have "u = 2" "f = 7" by simp_all
  with j xs(1) n(2) show ?thesis by blast
qed

end
