(* ===== verification/Races.thy ===== *)
theory Races
  imports Concurrency
begin

text \<open>
  What the interleavings of theory \<open>Concurrency\<close> do to the bucket and the event log. Rows change in one conditional statement, but the object of a
  file is written and removed by calls of its own, before (PUT, POST) or after (DELETE) the statement, and the event is appended later still. Each
  theorem constructs a run, without any failure, in which every answer is the right one and the outcome is not.
\<close>

section \<open>Programs stopped on the way\<close>

lemma run_guarded_steps:
  assumes f: "fates w = []" and al: "allowed L r minRole (db w) u f" and bad: "bad = None"
    and rest: "act_steps (k u f) w b w1"
  shows "act_steps (guarded_act L r bad minRole k) w b w1"
proof -
  obtain adm role where c: "resolveUser L r w = (Inr (u, adm), w)" "parseFolderID L r w = (Inr f, w)"
    "checked (ProjectRole u f w) = (Inr role, w)" "RequireRole role minRole = Inr ()" by (rule checks_pass [OF f al])
  have r: "run_act (call (resolveUser L r)) w = (Inr (u, adm), w)" "run_act (call (parseFolderID L r)) w = (Inr f, w)"
    "run_act (checked_act (ProjectRole_act u f)) w = (Inr role, w)" "run_act (checked_act (Ret (RequireRole role minRole))) w = (Inr (), w)"
    using c by (simp_all add: checked_def)
  from act_steps_or_ret [OF r(4), of "\<lambda>_. k u f", OF rest]
  have "act_steps (or_ret (checked_act (ProjectRole_act u f)) (\<lambda>role. or_ret (checked_act (Ret (RequireRole role minRole))) (\<lambda>_. k u f))) w b w1"
    by (rule act_steps_or_ret [OF r(3)])
  then show ?thesis
    unfolding guarded_act_def bad
    by (intro act_steps_or_ret [OF r(1)]) (simp add: act_steps_or_ret [OF r(2)])
qed

text \<open>One request stops on the way, a second one runs from its arrival to its answer, the first one goes on to its own.\<close>

lemma overtaken:
  assumes "act_steps (write_act L x) w a w1" and "write_handle L y w1 = (resp', w2)" and "run_act a w2 = (resp, w3)"
  shows "\<exists>tr c. conc_run L (idle w) tr c \<and> shared c = w3 \<and> Arrive 0 x \<in> set tr \<and> Arrive 1 y \<in> set tr \<and>
    Answer 0 resp \<in> set tr \<and> Answer 1 resp' \<in> set tr \<and> Other \<notin> set tr"
proof -
  have "conc_run L (idle w) [] \<lparr>pool = [], shared = w\<rparr>" using conc_run.start by (simp add: idle_def)
  from conc_run_trans [OF conc_arrive this, of x] have t0: "conc_run L (idle w) [Arrive 0 x] \<lparr>pool = [Some (x, write_act L x)], shared = w\<rparr>"
    by simp
  obtain t1 where t1: "conc_run L \<lparr>pool = [Some (x, write_act L x)], shared = w\<rparr> t1 \<lparr>pool = [Some (x, a)], shared = w1\<rparr>" "Other \<notin> set t1"
    using act_steps_conc [OF assms(1), of 0 "[Some (x, write_act L x)]" x L] by auto
  obtain t2 where t2: "conc_run L (idle w) t2 \<lparr>pool = [Some (x, a), None], shared = w2\<rparr>"
    "set ([Arrive 0 x] @ t1) \<subseteq> set t2" "Arrive 1 y \<in> set t2" "Answer 1 resp' \<in> set t2" "Other \<notin> set t2"
    using conc_sequential [OF conc_run_trans [OF t1(1) t0] assms(2)] t1(2) by auto
  obtain t3 where t3: "conc_run L \<lparr>pool = [Some (x, a), None], shared = w2\<rparr> t3 \<lparr>pool = [None, None], shared = w3\<rparr>" "Answer 0 resp \<in> set t3" "Other \<notin> set t3"
    using conc_finish [of 0 "[Some (x, a), None]" x a w2 resp w3 L] assms(3) by auto
  from conc_run_trans [OF t3(1) t2(1)] t2 t3(2,3) show ?thesis
    by (intro exI [of _ "t2 @ t3"] exI [of _ "\<lparr>pool = [None, None], shared = w3\<rparr>"]) auto
qed

lemma bind_assoc: "bind_act (bind_act p g) k = bind_act p (\<lambda>a. bind_act (g a) k)"
  by (induction p rule: act_induct) (auto simp: fun_eq_iff map_prod_def case_prod_beta)

section \<open>A DELETE removes what a later PUT has stored\<close>

text \<open>The program of a deletion after its statement.\<close>

definition after_delete :: "lib \<Rightarrow> request \<Rightarrow> uuid \<Rightarrow> uuid \<Rightarrow> response act" where
  "after_delete L r u f =
     bind_act (call (DeleteS3Object (issue_key L f (rq_path r ''id'')))) (\<lambda>_.
     bind_act (finish_act L r ''delete_issue'' (rq_path r ''id'' @ ''.md'') (issue_key L f (rq_path r ''id''))
         (rq_header r ''If-Match'') ''''
         (\<lambda>ts. enc_IssueChangedEvent
            \<lparr>ic_folderId = uuid_String L f, ic_issueId = rq_path r ''id'', ic_op = ''deleted'', ic_etag = None,
             ic_actor = uuid_String L u, ic_ts = ts\<rparr>) u f) (\<lambda>_.
     Ret no_content))"

lemma allowed_cong:
  "users d' = users d \<Longrightarrow> project_members d' = project_members d \<Longrightarrow> allowed L r role d' u f \<longleftrightarrow> allowed L r role d u f"
  by (cases "lookup_by u_id u (users d)") (simp_all add: allowed_def rank_in_def user_ids_def)

lemma allowed_files: "allowed L r role (d\<lparr>files := fs\<rparr>) u f \<longleftrightarrow> allowed L r role d u f"
  by (rule allowed_cong) simp_all

lemma DeleteFile_hits:
  "db_call (file_stmt (Remove f path m)) w = (Inr 1, w1) \<Longrightarrow> act_steps (DeleteFile_act f path m k) w (k (Inr ())) w1"
  unfolding DeleteFile_act_def by (erule act_steps.commit) (simp add: act_steps.here)

lemma delete_up_to_statement:
  assumes ok: "db_ok (db w)" and calm: "fates w = []" and al: "allowed L r ''editor'' (db w) u f" and id: "issueIDPattern_MatchString (rq_path r ''id'')"
    and m: "rq_header r ''If-Match'' \<noteq> ''''" "tag_of (db w) (f, issue_path r) = Some (rq_header r ''If-Match'')"
  shows "\<exists>fs. act_steps (write_act L (DeleteIssue r)) w (after_delete L r u f) (w\<lparr>db := (db w)\<lparr>files := fs\<rparr>\<rparr>) \<and>
    db_ok ((db w)\<lparr>files := fs\<rparr>) \<and> tag_of ((db w)\<lparr>files := fs\<rparr>) = (tag_of (db w))((f, issue_path r) := None)"
proof -
  obtain res d where stmt: "delete_file f (issue_path r) (rq_header r ''If-Match'') (clock w) (db w) = (res, d)" by fastforce
  have res: "res = Inr 1" using file_of_delete_file(1)[OF ok stmt] m(2) by (simp add: tag_of_def)
  obtain fs where fs: "d = (db w)\<lparr>files := fs\<rparr>" using stmt by (auto simp: delete_file_def Let_def)
  have call: "db_call (file_stmt (Remove f (issue_path r) (rq_header r ''If-Match''))) w = (Inr 1, w\<lparr>db := d\<rparr>)"
    using stmt res calm by (simp add: db_call_Done)
  have "act_steps (write_act L (DeleteIssue r)) w (after_delete L r u f) (w\<lparr>db := d\<rparr>)"
    unfolding write_act.simps DeleteIssue_act_def
    by (rule run_guarded_steps [OF calm al])
      (use id m(1) DeleteFile_hits [OF call, of "case_sum _ (\<lambda>_. after_delete L r u f)"] in
        \<open>simp_all add: bad_id_def issue_path_def after_delete_def\<close>)
  moreover have "db_ok d" using keeps_ok_delete_file ok stmt unfolding keeps_ok_def by (metis snd_conv)
  moreover have "tag_of d = (tag_of (db w))((f, issue_path r) := None)"
    using file_of_delete_file(2)[OF ok stmt] res by (intro tag_of_update) auto
  ultimately show ?thesis using fs by blast
qed

lemma after_delete_effect:
  assumes "fates w = []" and "run_act (after_delete L r u f) w = (resp, w')"
  shows "resp = no_content" "s3 w' = (s3 w)(issue_key L f (rq_path r ''id'') := None)" "tag_of (db w') = tag_of (db w)"
proof -
  let ?w1 = "snd (DeleteS3Object (issue_key L f (rq_path r ''id'')) w)"
  have "resp = no_content" and w': "w' = finish L r ''delete_issue'' (rq_path r ''id'' @ ''.md'') (issue_key L f (rq_path r ''id''))
         (rq_header r ''If-Match'') '''' (\<lambda>ts. enc_IssueChangedEvent
            \<lparr>ic_folderId = uuid_String L f, ic_issueId = rq_path r ''id'', ic_op = ''deleted'', ic_etag = None,
             ic_actor = uuid_String L u, ic_ts = ts\<rparr>) u f ?w1"
    using assms(2) by (simp_all add: after_delete_def run_finish split: prod.splits)
  then show "resp = no_content" by simp
  have "s3 ?w1 = (s3 w)(issue_key L f (rq_path r ''id'') := None)" using assms(1) by (simp add: DeleteS3Object_def s3_call_Done)
  then show "s3 w' = (s3 w)(issue_key L f (rq_path r ''id'') := None)" using finish_effect(3)[OF w'] by simp
  show "tag_of (db w') = tag_of (db w)" using logs_growD(5)[OF finish_effect(1)[OF w']] by (simp add: DeleteS3Object_frame)
qed

text \<open>C19. An accepted write can be lost to a deletion that came before it: when an editor deletes an issue and, as soon as the row is gone, another creates it again, the new object is
  removed by the first request, whose call to the bucket comes after its statement. Both are answered with a success, the row has the tag of
  the new content, and the bucket holds nothing. The run consists of the steps of these two requests alone, and no call fails.\<close>

theorem delete_race_loses_object:
  assumes "db_ok (db w)" and "fates w = []" and "issueIDPattern_MatchString issue"
    and "rq_path r ''id'' = issue" and "allowed L r ''editor'' (db w) u f"
    and "rq_header r ''If-Match'' \<noteq> ''''" and "tag_of (db w) (f, issue @ ''.md'') = Some (rq_header r ''If-Match'')"
    and "rq_path r' ''id'' = issue" and "allowed L r' ''editor'' (db w) u' f"
    and "rq_header r' ''If-None-Match'' = ''*''" and "rq_body_eof r'" and "length (rq_body r') \<le> maxBodySize"
  shows "\<exists>tr c. conc_run L (idle w) tr c \<and> Other \<notin> set tr \<and> Arrive 0 (DeleteIssue r) \<in> set tr \<and> Arrive 1 (PutIssue r') \<in> set tr \<and>
    Answer 0 no_content \<in> set tr \<and> Answer 1 (writeETagJSON 200 (computeETag (rq_body r'))) \<in> set tr \<and>
    tag_of (db (shared c)) (f, issue @ ''.md'') = Some (computeETag (rq_body r')) \<and> s3 (shared c) (issue_key L f issue) = None"
proof -
  have id: "issueIDPattern_MatchString (rq_path r ''id'')" "issueIDPattern_MatchString (rq_path r' ''id'')" using assms(3,4,8) by simp_all
  have path: "issue_path r = issue @ ''.md''" "issue_path r' = issue @ ''.md''" using assms(4,8) by (simp_all add: issue_path_def)
  obtain fs where steps: "act_steps (write_act L (DeleteIssue r)) w (after_delete L r u f) (w\<lparr>db := (db w)\<lparr>files := fs\<rparr>\<rparr>)"
    and ok1: "db_ok ((db w)\<lparr>files := fs\<rparr>)"
    and tag1: "tag_of ((db w)\<lparr>files := fs\<rparr>) = (tag_of (db w))((f, issue @ ''.md'') := None)"
    using delete_up_to_statement [OF assms(1,2,5) id(1) assms(6)] assms(7) unfolding path by blast
  let ?w1 = "w\<lparr>db := (db w)\<lparr>files := fs\<rparr>\<rparr>"
  obtain row where "file_of (db w) f (issue @ ''.md'') = Some row" using assms(7) by (auto simp: tag_of_def)
  then have "row \<in> set (files (db w))" "f_project_id row = f" by (auto simp: file_of_def file_key_def dest!: lookup_by_Some)
  then have proj: "f \<in> project_ids (db ?w1)" using db_ok_filesD(2)[OF assms(1)] by (auto simp: project_ids_def)
  have al': "allowed L r' ''editor'' (db ?w1) u' f" using assms(9) by (simp add: allowed_files)
  obtain resp w2 where put: "PutIssueHandler L r' ?w1 = (resp, w2)" by fastforce
  have "fst (PutIssueHandler L r' ?w1) = writeETagJSON 200 (computeETag (rq_body r'))"
    by (rule put_issue.completes [OF _ _ al' proj])
      (use ok1 assms(2,10-12) id path tag1 in \<open>simp_all add: bad_id_def match_etag_def expected_tag_def\<close>)
  then have resp: "resp = writeETagJSON 200 (computeETag (rq_body r'))" using put by simp
  then have "rs_status resp \<in> {200, 201}" by (simp add: writeETagJSON_def)
  from put_issue.accepted [OF _ put this] ok1 obtain u2 f2 where
    acc: "allowed L r' ''editor'' (db ?w1) u2 f2" "tag_of (db w2) = (tag_of (db ?w1))((f2, issue_path r') := Some (computeETag (rq_body r')))" by auto
  have f2: "f2 = f" using acc(1) al' by (simp add: allowed_def)
  have calm2: "fates w2 = []" using write_handle_fates [of L "PutIssue r'" ?w1 resp w2] put assms(2) by simp
  obtain resp0 w3 where rest: "run_act (after_delete L r u f) w2 = (resp0, w3)" by fastforce
  note fin = after_delete_effect [OF calm2 rest]
  obtain tr c where "conc_run L (idle w) tr c" "shared c = w3" "Arrive 0 (DeleteIssue r) \<in> set tr" "Arrive 1 (PutIssue r') \<in> set tr"
    "Answer 0 resp0 \<in> set tr" "Answer 1 resp \<in> set tr" "Other \<notin> set tr"
    using overtaken [OF steps _ rest, of "PutIssue r'" resp] put by auto
  with fin resp acc(2) f2 path assms(4) show ?thesis by (intro exI [of _ tr] exI [of _ c]) auto
qed


theorem delete_race_loses_object_witness:
  "\<exists>tr c. conc_run sample_lib (idle world_with_issue) tr c \<and> Other \<notin> set tr \<and> Answer 0 no_content \<in> set tr \<and>
     tag_of (db (shared c)) (7, ''0001.md'') = Some (computeETag ''b'') \<and> s3 (shared c) (issue_key sample_lib 7 ''0001'') = None"
proof -
  have db: "db world_with_issue = sample_db\<lparr>files := [\<lparr>f_project_id = 7, f_path = ''0001.md'', f_etag = computeETag ''a'',
     f_size = 1, f_content_type = markdown, f_modified_at = 0, f_modified_by = 2\<rparr>]\<rparr>" "fates world_with_issue = []"
    by (simp_all add: world_with_issue_def)
  have tag: "tag_of (db world_with_issue) (7, ''0001.md'') = Some (computeETag ''a'')"
    unfolding db by (simp add: tag_of_def file_of_def file_key_def)
  let ?r = "sample_request 2 ''0001'' [(''If-None-Match'', ''*'')] ''b''"
  have "\<exists>tr c. conc_run sample_lib (idle world_with_issue) tr c \<and> Other \<notin> set tr \<and> Arrive 0 (DeleteIssue sample_delete) \<in> set tr \<and> Arrive 1 (PutIssue ?r) \<in> set tr \<and>
    Answer 0 no_content \<in> set tr \<and> Answer 1 (writeETagJSON 200 (computeETag (rq_body ?r))) \<in> set tr \<and>
    tag_of (db (shared c)) (7, ''0001'' @ ''.md'') = Some (computeETag (rq_body ?r)) \<and> s3 (shared c) (issue_key sample_lib 7 ''0001'') = None"
    by (rule delete_race_loses_object [OF world_with_issue_ok, where u = 2 and u' = 2])
      (use tag in \<open>simp_all add: db allowed_files sample_delete_def sample_editor computeETag_ne_Nil issueIDPattern_MatchString_def is_digit_def maxBodySize_def\<close>)
  then show ?thesis by auto
qed

section \<open>A refused POST replaces the object of the one that won\<close>

text \<open>An upload for a path that has got a row in the meantime.\<close>

lemma store_file_late:
  assumes "fates w = []" and "tag_of (db w) (f, path) \<noteq> None"
    and "run_act (store_file_act L r action path key ct conflict status before ev u f '''' body) w = (resp, w')"
  shows "resp = writeError 409 conflict" "db w' = db w" "s3 w' = (s3 w)(key \<mapsto> stored body ct)"
proof -
  let ?w1 = "w\<lparr>s3 := (s3 w)(key \<mapsto> stored body ct)\<rparr>"
  have put: "PutObject key body ct (computeETag body) w = (Inr (), ?w1)"
    using assms(1) by (simp add: PutObject_def s3_call_Done stored_def)
  have "UpsertFile f path (computeETag body) (int (length body)) ct u '''' ?w1 = (Inl ErrETagConflict, ?w1)"
    using assms(1,2) by (simp add: UpsertFile_def db_call_Done insert_file_def tag_of_def)
  with put assms(3) have "resp = writeError 409 conflict \<and> w' = ?w1"
    by (simp add: run_store_file store_file_def)
  then show "resp = writeError 409 conflict" "db w' = db w" "s3 w' = (s3 w)(key \<mapsto> stored body ct)" by simp_all
qed

lemma FileExists_absent: "fates w = [] \<Longrightarrow> tag_of (db w) (f, path) = None \<Longrightarrow> FileExists f path w = (Inr ('''', False), w)"
  by (simp add: FileExists_def db_call_query_Done tag_of_def)

text \<open>The event of a POST.\<close>

definition posted_event :: "lib \<Rightarrow> uuid \<Rightarrow> uuid \<Rightarrow> string \<Rightarrow> string \<Rightarrow> string \<Rightarrow> json" where
  "posted_event L u f issue etag ts = enc_IssueChangedEvent
     \<lparr>ic_folderId = uuid_String L f, ic_issueId = issue, ic_op = ''created'', ic_etag = Some etag,
      ic_actor = uuid_String L u, ic_ts = ts\<rparr>"

lemma post_up_to_upload:
  assumes calm: "fates w = []" and al: "allowed L r ''editor'' (db w) u f" and req: "post_request L r = Some req"
    and id: "issueIDPattern_MatchString (pr_id req)" and none: "tag_of (db w) (f, pr_id req @ ''.md'') = None"
  shows "act_steps (write_act L (PostIssue r)) w
    (store_file_act L r ''post_issue'' (pr_id req @ ''.md'') (issue_key L f (pr_id req)) markdown ''issue already exists'' 201 ''''
       (posted_event L u f (pr_id req)) u f '''' (pr_body req)) w"
  unfolding write_act.simps PostIssue_act_def
  by (rule run_guarded_steps [OF calm al refl])
    (use req id in \<open>simp add: post_request_def posted_event_def [abs_def]
      act_steps_past [OF run_call [of "FileExists f (pr_id req @ ''.md'')" w, unfolded FileExists_absent [OF calm none]]] act_steps.here\<close>)

lemma post_completes:
  assumes ok: "db_ok (db w)" and calm: "fates w = []" and al: "allowed L r ''editor'' (db w) u f" and req: "post_request L r = Some req"
    and id: "issueIDPattern_MatchString (pr_id req)" and none: "tag_of (db w) (f, pr_id req @ ''.md'') = None"
    and proj: "f \<in> project_ids (db w)"
  shows "fst (PostIssueHandler L r w) = writeETagJSON 201 (computeETag (pr_body req))"
proof -
  have u: "u \<in> user_ids (db w)" using al by (simp add: allowed_def)
  show ?thesis
    using store_file_succeeds [OF ok calm _ proj u, of "pr_id req @ ''.md''" "''''"] none req id
    by (simp add: PostIssueHandler_eq guarded_passes [OF calm al] FileExists_absent [OF calm none] post_request_def expected_tag_def)
qed

text \<open>C20. The object of a POST answered 201 can be that of another POST, answered 409: when two editors create the same issue, both may see that it does not exist; the one whose
  insert comes second has uploaded its text after the other and is refused, and its text stays under the tag of the other.
  The run consists of the steps of these two requests alone, and no call fails.\<close>

theorem post_race_keeps_refused_object:
  assumes "db_ok (db w)" and "fates w = []" and "issueIDPattern_MatchString issue" and "tag_of (db w) (f, issue @ ''.md'') = None"
    and "f \<in> project_ids (db w)"
    and "post_request L r = Some \<lparr>pr_id = issue, pr_body = body\<rparr>" and "allowed L r ''editor'' (db w) u f"
    and "post_request L r' = Some \<lparr>pr_id = issue, pr_body = body'\<rparr>" and "allowed L r' ''editor'' (db w) u' f"
  shows "\<exists>tr c. conc_run L (idle w) tr c \<and> Other \<notin> set tr \<and> Arrive 0 (PostIssue r) \<in> set tr \<and> Arrive 1 (PostIssue r') \<in> set tr \<and>
    Answer 0 (writeError 409 ''issue already exists'') \<in> set tr \<and> Answer 1 (writeETagJSON 201 (computeETag body')) \<in> set tr \<and>
    tag_of (db (shared c)) (f, issue @ ''.md'') = Some (computeETag body') \<and>
    s3 (shared c) (issue_key L f issue) = Some (stored body markdown)"
proof -
  let ?path = "issue @ ''.md''"
  let ?rest = "store_file_act L r ''post_issue'' ?path (issue_key L f issue) markdown ''issue already exists'' 201 ''''
     (posted_event L u f issue) u f '''' body"
  have steps: "act_steps (write_act L (PostIssue r)) w ?rest w"
    using post_up_to_upload [OF assms(2,7,6)] assms(3,4) by simp
  obtain resp w2 where post: "PostIssueHandler L r' w = (resp, w2)" by fastforce
  have "fst (PostIssueHandler L r' w) = writeETagJSON 201 (computeETag body')"
    using post_completes [OF assms(1,2,9,8)] assms(3-5) by simp
  then have resp: "resp = writeETagJSON 201 (computeETag body')" using post by simp
  then have "rs_status resp = 201" by (simp add: writeETagJSON_def)
  from PostIssueHandler_created [OF assms(1) post this] obtain u2 f2 where
    made: "allowed L r' ''editor'' (db w) u2 f2" "tag_of (db w2) = (tag_of (db w))((f2, ?path) := Some (computeETag body'))"
    using assms(8) by auto
  have f2: "f2 = f" using made(1) assms(9) by (simp add: allowed_def)
  have calm2: "fates w2 = []" using write_handle_fates [of L "PostIssue r'" w resp w2] post assms(2) by simp
  obtain resp0 w3 where rest: "run_act ?rest w2 = (resp0, w3)" by fastforce
  have "tag_of (db w2) (f, ?path) \<noteq> None" using made(2) f2 by simp
  note fin = store_file_late [OF calm2 this rest]
  obtain tr c where "conc_run L (idle w) tr c" "shared c = w3" "Arrive 0 (PostIssue r) \<in> set tr" "Arrive 1 (PostIssue r') \<in> set tr"
    "Answer 0 resp0 \<in> set tr" "Answer 1 resp \<in> set tr" "Other \<notin> set tr"
    using overtaken [OF steps _ rest, of "PostIssue r'" resp] post by auto
  with fin resp made(2) f2 show ?thesis by (intro exI [of _ tr] exI [of _ c]) auto
qed

theorem post_race_keeps_refused_object_witness:
  "\<exists>tr c. conc_run sample_lib (idle plain_world) tr c \<and> Other \<notin> set tr \<and> Answer 1 (writeETagJSON 201 (computeETag ''won'')) \<in> set tr \<and>
     s3 (shared c) (issue_key sample_lib 7 ''0002'') = Some (stored ''lost'' markdown)"
proof -
  have req: "post_request sample_lib (sample_request 2 '''' [] b) = Some \<lparr>pr_id = ''0002'', pr_body = b\<rparr>" for b
    by (simp add: post_request_def dec_postIssueRequest_def wire_dec)
  have "\<exists>tr c. conc_run sample_lib (idle plain_world) tr c \<and> Other \<notin> set tr \<and> Arrive 0 (PostIssue (sample_request 2 '''' [] ''lost'')) \<in> set tr \<and>
    Arrive 1 (PostIssue (sample_request 2 '''' [] ''won'')) \<in> set tr \<and> Answer 0 (writeError 409 ''issue already exists'') \<in> set tr \<and>
    Answer 1 (writeETagJSON 201 (computeETag ''won'')) \<in> set tr \<and> tag_of (db (shared c)) (7, ''0002'' @ ''.md'') = Some (computeETag ''won'') \<and>
    s3 (shared c) (issue_key sample_lib 7 ''0002'') = Some (stored ''lost'' markdown)"
    by (rule post_race_keeps_refused_object [where u = 2 and u' = 2])
      (simp_all add: req sample_editor issueIDPattern_MatchString_def is_digit_def tag_of_def file_of_def)
  then show ?thesis by auto
qed


section \<open>Events in the wrong order\<close>

text \<open>What is left of \<open>fanOutEvent\<close> once it has seen that there is a hub.\<close>

definition publish :: "lib \<Rightarrow> uuid \<Rightarrow> uuid \<Rightarrow> json \<Rightarrow> response \<Rightarrow> response act" where
  "publish L f u p resp =
     bind_act (bind_act (call (AppendEvent f u p)) (\<lambda>_.
       call (\<lambda>w. ((), w\<lparr>the_hub := map_option (\<lambda>h. hub_Broadcast h (uuid_String L f) p) (the_hub w)\<rparr>)))) (\<lambda>_. Ret resp)"

lemma publish_effect:
  assumes "fates w = []" and "f \<in> project_ids (db w)" and "u \<in> user_ids (db w)" and "run_act (publish L f u p resp) w = (resp', w')"
  shows "resp' = resp" "events (db w') = events (db w) @ [event_entry p u f w]" "tag_of (db w') = tag_of (db w)"
  using assms by (auto simp: publish_def AppendEvent_def db_call_Done insert_event_def event_entry_def tag_of_def file_of_def fun_eq_iff)

text \<open>Up to there, the request has written the object, the row and the audit log.\<close>

definition stored_state :: "world \<Rightarrow> uuid \<Rightarrow> string \<Rightarrow> string \<Rightarrow> world \<Rightarrow> bool" where
  "stored_state w f path etag w1 \<longleftrightarrow> files_step (db w) (db w1) \<and> tag_of (db w1) = (tag_of (db w))((f, path) := Some etag) \<and>
     the_hub w1 = the_hub w \<and> clock w1 = clock w \<and> fates w1 = [] \<and> events (db w1) = events (db w)"

lemma finish_up_to_event:
  assumes "fates w = []" and "the_hub w \<noteq> None" and "db_ok (db w)"
  shows "\<exists>w1. act_steps (bind_act (finish_act L r action path key before after ev u f) (\<lambda>_. Ret resp)) w
       (publish L f u (ev (nowTS L w)) resp) w1 \<and>
     logs_grow (db w) (db w1) \<and> db_ok (db w1) \<and> the_hub w1 = the_hub w \<and> clock w1 = clock w \<and> fates w1 = [] \<and> events (db w1) = events (db w)"
proof -
  let ?w0 = "cache_drop key w"
  obtain x w1 where a: "WriteAuditLog L u action (uuid_String L f) path before after (clientIP r) (userAgent r) ?w0 = (x, w1)" by fastforce
  then have w1: "w1 = snd (WriteAuditLog L u action (uuid_String L f) path before after (clientIP r) (userAgent r) ?w0)" by simp
  note eff = WriteAuditLog_effect [OF w1]
  have ev0: "events (db w1) = events (db ?w0)"
    unfolding w1 by (simp add: WriteAuditLog_def Let_def db_call_Done assms(1) cache_drop_def insert_audit_def split: option.splits)
  have f1: "fates w1 = []" unfolding w1 by (rule no_fates.audits) (simp add: cache_drop_def assms(1))
  have "act_steps (fanOutEvent_act L f u p) w1
      (bind_act (call (AppendEvent f u p)) (\<lambda>_. call (\<lambda>w. ((), w\<lparr>the_hub := map_option (\<lambda>h. hub_Broadcast h (uuid_String L f) p) (the_hub w)\<rparr>)))) w1" for p
    unfolding fanOutEvent_act_def
    by (rule act_steps_past [where a = False and ?w1.0 = w1]) (use assms(2) eff(5) in \<open>simp_all add: cache_drop_def act_steps.here\<close>)
  from act_steps_bind [OF this, where k = "\<lambda>_. Ret resp"]
  have hub: "act_steps (bind_act (fanOutEvent_act L f u p) (\<lambda>_. Ret resp)) w1 (publish L f u p resp) w1" for p
    by (simp add: publish_def)
  have now: "nowTS L w1 = nowTS L w" using eff(6) by (simp add: nowTS_def cache_drop_def)
  have "act_steps (bind_act (finish_act L r action path key before after ev u f) (\<lambda>_. Ret resp)) w (publish L f u (ev (nowTS L w)) resp) w1"
    unfolding finish_act_def bind_assoc
    by (rule act_steps_past [where a = "()" and ?w1.0 = ?w0], simp, rule act_steps_past [where a = x and ?w1.0 = w1], simp add: a,
        rule act_steps_past [where a = "nowTS L w" and ?w1.0 = w1], simp add: now, rule hub)
  then show ?thesis
    using eff ev0 f1 assms(3) by (intro exI [of _ w1]) (simp add: cache_drop_def)
qed


lemma store_up_to_event:
  assumes ok: "db_ok (db w)" and calm: "fates w = []" and hub: "the_hub w \<noteq> None" and tag: "tag_of (db w) (f, path) = expected_tag m"
    and f: "f \<in> project_ids (db w)" and u: "u \<in> user_ids (db w)"
  shows "\<exists>w1. act_steps (store_file_act L r action path key ct conflict status before ev u f m body) w
       (publish L f u (ev (computeETag body) (nowTS L w)) (writeETagJSON status (computeETag body))) w1 \<and>
     stored_state w f path (computeETag body) w1"
proof -
  let ?etag = "computeETag body"
  let ?fo = "Upsert f path ?etag (int (length body)) ct u m"
  obtain wa where put: "PutObject key body ct ?etag w = (Inr (), wa)"
    and wa: "fates wa = []" "db wa = db w" "the_hub wa = the_hub w" "clock wa = clock w"
    using calm by (simp add: PutObject_def s3_call_Done)
  obtain d where stmt: "upsert_stmt f path ?etag (int (length body)) ct u m (clock wa) (db wa) = (Inr 1, d)"
    using upsert_stmt_succeeds [OF ok tag f u] wa(2) by (metis prod.collapse)
  then have commit: "db_call (file_stmt ?fo) wa = (Inr 1, wa\<lparr>db := d\<rparr>)" using wa(1) by (simp add: db_call_Done)
  let ?wb = "wa\<lparr>db := d\<rparr>"
  note eff = file_stmt_effect [OF _ commit, unfolded wa(2), OF ok]
  have tags: "tag_of d = (tag_of (db w))((f, path) := Some ?etag)" using eff(3) by (simp add: stmt_accepted_def)
  obtain fs where fs: "d = (db w)\<lparr>files := fs\<rparr>" using upsert_stmt_files [of f path ?etag "int (length body)" ct u m "clock wa" "db wa"] stmt wa(2) by auto
  have "fates ?wb = []" "the_hub ?wb \<noteq> None" "db_ok (db ?wb)" using wa hub eff(1) by simp_all
  from finish_up_to_event [OF this, of L r action path key before ?etag "ev ?etag" u f "writeETagJSON status ?etag"] obtain w1 where
    w1: "act_steps (bind_act (finish_act L r action path key before ?etag (ev ?etag) u f) (\<lambda>_. Ret (writeETagJSON status ?etag))) ?wb
      (publish L f u (ev ?etag (nowTS L ?wb)) (writeETagJSON status ?etag)) w1"
    "logs_grow d (db w1)" "db_ok (db w1)" "the_hub w1 = the_hub wa" "clock w1 = clock wa" "fates w1 = []" "events (db w1) = events d"
    by auto
  have now: "nowTS L ?wb = nowTS L w" using wa by (simp add: nowTS_def)
  have "act_steps (store_file_act L r action path key ct conflict status before ev u f m body) w
      (publish L f u (ev ?etag (nowTS L w)) (writeETagJSON status ?etag)) w1"
    unfolding store_file_act_def
    by (rule act_steps_past [where a = "Inr ()" and ?w1.0 = wa], simp add: put, simp, rule act_steps.commit [OF commit])
      (use w1(1) in \<open>simp add: upsert_result_def now\<close>)
  moreover have "files_step (db w) (db w1)" using w1(2,3) fs by (auto simp: files_step_def)
  ultimately show ?thesis
    using w1 wa fs tags logs_growD(5)[OF w1(2)] by (intro exI [of _ w1]) (simp add: stored_state_def)
qed

text \<open>A PUT of an issue that is in order: its precondition holds of the given tag.\<close>

definition good_put :: "lib \<Rightarrow> request \<Rightarrow> string \<Rightarrow> string option \<Rightarrow> bool" where
  "good_put L r issue t \<longleftrightarrow> rq_path r ''id'' = issue \<and> issueIDPattern_MatchString issue \<and> rq_body_eof r \<and>
     length (rq_body r) \<le> maxBodySize \<and> (rq_header r ''If-None-Match'' = ''*'' \<or> rq_header r ''If-Match'' \<noteq> '''') \<and>
     t = expected_tag (match_etag r)"

lemma put_up_to_event:
  assumes ok: "db_ok (db w)" and calm: "fates w = []" and hub: "the_hub w \<noteq> None" and al: "allowed L r ''editor'' (db w) u f"
    and good: "good_put L r issue (tag_of (db w) (f, issue @ ''.md''))" and f: "f \<in> project_ids (db w)"
  shows "\<exists>w1. act_steps (write_act L (PutIssue r)) w
       (publish L f u (issue_event L r f u (rq_header r ''If-None-Match'' = ''*'') (computeETag (rq_body r)) (nowTS L w))
          (writeETagJSON 200 (computeETag (rq_body r)))) w1 \<and>
     stored_state w f (issue @ ''.md'') (computeETag (rq_body r)) w1"
proof -
  let ?path = "issue @ ''.md''" and ?ev = "issue_event L r f u (rq_header r ''If-None-Match'' = ''*'')"
  let ?store = "\<lambda>body old. store_file_act L r ''put_issue'' ?path (issue_key L f issue) markdown ''etag conflict'' 200 (old_etag old) ?ev u f
      (match_etag r) body"
  let ?put = "put_file_act L r ''put_issue'' ?path (\<lambda>f. issue_key L f issue) (\<lambda>_. markdown) (\<lambda>_. 200) (issue_event L r)"
  have g: "rq_path r ''id'' = issue" "bad_id r = None" "run_act (call (readBody r)) w = (Inr (rq_body r), w)"
    "\<not> (rq_header r ''If-None-Match'' \<noteq> ''*'' \<and> rq_header r ''If-Match'' = '''')"
    "tag_of (db w) (f, ?path) = expected_tag (match_etag r)"
    using good by (auto simp: good_put_def bad_id_def readBody_def)
  have u: "u \<in> user_ids (db w)" using al by (simp add: allowed_def)
  obtain x where x: "FileExists f ?path w = (x, w)" using FileExists_Done [OF calm] by blast
  have m: "(if rq_header r ''If-None-Match'' \<noteq> ''*'' then rq_header r ''If-Match'' else '''') = match_etag r" by (simp add: match_etag_def)
  obtain w1 rest where rest: "rest = publish L f u (?ev (computeETag (rq_body r)) (nowTS L w)) (writeETagJSON 200 (computeETag (rq_body r)))"
    and w1: "act_steps (?store (rq_body r) x) w rest w1" "stored_state w f ?path (computeETag (rq_body r)) w1"
    using store_up_to_event [OF ok calm hub g(5) f u, of L r "''put_issue''" "issue_key L f issue" markdown "''etag conflict''" 200 "old_etag x"
      ?ev "rq_body r"] by blast
  have "act_steps (bind_act (call (FileExists f ?path)) (?store (rq_body r))) w rest w1"
    by (rule act_steps_past [where a = x and ?w1.0 = w]) (simp_all add: x w1(1))
  then have "act_steps (or_ret (call (readBody r)) (\<lambda>body. bind_act (call (FileExists f ?path)) (?store body))) w rest w1"
    by (rule act_steps_or_ret [OF g(3)])
  then have "act_steps (?put u f) w rest w1"
    using g(4) unfolding put_file_act_def Let_def m by auto
  from run_guarded_steps [OF calm al g(2), of ?put, OF this] w1(2)
  show ?thesis unfolding rest by (auto simp: PutIssue_act_def g(1) issue_event_def [abs_def])
qed

text \<open>C21. Events can be recorded and sent in an order that is not the order of the writes: an editor's PUT stores its row and is overtaken, before its event is appended, by a second PUT that is
  conditioned on the first one's tag. Both are answered 200, the file has the second one's tag, but the log, and with it every replay, ends with the event that announces the first
  one's. The run consists of the steps of these two requests alone, and no call fails.\<close>

theorem events_out_of_order:
  assumes "db_ok (db w)" and "fates w = []" and "the_hub w \<noteq> None" and "uuid_laws L" and "f \<in> project_ids (db w)"
    and "allowed L r ''editor'' (db w) u f" and "good_put L r issue (tag_of (db w) (f, issue @ ''.md''))"
    and "allowed L r' ''editor'' (db w) u' f" and "good_put L r' issue (Some (computeETag (rq_body r)))"
  shows "\<exists>tr c e e'. conc_run L (idle w) tr c \<and> Other \<notin> set tr \<and> Arrive 0 (PutIssue r) \<in> set tr \<and> Arrive 1 (PutIssue r') \<in> set tr \<and>
    Answer 0 (writeETagJSON 200 (computeETag (rq_body r))) \<in> set tr \<and> Answer 1 (writeETagJSON 200 (computeETag (rq_body r'))) \<in> set tr \<and>
    tag_of (db (shared c)) (f, issue @ ''.md'') = Some (computeETag (rq_body r')) \<and> events (db (shared c)) = events (db w) @ [e', e] \<and>
    ev_payload e' = issue_event L r' f u' (rq_header r' ''If-None-Match'' = ''*'') (computeETag (rq_body r')) (nowTS L w) \<and>
    ev_payload e = issue_event L r f u (rq_header r ''If-None-Match'' = ''*'') (computeETag (rq_body r)) (nowTS L w)"
proof -
  let ?path = "issue @ ''.md''" and ?A = "computeETag (rq_body r)" and ?B = "computeETag (rq_body r')"
  let ?p = "issue_event L r f u (rq_header r ''If-None-Match'' = ''*'') ?A (nowTS L w)"
  obtain w1 where steps: "act_steps (write_act L (PutIssue r)) w (publish L f u ?p (writeETagJSON 200 ?A)) w1"
    and w1: "stored_state w f ?path ?A w1"
    using put_up_to_event [OF assms(1-3,6,7,5)] by blast
  have same: "users (db w1) = users (db w)" "projects (db w1) = projects (db w)" "project_members (db w1) = project_members (db w)" "db_ok (db w1)"
    using w1 files_step_users by (auto simp: stored_state_def files_step_def)
  have al': "allowed L r' ''editor'' (db w1) u' f" using assms(8) same allowed_cong by blast
  have f1: "f \<in> project_ids (db w1)" using assms(5) same by (simp add: project_ids_def)
  have g: "rq_path r' ''id'' = issue" "bad_id r' = None" "rq_body_eof r'" "length (rq_body r') \<le> maxBodySize"
    "rq_header r' ''If-None-Match'' = ''*'' \<or> rq_header r' ''If-Match'' \<noteq> ''''" "tag_of (db w1) (f, issue_path r') = expected_tag (match_etag r')"
    using assms(9) w1 by (auto simp: good_put_def stored_state_def bad_id_def issue_path_def)
  have calm1: "fates w1 = []" using w1 by (simp add: stored_state_def)
  obtain resp w2 where put: "PutIssueHandler L r' w1 = (resp, w2)" by fastforce
  have resp: "resp = writeETagJSON 200 ?B" using put_issue.completes [OF same(4) calm1 al' f1 g(2-6)] put by simp
  then have st: "rs_status resp \<in> {200, 201}" by (simp add: writeETagJSON_def)
  obtain u2 f2 where logs: "allowed L r' ''editor'' (db w1) u2 f2"
    "events (db w2) = events (db w) @ [event_entry (issue_event L r' f2 u2 (rq_header r' ''If-None-Match'' = ''*'') ?B (nowTS L w1)) u2 f2 w1]"
    using put_issue.accepted_logs [OF same(4) put st calm1 assms(4)] w1 assms(3) by (auto simp: stored_state_def)
  have who: "u2 = u'" "f2 = f" using logs(1) al' by (simp_all add: allowed_def)
  have now: "nowTS L w1 = nowTS L w" using w1 by (simp add: stored_state_def nowTS_def)
  have acc: "tag_of (db w2) = (tag_of (db w1))((f, ?path) := Some ?B)" "files_step (db w1) (db w2)"
    using put_issue.accepted [OF same(4) put st] al' g(1) by (auto simp: allowed_def issue_path_def)
  have in2: "f \<in> project_ids (db w2)" "u \<in> user_ids (db w2)"
    using files_step_users [OF acc(2)] f1 assms(6) same by (simp_all add: project_ids_def user_ids_def allowed_def)
  have calm2: "fates w2 = []" using write_handle_fates [of L "PutIssue r'" w1 resp w2] put calm1 by simp
  obtain resp0 w3 where rest: "run_act (publish L f u ?p (writeETagJSON 200 ?A)) w2 = (resp0, w3)" by fastforce
  note fin = publish_effect [OF calm2 in2 rest]
  obtain tr c where "conc_run L (idle w) tr c" "shared c = w3" "Arrive 0 (PutIssue r) \<in> set tr" "Arrive 1 (PutIssue r') \<in> set tr"
    "Answer 0 resp0 \<in> set tr" "Answer 1 resp \<in> set tr" "Other \<notin> set tr"
    using overtaken [OF steps _ rest, of "PutIssue r'" resp] put by auto
  with fin resp acc(1) logs(2) w1 show ?thesis
    by (intro exI [of _ tr] exI [of _ c] exI conjI) (auto simp: event_entry_def who now stored_state_def)
qed


theorem events_out_of_order_witness:
  "\<exists>tr c e e'. conc_run sample_lib (idle sample_world) tr c \<and> Other \<notin> set tr \<and> tag_of (db (shared c)) (7, ''0001.md'') = Some (computeETag ''b'') \<and>
     events (db (shared c)) = [e', e] \<and>
     ev_payload e = issue_event sample_lib (sample_request 2 ''0001'' [(''If-None-Match'', ''*'')] ''a'') 7 2 True (computeETag ''a'') (nowTS sample_lib sample_world)"
proof -
  let ?r = "sample_request 2 ''0001'' [(''If-None-Match'', ''*'')] ''a''"
  let ?r' = "sample_request 2 ''0001'' [(''If-Match'', computeETag ''a'')] ''b''"
  have "good_put sample_lib ?r ''0001'' (tag_of (db sample_world) (7, ''0001'' @ ''.md''))" "good_put sample_lib ?r' ''0001'' (Some (computeETag (rq_body ?r)))"
    by (simp_all add: good_put_def issueIDPattern_MatchString_def is_digit_def maxBodySize_def tag_of_def file_of_def expected_tag_def match_etag_def
        computeETag_ne_Nil)
  from events_out_of_order [OF _ _ _ sample_lib_laws _ _ this(1) _ this(2), of 2 2]
  obtain tr c e e' where "conc_run sample_lib (idle sample_world) tr c" "Other \<notin> set tr"
    "tag_of (db (shared c)) (7, ''0001'' @ ''.md'') = Some (computeETag (rq_body ?r'))"
    "events (db (shared c)) = events (db sample_world) @ [e', e]"
    "ev_payload e = issue_event sample_lib ?r 7 2 (rq_header ?r ''If-None-Match'' = ''*'') (computeETag (rq_body ?r)) (nowTS sample_lib sample_world)"
    using sample_editor by auto
  then show ?thesis by auto
qed

end
