(* ===== verification/Process.thy ===== *)
theory Process
  imports System Races
begin

text \<open>
  The running process without the assumption that write requests are atomic: the steps of \<open>System\<close> together with the
  single calls of any number of write requests on their way (\<open>Concurrency\<close>). The steps of \<open>System\<close> that run a whole write handler are left out; by
  \<open>process_covers_server\<close> nothing else is, and they are the runs in which nobody interferes.

  A step is labelled with the event it is: the arrival, calls, statement and answer of a write request, or \<open>Other\<close> for everything else. The labels of a
  run, in their order, are its trace.

  Shown: the steps keep the invariant of the server, and every run of the process is a run of \<open>Concurrency\<close> with the same trace, in which the rest of the server only does what
  \<open>others\<close> allows, so that linearizability holds of the answers that the process gave.
\<close>

inductive process_step :: "deps \<Rightarrow> ceremonies \<times> conc \<Rightarrow> event \<Rightarrow> ceremonies \<times> conc \<Rightarrow> bool" for D where
  server: "server_step D (wa, shared c) (wa', w) \<Longrightarrow> files (db w) = files (db (shared c)) \<Longrightarrow>
    process_step D (wa, c) Other (wa', c\<lparr>shared := w\<rparr>)"
| request: "the_hub (shared c) = Some h \<Longrightarrow> \<not> h_crashed h \<Longrightarrow> conc_step (d_lib D) c e c' \<Longrightarrow> e \<noteq> Other \<Longrightarrow>
    process_step D (wa, c) e (wa, c')"

inductive process_run :: "deps \<Rightarrow> ceremonies \<times> conc \<Rightarrow> event list \<Rightarrow> ceremonies \<times> conc \<Rightarrow> bool" for D s0 where
  start: "process_run D s0 [] s0"
| snoc: "process_run D s0 tr s \<Longrightarrow> process_step D s e s' \<Longrightarrow> process_run D s0 (tr @ [e]) s'"

lemma process_covers_server:
  assumes "server_step D (wa, shared c) (wa', w)"
  shows "process_step D (wa, c) Other (wa', c\<lparr>shared := w\<rparr>) \<or>
    (\<exists>oper resp. run_act (write_act (d_lib D) oper) (shared c) = (resp, w))"
  using server_step_files [OF assms] process_step.server [OF assms] by (auto simp: programs_implement_handlers)

text \<open>The calls of a write request keep what is in the memory in order.\<close>

interpretation memory: call_invariant mem_ok
proof
  fix w assume "mem_ok w"
  then show "mem_ok (snd (next_fate w))"
    using next_fate_keeps(3,4) [OF prod.collapse [symmetric], of w] by (simp add: mem_ok_def)
next
  fix w L u act proj path before after ip ua assume "mem_ok w"
  then show "mem_ok (snd (WriteAuditLog L u act proj path before after ip ua w))"
    unfolding WriteAuditLog_def Let_def by (rule db_call_mem_ok [OF prod.collapse [symmetric]])
next
  fix w f u p assume "mem_ok w"
  then show "mem_ok (snd (AppendEvent f u p w))"
    unfolding AppendEvent_def by (rule db_call_mem_ok [OF prod.collapse [symmetric]])
next
  fix w and g :: "(string \<rightharpoonup> object) \<Rightarrow> (err + unit) \<times> (string \<rightharpoonup> object)" assume "mem_ok w"
  then show "mem_ok (snd (s3_call g w))" by (rule s3_call_mem [OF prod.collapse [symmetric]])
next
  fix w key assume "mem_ok w"
  then show "mem_ok (cache_drop key w)" by (auto simp: mem_ok_def cache_drop_def lru_Delete_idle)
next
  fix w pid p assume "mem_ok w"
  then show "mem_ok (w\<lparr>the_hub := map_option (\<lambda>h. hub_Broadcast h pid p) (the_hub w)\<rparr>)"
    by (auto simp: mem_ok_def hub_live_publish)
qed

definition process_inv :: "ceremonies \<times> conc \<Rightarrow> bool" where
  "process_inv s \<longleftrightarrow> server_inv (fst s, shared (snd s)) \<and>
     (\<forall>oper a. Some (oper, a) \<in> set (pool (snd s)) \<longrightarrow> keeps mem_ok a \<and> calm a)"

lemma process_inv_update:
  assumes "\<And>oper a. Some (oper, a) \<in> set ps \<Longrightarrow> keeps mem_ok a \<and> calm a" and "keeps mem_ok b" "calm b" and "db_ok (db w)" "mem_ok w"
  shows "process_inv (wa, c\<lparr>pool := ps[p := Some (oper, b)], shared := w\<rparr>)"
  using assms set_update_subset_insert [of ps p "Some (oper, b)"] server_inv_mem(2) [of w wa]
  unfolding process_inv_def by auto

lemma process_request_inv:
  assumes "conc_step (d_lib D) c e c'" and inv: "process_inv (wa, c)" and hub: "the_hub (shared c) = Some h" "\<not> h_crashed h" and "e \<noteq> Other"
  shows "process_inv (wa, c')"
proof -
  have s: "db_ok (db (shared c))" "mem_ok (shared c)" using inv server_inv_mem(1) [OF _ hub] by (auto simp: process_inv_def)
  have acts: "\<And>oper a. Some (oper, a) \<in> set (pool c) \<Longrightarrow> keeps mem_ok a \<and> calm a" using inv by (auto simp: process_inv_def)
  show ?thesis
    using assms(1)
  proof cases
    case (arrive oper)
    then show ?thesis using inv memory.write_act_keeps write_act_calm by (auto simp: process_inv_def)
  next
    case (tick p oper f a w)
    then have "keeps mem_ok (Call f) \<and> calm (Call f)" using acts nth_mem by metis
    then have f: "mem_ok (snd (f (shared c)))" "keeps mem_ok (fst (f (shared c)))" "calm_step f" "calm (fst (f (shared c)))"
      using s(2) by auto
    from f(3) s(1) have "db_ok (db (snd (f (shared c))))" by (simp add: calm_step_def)
    with f tick show ?thesis using process_inv_update [OF acts] by simp
  next
    case (stmt p oper fo k res w)
    then have "keeps mem_ok (Commit fo k) \<and> calm (Commit fo k)" using acts nth_mem by metis
    moreover have "db_ok (db w)" by (rule file_stmt_effect(1) [OF s(1) stmt(5)])
    moreover have "mem_ok w" by (rule db_call_mem_ok [OF stmt(5) s(2)])
    ultimately show ?thesis using process_inv_update [OF acts] stmt by simp
  next
    case (answer p oper resp)
    then show ?thesis using inv set_update_subset_insert [of "pool c" p None] by (auto simp: process_inv_def)
  qed (use assms(5) in simp)
qed

interpretation process: invariant_system "\<lambda>s s'. \<exists>e. process_step D s e s'" process_inv for D
proof
  fix s s' assume "\<exists>e. process_step D s e s'" and inv: "process_inv s"
  then obtain e where "process_step D s e s'" by blast
  then show "process_inv s'"
  proof cases
    case (server wa c wa' w)
    have "server_inv (wa', w)" using server_step_inv [OF server(4)] inv server(1) by (simp add: process_inv_def)
    then show ?thesis using inv server(1,3) by (simp add: process_inv_def)
  next
    case (request c h c' wa)
    then show ?thesis using process_request_inv inv by blast
  qed
qed

text \<open>A run of the process is a run of \<open>Concurrency\<close> with its trace.\<close>

lemma process_run_conc:
  assumes "process_run D (wa, idle w) tr s" and "server_inv (wa, w)"
  shows "process_inv s \<and> conc_run (d_lib D) (idle w) tr (snd s)"
  using assms(1)
proof (induction rule: process_run.induct)
  case start
  then show ?case using assms(2) conc_run.start by (auto simp: process_inv_def)
next
  case (snoc tr s e s')
  have inv: "process_inv s'" using process.step_inv [of D s s'] snoc by blast
  from snoc.hyps(2) have "conc_step (d_lib D) (snd s) e (snd s')"
  proof cases
    case (server wb b wb' v)
    have "others (shared b) v"
      using inv server snoc.IH tag_of_files [of "db v" "db (shared b)"] by (simp add: others_def process_inv_def server_inv_def)
    then show ?thesis using server conc_step.other by simp
  qed simp
  with inv snoc.IH conc_run.snoc show ?case by blast
qed

end
