(* ===== verification/Lifecycle.thy ===== *)
theory Lifecycle
  imports Startup
begin

text \<open>
  The end of \<open>main\<close> in \<^verbatim>\<open>cmd/issued/main.go\<close>: the HTTP server it configures, the goroutine in which it listens, the wait for a signal, the
  graceful shutdown and the deferred \<open>pool.Close()\<close>. \<open>http.Server\<close> is the standard library's: \<open>Shutdown\<close> closes the listener, so that \<open>ListenAndServe\<close> returns \<open>ErrServerClosed\<close>, which the goroutine
  ignores, and returns when no connection is active any more or its context has expired. Hijacked connections, that is the WebSockets, are not waited for. \<open>Close\<close> of the pool is the one of pgxpool: it
  hands out no more connections and waits until all of them have been returned; the context of \<open>main\<close> is cancelled only after it.

  Shown: once asked to stop the process accepts no further request; 30 seconds later at the latest it stops waiting for requests and closes the pool, and it ends, with status 0, when every connection of
  the pool has been returned, so that a query that never returns keeps the process from ending; status 1 means that the listener failed before any signal.
\<close>

record http_Server =
  srv_Addr :: string
  srv_ReadTimeout :: time
  srv_WriteTimeout :: time
  srv_IdleTimeout :: time

definition main_srv :: http_Server where
  "main_srv = \<lparr>srv_Addr = ''127.0.0.1:8080'', srv_ReadTimeout = 30 * 1000000, srv_WriteTimeout = 60 * 1000000,
     srv_IdleTimeout = 120 * 1000000\<rparr>"

definition shutdownTimeout :: time where "shutdownTimeout = 30 * 1000000"

datatype signal = SIGINT | SIGTERM

text \<open>Waiting for \<open>quit\<close>; inside \<open>Shutdown\<close>, with the expiry of its context; inside the deferred \<open>pool.Close()\<close>; ended, with the status.\<close>

datatype phase = Serving | ShuttingDown time | ClosingPool | Exited nat

text \<open>The requests in flight, and the connections that handlers and other goroutines have taken from the pool.\<close>

record life =
  lf_phase :: phase
  lf_now :: time
  lf_active :: nat
  lf_conns :: nat

datatype life_event =
    Elapse nat
  | Accepted
  | Finished
  | Acquired
  | Released
  | ListenFailed
  | Received signal
  | Polled

definition main_serve :: "time \<Rightarrow> life" where
  "main_serve now = \<lparr>lf_phase = Serving, lf_now = now, lf_active = 0, lf_conns = 0\<rparr>"

fun exited :: "phase \<Rightarrow> bool" where
  "exited (Exited n) \<longleftrightarrow> True"
| "exited _ \<longleftrightarrow> False"

text \<open>\<open>Polled\<close> is a look of \<open>Shutdown\<close> at its connections and its context, or of \<open>Close\<close> at the pool. A signal during the shutdown stays in the buffer of \<open>quit\<close>, which nobody reads again.\<close>

fun life_step :: "life_event \<Rightarrow> life \<Rightarrow> life" where
  "life_step (Elapse n) l = l\<lparr>lf_now := lf_now l + int n\<rparr>"
| "life_step Accepted l = (if lf_phase l = Serving then l\<lparr>lf_active := lf_active l + 1\<rparr> else l)"
| "life_step Finished l = (if exited (lf_phase l) then l else l\<lparr>lf_active := lf_active l - 1\<rparr>)"
| "life_step Acquired l = (if exited (lf_phase l) \<or> lf_phase l = ClosingPool then l else l\<lparr>lf_conns := lf_conns l + 1\<rparr>)"
| "life_step Released l = (if exited (lf_phase l) then l else l\<lparr>lf_conns := lf_conns l - 1\<rparr>)"
| "life_step ListenFailed l = (if lf_phase l = Serving then l\<lparr>lf_phase := Exited 1\<rparr> else l)"
| "life_step (Received s) l = (if lf_phase l = Serving then l\<lparr>lf_phase := ShuttingDown (lf_now l + shutdownTimeout)\<rparr> else l)"
| "life_step Polled l =
     (case lf_phase l of
        ShuttingDown d \<Rightarrow> if lf_active l = 0 \<or> d \<le> lf_now l then l\<lparr>lf_phase := ClosingPool\<rparr> else l
      | ClosingPool \<Rightarrow> if lf_conns l = 0 then l\<lparr>lf_phase := Exited 0\<rparr> else l
      | _ \<Rightarrow> l)"

definition life_run :: "life_event list \<Rightarrow> life \<Rightarrow> life" where
  "life_run es l = fold life_step es l"

lemma life_run_simps [simp]: "life_run [] l = l" "life_run (e # es) l = life_run es (life_step e l)" "life_run (es @ fs) l = life_run fs (life_run es l)"
  by (simp_all add: life_run_def)

text \<open>The phases after the signal: the pool is closed when no request is in flight or the time is up, and the process ends when no connection is out.\<close>

definition stopping :: "time \<Rightarrow> nat \<Rightarrow> life \<Rightarrow> bool" where
  "stopping d k l \<longleftrightarrow> lf_active l \<le> k \<and>
     (lf_phase l = ShuttingDown d \<or> (lf_phase l = ClosingPool \<or> lf_phase l = Exited 0 \<and> lf_conns l = 0) \<and> (lf_active l = 0 \<or> d \<le> lf_now l))"

lemma stopping_step: "stopping d k l \<Longrightarrow> stopping d k (life_step e l)"
  by (cases e) (auto simp: stopping_def split: if_splits)
lemma stopping_run: "stopping d k l \<Longrightarrow> stopping d k (life_run es l)"
  by (induction es arbitrary: l) (auto simp: stopping_step)

text \<open>Status 1 comes from a failed listener only.\<close>

lemma exit_status:
  "lf_phase (life_run es (main_serve t)) = Exited n \<Longrightarrow>
     n = 0 \<and> (\<exists>s. Received s \<in> set es) \<or> n = 1 \<and> ListenFailed \<in> set es"
proof (induction es arbitrary: n rule: rev_induct)
  case (snoc e es)
  let ?l = "life_run es (main_serve t)"
  have sig: "(\<exists>d. lf_phase ?l = ShuttingDown d) \<or> lf_phase ?l = ClosingPool \<Longrightarrow> \<exists>s. Received s \<in> set es"
  proof (induction es rule: rev_induct)
    case (snoc e es)
    then show ?case by (cases e) (auto split: if_splits phase.splits)
  qed (simp add: main_serve_def)
  show ?case using snoc.prems snoc.IH [of n] sig by (cases e) (auto split: if_splits phase.splits)
qed (simp add: main_serve_def)

text \<open>The shutdown: when a signal finds the process serving, then whatever happens afterwards no further request is accepted; when 30 seconds have passed the next
  look of \<open>Shutdown\<close> goes on to close the pool; the pool is closed earlier only if no request is in flight any more; and the process ends with status 0 and when no connection is out.\<close>

lemma shutdown_phases:
  assumes "lf_phase l = Serving"
  shows "(let l1 = life_step (Received s) l; l2 = life_run es l1 in
     lf_active l2 \<le> lf_active l \<and>
     (lf_now l + 30000000 \<le> lf_now l2 \<longrightarrow> lf_phase (life_step Polled l2) = ClosingPool \<or> lf_phase (life_step Polled l2) = Exited 0) \<and>
     (lf_phase l2 = ClosingPool \<and> lf_now l2 < lf_now l + 30000000 \<longrightarrow> lf_active l2 = 0) \<and>
     (lf_phase l2 = Exited n \<longrightarrow> n = 0 \<and> lf_conns l2 = 0))"
proof -
  have "stopping (lf_now l + 30000000) (lf_active l) (life_step (Received s) l)"
    using assms by (simp add: stopping_def shutdownTimeout_def)
  from stopping_run [OF this, of es] show ?thesis by (auto simp: Let_def stopping_def)
qed

text \<open>The bound of 30 seconds is not one for the process: a connection that is out and is not returned keeps it from ending, however long.\<close>

lemma held_connection_blocks_exit:
  assumes "lf_phase l = Serving" "0 < lf_conns l" and "Released \<notin> set es" "ListenFailed \<notin> set es"
  shows "\<not> exited (lf_phase (life_run es l)) \<and> 0 < lf_conns (life_run es l)"
proof -
  have "\<not> exited (lf_phase (life_run es l)) \<and> 0 < lf_conns (life_run es l)"
    if "\<not> exited (lf_phase l) \<and> 0 < lf_conns l" "Released \<notin> set es" "ListenFailed \<notin> set es" for l
    using that
  proof (induction es arbitrary: l)
    case (Cons e es)
    have "\<not> exited (lf_phase (life_step e l)) \<and> 0 < lf_conns (life_step e l)"
      using Cons.prems by (cases e) (auto split: phase.splits)
    then show ?case using Cons by simp
  qed simp
  then show ?thesis using assms by simp
qed

end
