(* ===== verification/Connection.thy ===== *)
theory Connection
  imports Hub
begin

text \<open>
  One WebSocket connection in time: the two loops of \<^verbatim>\<open>internal/ws/handler.go\<close> with what \<open>Hub\<close> leaves out, the read deadline that the pong handler sets, the ticker that
  sends pings, the write deadlines, failing reads and writes, and the closing of the connection by either loop.

  The socket is the library's; its part is what the rules of \<open>conn_step\<close> allow: \<open>ReadMessage\<close> returns a message, calls the pong handler, or fails, at any time
  when the peer or the network makes it, and at the latest for good once the read deadline has passed; \<open>WriteMessage\<close> succeeds or fails, and fails on a closed connection. Everybody else
  moves the hub by its own steps. what the loops did is recorded in \<open>cn_pongs\<close> (the newest first) and \<open>cn_writes\<close>.

  Shown: a connection is a part of the hub (each of its steps is one of the hub's or none), and what goes over the wire is what the hub put into the client's channel, in order; the read deadline is
  40 seconds after the last pong, so a client that answers every ping within ten seconds is never timed out; and neither is one that has never answered any.
\<close>

section \<open>The state of a connection\<close>

definition pingInterval :: time where "pingInterval = 30 * 1000000"

definition pongDeadline :: time where "pongDeadline = 10 * 1000000"

definition writeDeadline :: time where "writeDeadline = 10 * 1000000"

datatype out_frame = TextMessage json | PingMessage | CloseMessage

record conn =
  cn_hub :: hub
  cn_now :: time
  cn_readDeadline :: "time option"
  cn_ticker :: time
  cn_reading :: bool
  cn_writing :: bool
  cn_closed :: bool
  cn_timed_out :: bool
  cn_pongs :: "time list"
  cn_writes :: "(out_frame \<times> time) list"

section \<open>The loops\<close>

text \<open>\<open>Handler\<close> after the upgrade, and what both loops do before their first round: no read deadline, a ticker that fires every 30 seconds.\<close>

definition conn_open :: "hub \<Rightarrow> string \<Rightarrow> time \<Rightarrow> conn" where
  "conn_open h uid now =
     \<lparr>cn_hub = ws_connect h uid, cn_now = now, cn_readDeadline = None, cn_ticker = now + pingInterval, cn_reading = True, cn_writing = True,
      cn_closed = False, cn_timed_out = False, cn_pongs = [], cn_writes = []\<rparr>"

text \<open>The function given to \<open>SetPongHandler\<close>.\<close>

definition pong_handler :: "conn \<Rightarrow> conn" where
  "pong_handler c = c\<lparr>cn_readDeadline := Some (cn_now c + (pingInterval + pongDeadline)), cn_pongs := cn_now c # cn_pongs c\<rparr>"

text \<open>\<open>ReadMessage\<close> returned an error: the deferred function of \<open>readLoop\<close>.\<close>

definition read_error :: "nat \<Rightarrow> conn \<Rightarrow> conn" where
  "read_error i c = c\<lparr>cn_hub := readLoop_exit (cn_hub c) i, cn_reading := False, cn_closed := True\<rparr>"

text \<open>\<open>ReadMessage\<close> returned a message; a panic in the body runs the deferred function as well.\<close>

definition read_message :: "nat \<Rightarrow> json option \<Rightarrow> conn \<Rightarrow> conn" where
  "read_message i msg c =
     (let h = readLoop_msg (cn_hub c) i msg
      in if c_reading (h_heap h i) then c\<lparr>cn_hub := h\<rparr> else c\<lparr>cn_hub := h, cn_reading := False, cn_closed := True\<rparr>)"

text \<open>\<open>SetWriteDeadline\<close> and \<open>WriteMessage\<close>, with the result of the latter; after an error \<open>writeLoop\<close> returns, which closes the connection.\<close>

definition write_message :: "out_frame \<Rightarrow> bool \<Rightarrow> conn \<Rightarrow> conn" where
  "write_message f ok c =
     (if ok then c\<lparr>cn_writes := cn_writes c @ [(f, cn_now c + writeDeadline)]\<rparr>
      else c\<lparr>cn_writing := False, cn_closed := True\<rparr>)"

text \<open>\<^verbatim>\<open>case payload, ok := <-c.send\<close>; a closed channel is received from once its buffer is empty.\<close>

definition write_payload :: "nat \<Rightarrow> bool \<Rightarrow> conn \<Rightarrow> conn" where
  "write_payload i ok c =
     (case c_send (h_heap (cn_hub c) i) of
        p # _ \<Rightarrow> write_message (TextMessage p) ok (c\<lparr>cn_hub := writeLoop_step (cn_hub c) i\<rparr>)
      | [] \<Rightarrow> (write_message CloseMessage ok c)\<lparr>cn_writing := False, cn_closed := True\<rparr>)"

text \<open>\<^verbatim>\<open>case <-ticker.C\<close>; ticks that a slow receiver misses are dropped.\<close>

definition write_ping :: "bool \<Rightarrow> conn \<Rightarrow> conn" where
  "write_ping ok c =
     write_message PingMessage ok
       (c\<lparr>cn_ticker := cn_ticker c + pingInterval * ((cn_now c - cn_ticker c) div pingInterval + 1)\<rparr>)"

section \<open>A connection among the goroutines\<close>

text \<open>What the others do to the hub leaves the three fields of the client alone that only its own loops change.\<close>

definition elsewhere :: "nat \<Rightarrow> hub \<Rightarrow> hub \<Rightarrow> bool" where
  "elsewhere i h h' \<longleftrightarrow> hub_step h h' \<and> c_reading (h_heap h' i) = c_reading (h_heap h i) \<and>
     c_subs (h_heap h' i) = c_subs (h_heap h i) \<and> c_out (h_heap h' i) = c_out (h_heap h i)"

definition may_read :: "conn \<Rightarrow> bool" where
  "may_read c \<longleftrightarrow> cn_reading c \<and> \<not> cn_closed c \<and> (case cn_readDeadline c of None \<Rightarrow> True | Some d \<Rightarrow> cn_now c < d)"

inductive conn_step :: "nat \<Rightarrow> conn \<Rightarrow> conn \<Rightarrow> bool" for i where
  time_passes: "0 \<le> d \<Longrightarrow> conn_step i c (c\<lparr>cn_now := cn_now c + d\<rparr>)"
| others: "elsewhere i (cn_hub c) h \<Longrightarrow> conn_step i c (c\<lparr>cn_hub := h\<rparr>)"
| pong: "may_read c \<Longrightarrow> conn_step i c (pong_handler c)"
| message: "\<not> h_crashed (cn_hub c) \<Longrightarrow> may_read c \<Longrightarrow> conn_step i c (read_message i msg c)"
| broken: "\<not> h_crashed (cn_hub c) \<Longrightarrow> cn_reading c \<Longrightarrow> conn_step i c (read_error i c)"
| timeout: "\<not> h_crashed (cn_hub c) \<Longrightarrow> cn_reading c \<Longrightarrow> cn_readDeadline c = Some d \<Longrightarrow> d \<le> cn_now c \<Longrightarrow>
    conn_step i c ((read_error i c)\<lparr>cn_timed_out := True\<rparr>)"
| payload: "\<not> h_crashed (cn_hub c) \<Longrightarrow> cn_writing c \<Longrightarrow> c_send (h_heap (cn_hub c) i) \<noteq> [] \<or> c_closed (h_heap (cn_hub c) i) \<Longrightarrow>
    (cn_closed c \<Longrightarrow> \<not> ok) \<Longrightarrow> conn_step i c (write_payload i ok c)"
| ping: "cn_writing c \<Longrightarrow> cn_ticker c \<le> cn_now c \<Longrightarrow> (cn_closed c \<Longrightarrow> \<not> ok) \<Longrightarrow> conn_step i c (write_ping ok c)"

inductive conn_reachable :: "nat \<Rightarrow> conn \<Rightarrow> conn \<Rightarrow> bool" for i c0 where
  start: "conn_reachable i c0 c0"
| step: "conn_reachable i c0 c \<Longrightarrow> conn_step i c c' \<Longrightarrow> conn_reachable i c0 c'"


section \<open>A connection is a part of the hub\<close>

lemma h_next_steps [simp]:
  "h_next (upd_client i f h) = h_next h" "h_next (drop_client i h) = h_next h" "h_next (run_register h) = h_next h"
  "h_next (run_unregister h) = h_next h" "h_next (deliver pid p i h) = h_next h" "h_next (notify_revoked pid uid i h) = h_next h"
  "h_next (readLoop_exit h i) = h_next h" "h_next (readLoop_msg h i msg) = h_next h" "h_next (writeLoop_step h i) = h_next h"
  "h_next (replay_step h n) = h_next h"
proof -
  show u: "h_next (upd_client i f h) = h_next h" for i f h by (simp add: upd_client_def)
  have s: "h_next (snd (try_send h i p)) = h_next h" for i p h by (simp add: try_send_def u)
  show d: "h_next (drop_client i h) = h_next h" for i h by (simp add: drop_client_def u)
  show "h_next (run_register h) = h_next h" by (simp add: run_register_def split: list.splits)
  show n: "h_next (run_unregister h) = h_next h" for h by (simp add: run_unregister_def d split: list.splits)
  show x: "h_next (readLoop_exit h i) = h_next h" for h by (simp add: readLoop_exit_def u n Let_def)
  show "h_next (deliver pid p i h) = h_next h" "h_next (notify_revoked pid uid i h) = h_next h"
    by (auto simp: deliver_def notify_revoked_def try_send_def u d split: prod.splits send_result.splits)
  show "h_next (readLoop_msg h i msg) = h_next h"
    by (auto simp: readLoop_msg_def try_send_def u x Let_def split: option.splits prod.splits send_result.splits)
  show "h_next (writeLoop_step h i) = h_next h" by (simp add: writeLoop_step_def u split: list.splits)
  show "h_next (replay_step h n) = h_next h"
    by (auto simp: replay_step_def try_send_def u split: prod.splits send_result.splits list.splits)
qed

lemma h_next_fold [simp]:
  "h_next (fold (deliver pid p) xs h) = h_next h" "h_next (fold (notify_revoked pid uid) xs h) = h_next h"
  by (induction xs arbitrary: h) simp_all

lemma h_next_step: "hub_step h h' \<Longrightarrow> h_next h \<le> h_next h'"
  by (cases rule: hub_step.cases)
     (auto simp: run_broadcast_def ws_connect_def hub_Broadcast_def BroadcastAccessRevoked_def Let_def split: list.splits)

text \<open>What the loops of a client do to its own object.\<close>

lemma drop_client_heap:
  "c_out (h_heap (drop_client j h) i) = c_out (h_heap h i)" "c_reading (h_heap (drop_client j h) i) = c_reading (h_heap h i)"
  by (simp_all add: drop_client_def upd_client_def)

lemma readLoop_exit_client:
  "c_out (h_heap (readLoop_exit h i) i) = c_out (h_heap h i)" "\<not> c_reading (h_heap (readLoop_exit h i) i)"
  by (auto simp: readLoop_exit_def run_unregister_def drop_client_heap upd_client_def Let_def split: list.splits)

lemma readLoop_msg_client: "c_out (h_heap (readLoop_msg h i msg) i) = c_out (h_heap h i)"
  by (auto simp: readLoop_msg_def try_send_def upd_client_def readLoop_exit_client Let_def split: option.splits prod.splits send_result.splits if_splits)

lemma writeLoop_step_client:
  "c_out (h_heap (writeLoop_step h i) i) = c_out (h_heap h i) @ take 1 (c_send (h_heap h i))"
  "c_reading (h_heap (writeLoop_step h i) i) = c_reading (h_heap h i)"
  by (auto simp: writeLoop_step_def upd_client_def split: list.splits)

lemma ws_connect_client:
  "h_heap (ws_connect h uid) (h_next h) = new_client uid" "h_next (ws_connect h uid) = Suc (h_next h)"
  by (auto simp: ws_connect_def run_register_def Let_def split: list.splits)

definition texts :: "(out_frame \<times> time) list \<Rightarrow> json list" where
  "texts ws = List.map_filter (\<lambda>(f, _). case f of TextMessage p \<Rightarrow> Some p | _ \<Rightarrow> None) ws"

lemma texts_simps [simp]: "texts [] = []" "texts (xs @ ys) = texts xs @ texts ys" "texts [(TextMessage p, d)] = [p]"
  "texts [(PingMessage, d)] = []" "texts [(CloseMessage, d)] = []"
  by (simp_all add: texts_def List.map_filter_def)

definition wire_ok :: "nat \<Rightarrow> conn \<Rightarrow> bool" where
  "wire_ok i c \<longleftrightarrow> (\<exists>lost. c_out (h_heap (cn_hub c) i) = texts (cn_writes c) @ lost \<and> length lost \<le> 1 \<and> (cn_writing c \<longrightarrow> lost = [])) \<and>
     CloseMessage \<notin> fst ` set (butlast (cn_writes c)) \<and> (cn_writing c \<longrightarrow> CloseMessage \<notin> fst ` set (cn_writes c))"

definition conn_inv :: "nat \<Rightarrow> conn \<Rightarrow> bool" where
  "conn_inv i c \<longleftrightarrow> hub_reachable (cn_hub c) \<and> i < h_next (cn_hub c) \<and> (cn_reading c \<longrightarrow> c_reading (h_heap (cn_hub c) i)) \<and> wire_ok i c"

lemma conn_open_inv:
  assumes "hub_reachable h" "\<not> h_crashed h"
  shows "conn_inv (h_next h) (conn_open h uid t)"
proof -
  have "hub_reachable (ws_connect h uid)" by (rule hub_reachable.step [OF assms(1) hub_step.connect [OF assms(2)]])
  then show ?thesis
    by (simp add: conn_inv_def conn_open_def wire_ok_def ws_connect_client new_client_def)
qed

lemma conn_step_inv:
  assumes "conn_step i c c'" "conn_inv i c"
  shows "conn_inv i c'"
  using assms(1)
proof cases
  case (others h)
  have s: "hub_step (cn_hub c) h" using others by (simp add: elsewhere_def)
  show ?thesis using others assms(2) hub_reachable.step [OF _ s] h_next_step [OF s]
    by (auto simp: conn_inv_def wire_ok_def elsewhere_def)
next
  case (message msg)
  have s: "hub_step (cn_hub c) (readLoop_msg (cn_hub c) i msg)"
    using message assms(2) by (intro hub_step.message) (auto simp: conn_inv_def may_read_def)
  then show ?thesis using message assms(2) hub_reachable.step [OF _ s]
    by (auto simp: conn_inv_def wire_ok_def read_message_def readLoop_msg_client Let_def)
next
  case broken
  have s: "hub_step (cn_hub c) (readLoop_exit (cn_hub c) i)"
    using broken assms(2) by (intro hub_step.disconnect) (auto simp: conn_inv_def)
  then show ?thesis using broken assms(2) hub_reachable.step [OF _ s]
    by (auto simp: conn_inv_def wire_ok_def read_error_def readLoop_exit_client)
next
  case (timeout d)
  have s: "hub_step (cn_hub c) (readLoop_exit (cn_hub c) i)"
    using timeout assms(2) by (intro hub_step.disconnect) (auto simp: conn_inv_def)
  then show ?thesis using timeout assms(2) hub_reachable.step [OF _ s]
    by (auto simp: conn_inv_def wire_ok_def read_error_def readLoop_exit_client)
next
  case (payload ok)
  have s: "hub_step (cn_hub c) (writeLoop_step (cn_hub c) i)"
    using payload assms(2) by (intro hub_step.write_frame) (auto simp: conn_inv_def)
  show ?thesis
  proof (cases "c_send (h_heap (cn_hub c) i)")
    case Nil
    then show ?thesis using payload assms(2)
      by (auto simp: conn_inv_def wire_ok_def write_payload_def write_message_def butlast_append)
  next
    case (Cons p ps)
    then show ?thesis using payload assms(2) hub_reachable.step [OF _ s]
      by (auto simp: conn_inv_def wire_ok_def write_payload_def write_message_def butlast_append writeLoop_step_client)
  qed
next
  case (ping ok)
  then show ?thesis using assms(2)
    by (auto simp: conn_inv_def wire_ok_def write_ping_def write_message_def butlast_append)
qed (use assms(2) in \<open>auto simp: conn_inv_def wire_ok_def pong_handler_def\<close>)

lemma conn_reachable_inv: "conn_reachable i c0 c \<Longrightarrow> conn_inv i c0 \<Longrightarrow> conn_inv i c"
  by (induction rule: conn_reachable.induct) (auto intro: conn_step_inv)


section \<open>The read deadline\<close>

definition deadline_ok :: "conn \<Rightarrow> bool" where
  "deadline_ok c \<longleftrightarrow> cn_readDeadline c = (case cn_pongs c of [] \<Rightarrow> None | p # _ \<Rightarrow> Some (p + 40000000)) \<and>
     (\<forall>p \<in> set (cn_pongs c). p \<le> hd (cn_pongs c)) \<and> (\<forall>p \<in> set (cn_pongs c). p \<le> cn_now c) \<and>
     (cn_timed_out c \<longrightarrow> \<not> cn_reading c \<and> cn_pongs c \<noteq> [] \<and> hd (cn_pongs c) + 40000000 \<le> cn_now c)"

lemma write_message_simps [simp]:
  "cn_hub (write_message f ok c) = cn_hub c" "cn_now (write_message f ok c) = cn_now c"
  "cn_readDeadline (write_message f ok c) = cn_readDeadline c" "cn_reading (write_message f ok c) = cn_reading c"
  "cn_timed_out (write_message f ok c) = cn_timed_out c" "cn_pongs (write_message f ok c) = cn_pongs c" "cn_ticker (write_message f ok c) = cn_ticker c"
  by (simp_all add: write_message_def)

lemma deadline_step: "conn_step i c c' \<Longrightarrow> deadline_ok c \<Longrightarrow> deadline_ok c'"
proof (induction rule: conn_step.induct)
  case (payload c ok)
  then show ?case by (auto simp: deadline_ok_def write_payload_def split: list.splits)
next
  case (pong c)
  then show ?case
    by (auto simp: deadline_ok_def pong_handler_def pingInterval_def pongDeadline_def may_read_def split: list.splits)
qed (auto simp: deadline_ok_def read_error_def read_message_def write_ping_def Let_def split: list.splits)

lemma deadline_open: "deadline_ok (conn_open h uid t)"
  by (simp add: deadline_ok_def conn_open_def)

lemma deadline_reachable: "conn_reachable i c0 c \<Longrightarrow> deadline_ok c0 \<Longrightarrow> deadline_ok c"
  by (induction rule: conn_reachable.induct) (auto intro: deadline_step)

section \<open>A client that answers\<close>

text \<open>The ticker is served when it fires, writes succeed, and every ping that is ten seconds old has been answered in time.\<close>

definition prompt :: "conn \<Rightarrow> bool" where
  "prompt c \<longleftrightarrow> cn_writing c \<and> cn_now c \<le> cn_ticker c"

definition answered :: "conn \<Rightarrow> bool" where
  "answered c \<longleftrightarrow> (\<forall>s. (PingMessage, s + writeDeadline) \<in> set (cn_writes c) \<and> s + 10000000 \<le> cn_now c \<longrightarrow>
     (\<exists>p \<in> set (cn_pongs c). s \<le> p \<and> p < s + 10000000))"

inductive conn_answering :: "nat \<Rightarrow> conn \<Rightarrow> conn \<Rightarrow> bool" for i c0 where
  start: "conn_answering i c0 c0"
| step: "conn_answering i c0 c \<Longrightarrow> conn_step i c c' \<Longrightarrow> prompt c' \<Longrightarrow> answered c' \<Longrightarrow> conn_answering i c0 c'"

text \<open>The pings so far are the ticks before the next one.\<close>

definition pinged :: "time \<Rightarrow> conn \<Rightarrow> bool" where
  "pinged t c \<longleftrightarrow> cn_writing c \<and> (\<exists>n. cn_ticker c = t + 30000000 * (int n + 1) \<and>
     (\<forall>k < n. (PingMessage, t + 30000000 * (int k + 1) + writeDeadline) \<in> set (cn_writes c))) \<and>
     (\<forall>p \<in> set (cn_pongs c). t \<le> p) \<and> t \<le> cn_now c"

lemma pinged_ping:
  assumes "pinged t c" "cn_now c = cn_ticker c"
  shows "pinged t (write_ping True c)"
proof -
  from assms(1) obtain n where n: "cn_ticker c = t + 30000000 * (int n + 1)"
    "\<forall>k < n. (PingMessage, t + 30000000 * (int k + 1) + writeDeadline) \<in> set (cn_writes c)" by (auto simp: pinged_def)
  have "cn_ticker (write_ping True c) = t + 30000000 * (int (Suc n) + 1)" using n(1) assms(2) by (simp add: write_ping_def pingInterval_def)
  moreover have "\<forall>k < Suc n. (PingMessage, t + 30000000 * (int k + 1) + writeDeadline) \<in> set (cn_writes (write_ping True c))"
    using n assms(2) by (auto simp: write_ping_def write_message_def less_Suc_eq)
  ultimately show ?thesis using assms(1)
    by (auto simp: pinged_def write_ping_def write_message_def simp del: of_nat_Suc intro!: exI [of _ "Suc n"])
qed

lemma pinged_step:
  assumes "conn_step i c c'" "pinged t c" "prompt c" "prompt c'"
  shows "pinged t c'"
  using assms(1)
proof cases
  case (ping ok)
  then have "cn_now c = cn_ticker c" "ok" using assms(3,4) by (auto simp: prompt_def write_ping_def write_message_def split: if_splits)
  then show ?thesis using pinged_ping [OF assms(2)] ping by simp
next
  case (payload ok)
  then have ok: "ok" "c_send (h_heap (cn_hub c) i) \<noteq> []" using assms(4)
    by (auto simp: prompt_def write_payload_def write_message_def split: list.splits if_splits)
  then show ?thesis using payload assms(2) by (fastforce simp: pinged_def write_payload_def write_message_def split: list.splits)
qed (use assms(2) in \<open>auto simp: pinged_def pong_handler_def read_error_def read_message_def Let_def\<close>)

lemma silence_is_answered:
  assumes "deadline_ok c" "pinged t c" "prompt c" "answered c" "cn_pongs c \<noteq> []"
  shows "cn_now c < hd (cn_pongs c) + 40000000"
proof (rule ccontr)
  let ?p = "hd (cn_pongs c)"
  assume "\<not> ?thesis"
  then have late: "?p + 40000000 \<le> cn_now c" by simp
  obtain n where n: "cn_ticker c = t + 30000000 * (int n + 1)"
    "\<And>k. k < n \<Longrightarrow> (PingMessage, t + 30000000 * (int k + 1) + writeDeadline) \<in> set (cn_writes c)" using assms(2) by (auto simp: pinged_def)
  have "t \<le> ?p" using assms(2,5) by (simp add: pinged_def)
  define k where "k = nat ((?p - t) div 30000000)"
  let ?s = "t + 30000000 * (int k + 1)"
  have "int k = (?p - t) div 30000000" using \<open>t \<le> ?p\<close> by (simp add: k_def pos_imp_zdiv_nonneg_iff)
  then have s: "?p < ?s" "?s \<le> ?p + 30000000" by presburger+
  then have "k < n" using late n(1) assms(3) by (simp add: prompt_def)
  from n(2) [OF this] have "\<exists>q \<in> set (cn_pongs c). ?s \<le> q" using assms(4) late s(2) by (fastforce simp: answered_def)
  then show False using assms(1) s(1) by (fastforce simp: deadline_ok_def)
qed

lemma answering_inv:
  assumes "conn_answering i c0 c" "c0 = conn_open h uid t"
  shows "deadline_ok c \<and> pinged t c \<and> prompt c \<and> answered c \<and> \<not> cn_timed_out c"
  using assms
proof (induction rule: conn_answering.induct)
  case start
  then have "pinged t c0 \<and> prompt c0 \<and> answered c0 \<and> \<not> cn_timed_out c0"
    by (auto simp: pinged_def prompt_def answered_def conn_open_def pingInterval_def intro!: exI [of _ 0])
  then show ?case using start deadline_open by simp
next
  case (step c c')
  then have inv: "deadline_ok c" "pinged t c" "prompt c" "answered c" "\<not> cn_timed_out c" by auto
  have "\<not> cn_timed_out c'" using step.hyps(2)
  proof cases
    case (timeout d)
    then have "cn_pongs c \<noteq> []" "d = hd (cn_pongs c) + 40000000" using inv(1) by (auto simp: deadline_ok_def split: list.splits)
    then show ?thesis using silence_is_answered [OF inv(1-4)] timeout by simp
  qed (use inv(5) in \<open>auto simp: pong_handler_def read_error_def read_message_def write_payload_def write_ping_def Let_def split: list.splits\<close>)
  then show ?case using step.hyps deadline_step [OF step.hyps(2) inv(1)] pinged_step [OF step.hyps(2) inv(2,3)] by blast
qed


section \<open>Properties\<close>

text \<open>C34. A connection in time is a part of the hub, whatever the network and the other goroutines do: the hub stays in a state that its own steps reach, and the text frames on
  the wire are, in order, what the write loop took from the client's channel, except that the last one taken may have been lost in the write that ended the loop. A close frame is
  the last frame.\<close>

theorem wire_carries_the_queue:
  assumes "hub_reachable h" and "\<not> h_crashed h" and "conn_reachable (h_next h) (conn_open h uid t) c"
  shows "hub_reachable (cn_hub c) \<and>
    (\<exists>lost. c_out (h_heap (cn_hub c) (h_next h)) = texts (cn_writes c) @ lost \<and> length lost \<le> 1 \<and> (cn_writing c \<longrightarrow> lost = [])) \<and>
    CloseMessage \<notin> fst ` set (butlast (cn_writes c))"
  using conn_reachable_inv [OF assms(3) conn_open_inv [OF assms(1,2)]] by (auto simp: conn_inv_def wire_ok_def)

text \<open>A connection that subscribes and is told so.\<close>

definition sample_subscribed :: conn where
  "sample_subscribed = write_payload 0 True (read_message 0 (subscribe_to ''f'') (conn_open NewHub ''u'' 0))"

lemma new_hub_plain: "h_next NewHub = 0" "\<not> h_crashed NewHub"
  by (simp_all add: NewHub_def)

lemma sample_subscribed_run:
  "conn_reachable 0 (conn_open NewHub ''u'' 0) sample_subscribed" "cn_writes sample_subscribed = [(TextMessage (msg_subscribed ''f''), 10000000)]"
  "cn_writing sample_subscribed"
proof -
  let ?c = "read_message 0 (subscribe_to ''f'') (conn_open NewHub ''u'' 0)"
  have c: "c_send (h_heap (cn_hub ?c) 0) = [msg_subscribed ''f'']" "\<not> h_crashed (cn_hub ?c)" "cn_writing ?c" "\<not> cn_closed ?c" "cn_writes ?c = []" "cn_now ?c = 0"
    by (simp_all add: read_message_def conn_open_def hub_eval)
  have "conn_reachable 0 (conn_open NewHub ''u'' 0) ?c"
    by (rule conn_reachable.step [OF conn_reachable.start conn_step.message])
      (simp_all add: conn_open_def may_read_def NewHub_def ws_connect_def registerBufSize_def)
  then show "conn_reachable 0 (conn_open NewHub ''u'' 0) sample_subscribed"
    unfolding sample_subscribed_def by (rule conn_reachable.step [OF _ conn_step.payload]) (simp_all add: c)
  show "cn_writes sample_subscribed = [(TextMessage (msg_subscribed ''f''), 10000000)]" "cn_writing sample_subscribed"
    using c by (simp_all add: sample_subscribed_def write_payload_def write_message_def writeLoop_step_def writeDeadline_def)
qed

theorem wire_carries_the_queue_witness:
  "cn_writes sample_subscribed = [(TextMessage (msg_subscribed ''f''), 10000000)] \<and> c_out (h_heap (cn_hub sample_subscribed) 0) = [msg_subscribed ''f'']"
  using wire_carries_the_queue [OF hub_reachable.start new_hub_plain(2), of "''u''" 0 sample_subscribed] sample_subscribed_run by (simp add: new_hub_plain)

text \<open>C35. A client that answers each ping within ten seconds is never timed out, as long as the write loop serves its ticker when it fires: the read deadline of 40 seconds after a pong is always
  replaced before it passes.\<close>

theorem answering_client_never_timed_out:
  assumes "conn_answering i (conn_open h uid t) c"
  shows "\<not> cn_timed_out c \<and> (\<forall>d. cn_readDeadline c = Some d \<longrightarrow> cn_now c < d)"
proof -
  from answering_inv [OF assms refl] have inv: "deadline_ok c" "pinged t c" "prompt c" "answered c" "\<not> cn_timed_out c" by auto
  then show ?thesis using silence_is_answered [OF inv(1-4)] by (auto simp: deadline_ok_def split: list.splits)
qed

text \<open>One ping and its answer, then 30 more seconds.\<close>

definition sample_answering :: conn where
  "sample_answering = (let c = conn_open NewHub ''u'' 0; c = c\<lparr>cn_now := cn_now c + 30000000\<rparr>; c = write_ping True c; c = pong_handler c in c\<lparr>cn_now := cn_now c + 30000000\<rparr>)"

lemma sample_answering_run: "conn_answering 0 (conn_open NewHub ''u'' 0) sample_answering"
  unfolding sample_answering_def Let_def
  by (rule conn_answering.step [OF conn_answering.step [OF conn_answering.step [OF conn_answering.step [OF conn_answering.start
        conn_step.time_passes] conn_step.ping] conn_step.pong] conn_step.time_passes])
     (auto simp: conn_open_def prompt_def answered_def may_read_def write_ping_def write_message_def pong_handler_def pingInterval_def pongDeadline_def
        writeDeadline_def)

theorem answering_client_never_timed_out_witness:
  "\<not> cn_timed_out sample_answering \<and> cn_pongs sample_answering = [30000000] \<and> cn_readDeadline sample_answering = Some 70000000 \<and> cn_now sample_answering = 60000000"
  using answering_client_never_timed_out [OF sample_answering_run]
  by (simp add: sample_answering_def Let_def conn_open_def pong_handler_def write_ping_def write_message_def pingInterval_def pongDeadline_def)

text \<open>A client that has never sent a pong is never timed out, however long ago it was last heard of: before the first pong there is no read deadline, so a peer that vanishes early keeps its
  connection, its goroutines and its place in the hub until a write fails.\<close>

theorem silent_client_never_timed_out:
  assumes "conn_reachable i (conn_open h uid t) c" and "cn_pongs c = []"
  shows "cn_readDeadline c = None \<and> \<not> cn_timed_out c"
  using deadline_reachable [OF assms(1) deadline_open] assms(2) by (auto simp: deadline_ok_def)

theorem silent_client_never_timed_out_witness:
  "\<exists>c. conn_reachable 0 (conn_open NewHub ''u'' 0) c \<and> cn_reading c \<and> cn_writing c \<and> cn_now c = 1000000000000 \<and> cn_readDeadline c = None \<and> \<not> cn_timed_out c"
proof -
  let ?c = "(conn_open NewHub ''u'' 0)\<lparr>cn_now := cn_now (conn_open NewHub ''u'' 0) + 1000000000000\<rparr>"
  have "conn_reachable 0 (conn_open NewHub ''u'' 0) ?c"
    by (rule conn_reachable.step [OF conn_reachable.start conn_step.time_passes]) simp
  from silent_client_never_timed_out [OF this] this show ?thesis by (intro exI [of _ ?c]) (simp add: conn_open_def)
qed

end
