(* ===== verification/Templates.thy ===== *)
theory Templates
  imports Admin_Console
begin

text \<open>
  The template set of the console: the part of \<open>Handler\<close> in \<^verbatim>\<open>admin/admin.go\<close> that builds it, and the files of \<^verbatim>\<open>admin/templates\<close> as far as
  the names they define and call go. A template is known by the file that holds its body, by whether that body is blank, and by the templates it calls; what else is in the HTML plays
  no part. \<open>ParseFS\<close> (the standard library's \<^verbatim>\<open>html/template\<close>) reads the files in the order of their names into one set, where a later definition of a name replaces an earlier
  one unless it is blank.

  Shown: whichever page a handler renders inside the frame, the content that is executed is that of the last file, the list of users; and the function \<open>not\<close> is false of everything that is
  not the bare nil.
\<close>

section \<open>The functions\<close>

text \<open>An argument of type \<^verbatim>\<open>interface{}\<close>: nil, or something that holds a value, which may itself be a nil pointer.\<close>

datatype 'a iface = NilInterface | Holding 'a

definition tmpl_inc :: "int \<Rightarrow> int" where "tmpl_inc i = i + 1"

definition tmpl_dec :: "int \<Rightarrow> int" where "tmpl_dec i = i - 1"

definition tmpl_not :: "'a iface \<Rightarrow> bool" where
  "tmpl_not v = (if v = NilInterface then True else False)"

section \<open>The files\<close>

record tmpl =
  tp_file :: string
  tp_blank :: bool
  tp_calls :: "string list"

type_synonym template_file = "string \<times> (string \<times> tmpl) list"

text \<open>A page calls the frame and defines its title and its content.\<close>

definition page_file :: "string \<Rightarrow> template_file" where
  "page_file name =
     (name,
      [(name, \<lparr>tp_file = name, tp_blank = False, tp_calls = [''base'']\<rparr>),
       (''title'', \<lparr>tp_file = name, tp_blank = False, tp_calls = []\<rparr>),
       (''content'', \<lparr>tp_file = name, tp_blank = False, tp_calls = []\<rparr>)])"

text \<open>The frame: two blocks, one with a text and one without. A block defines its template and calls it.\<close>

definition base_file :: template_file where
  "base_file =
     (''base.html'',
      [(''base.html'', \<lparr>tp_file = ''base.html'', tp_blank = True, tp_calls = []\<rparr>),
       (''title'', \<lparr>tp_file = ''base.html'', tp_blank = False, tp_calls = []\<rparr>),
       (''content'', \<lparr>tp_file = ''base.html'', tp_blank = True, tp_calls = []\<rparr>),
       (''base'', \<lparr>tp_file = ''base.html'', tp_blank = False, tp_calls = [''title'', ''content'']\<rparr>)])"

definition standalone_file :: "string \<Rightarrow> template_file" where
  "standalone_file name = (name, [(name, \<lparr>tp_file = name, tp_blank = False, tp_calls = []\<rparr>)])"

text \<open>The files that \<^verbatim>\<open>templates/*.html\<close> matches among the embedded ones, in the order of their names.\<close>

definition embedded_templates :: "template_file list" where
  "embedded_templates =
     [page_file ''audit.html'', base_file, page_file ''dashboard.html'', page_file ''devices.html'', standalone_file ''enroll.html'',
      page_file ''files.html'', standalone_file ''login.html'', page_file ''members.html'', page_file ''project.html'', page_file ''projects.html'',
      page_file ''sessions.html'', page_file ''user.html'', page_file ''users.html'']"

section \<open>The set\<close>

definition AddParseTree :: "string \<times> tmpl \<Rightarrow> (string \<rightharpoonup> tmpl) \<Rightarrow> (string \<rightharpoonup> tmpl)" where
  "AddParseTree nt T = (case nt of (name, t) \<Rightarrow> if T name \<noteq> None \<and> tp_blank t then T else T(name \<mapsto> t))"

definition ParseFS :: "template_file list \<Rightarrow> (string \<rightharpoonup> tmpl)" where
  "ParseFS fs = fold (\<lambda>(_, defs) T. fold AddParseTree defs T) fs Map.empty"

definition templates :: "string \<rightharpoonup> tmpl" where
  "templates = ParseFS embedded_templates"

text \<open>The template a handler names when it renders a page.\<close>

fun page_template :: "admin_page \<Rightarrow> string" where
  "page_template (LoginPage _) = ''login.html''"
| "page_template (EnrollPage _ _ _) = ''enroll.html''"
| "page_template (DashboardPage _ _ _) = ''dashboard.html''"
| "page_template (UsersPage _ _ _) = ''users.html''"
| "page_template (UserPage _) = ''user.html''"
| "page_template (ProjectsPage _ _) = ''projects.html''"
| "page_template (ProjectPage _ _) = ''project.html''"
| "page_template (MembersPage _ _ _) = ''members.html''"
| "page_template (FilesPage _ _) = ''files.html''"
| "page_template (AuditPage _ _ _ _ _) = ''audit.html''"
| "page_template (SessionsPage _) = ''sessions.html''"
| "page_template (DevicesPage _ _) = ''devices.html''"

text \<open>\<open>ExecuteTemplate\<close> runs the named template and those it calls.\<close>

inductive executes :: "(string \<rightharpoonup> tmpl) \<Rightarrow> string \<Rightarrow> tmpl \<Rightarrow> bool" for T where
  itself: "T n = Some t \<Longrightarrow> executes T n t"
| called: "T n = Some t \<Longrightarrow> m \<in> set (tp_calls t) \<Longrightarrow> executes T m u \<Longrightarrow> executes T n u"

inductive_simps executes_iff: "executes T n u"

definition framed :: "admin_page \<Rightarrow> bool" where
  "framed p \<longleftrightarrow> page_template p \<noteq> ''login.html'' \<and> page_template p \<noteq> ''enroll.html''"

section \<open>What is executed\<close>

lemma templates_found:
  "templates ''content'' = Some \<lparr>tp_file = ''users.html'', tp_blank = False, tp_calls = []\<rparr>"
  "templates ''title'' = Some \<lparr>tp_file = ''users.html'', tp_blank = False, tp_calls = []\<rparr>"
  "templates ''base'' = Some \<lparr>tp_file = ''base.html'', tp_blank = False, tp_calls = [''title'', ''content'']\<rparr>"
  by code_simp+

definition page_names :: "string list" where
  "page_names = [''audit.html'', ''dashboard.html'', ''devices.html'', ''files.html'', ''members.html'', ''project.html'', ''projects.html'', ''sessions.html'',
     ''user.html'', ''users.html'']"

lemma templates_of_pages:
  "\<forall>n \<in> set page_names. templates n = Some \<lparr>tp_file = n, tp_blank = False, tp_calls = [''base'']\<rparr>"
  "\<forall>n \<in> set [''login.html'', ''enroll.html'']. templates n = Some \<lparr>tp_file = n, tp_blank = False, tp_calls = []\<rparr>"
  by code_simp+

lemma framed_page_names: "framed p \<longleftrightarrow> page_template p \<in> set page_names" "\<not> framed p \<longleftrightarrow> page_template p \<in> set [''login.html'', ''enroll.html'']"
  by (cases p; simp add: framed_def page_names_def)+

lemma templates_page:
  "templates (page_template p) = Some \<lparr>tp_file = page_template p, tp_blank = False, tp_calls = (if framed p then [''base''] else [])\<rparr>"
proof (cases "framed p")
  case True
  from bspec [OF templates_of_pages(1) True [unfolded framed_page_names(1)]] True show ?thesis by (simp only: if_True)
next
  case False
  from bspec [OF templates_of_pages(2) False [unfolded framed_page_names(2)]] False show ?thesis by (simp only: if_False)
qed

lemma executes_call: "T n = Some t \<Longrightarrow> executes T n u \<longleftrightarrow> u = t \<or> (\<exists>m \<in> set (tp_calls t). executes T m u)"
  by (subst executes_iff) auto

lemmas executes_templates = executes_call [where T = templates]

lemma executes_users: "executes templates ''content'' u \<longleftrightarrow> u = \<lparr>tp_file = ''users.html'', tp_blank = False, tp_calls = []\<rparr>"
  "executes templates ''title'' u \<longleftrightarrow> u = \<lparr>tp_file = ''users.html'', tp_blank = False, tp_calls = []\<rparr>"
  by (simp_all only: executes_templates [OF templates_found(1)] executes_templates [OF templates_found(2)] tmpl.simps list.set bex_simps simp_thms)

lemma executes_base:
  "executes templates ''base'' u \<longleftrightarrow> u = \<lparr>tp_file = ''base.html'', tp_blank = False, tp_calls = [''title'', ''content'']\<rparr> \<or>
     u = \<lparr>tp_file = ''users.html'', tp_blank = False, tp_calls = []\<rparr>"
  by (simp only: executes_templates [OF templates_found(3)] tmpl.simps list.set bex_simps simp_thms executes_users ball_simps)

text \<open>Every page of the console but the login and the enrollment runs the frame and, for its title and its content, the definitions of \<^verbatim>\<open>users.html\<close>: those of
  its own file are never run. All the pages define the same two names in one set, and the last file read replaces the others.\<close>

theorem every_page_shows_the_users:
  "{t. executes templates (page_template p) t} =
     (if framed p then {\<lparr>tp_file = page_template p, tp_blank = False, tp_calls = [''base'']\<rparr>,
        \<lparr>tp_file = ''base.html'', tp_blank = False, tp_calls = [''title'', ''content'']\<rparr>,
        \<lparr>tp_file = ''users.html'', tp_blank = False, tp_calls = []\<rparr>}
      else {\<lparr>tp_file = page_template p, tp_blank = False, tp_calls = []\<rparr>})"
  by (cases "framed p"; rule set_eqI)
    (simp_all only: mem_Collect_eq executes_templates [OF templates_page] tmpl.simps if_True if_False list.set bex_simps simp_thms executes_base insert_iff empty_iff)

text \<open>Of a value that is not the bare nil, such as the nil pointer of a project that was never archived or \<open>false\<close>, the template function \<open>not\<close> is false.\<close>

lemma not_of_a_value: "\<not> tmpl_not (Holding None)" "\<not> tmpl_not (Holding False)"
  by (simp_all add: tmpl_not_def)

end
