(* ===== verification/Event_Ids.thy ===== *)
theory Event_Ids
  imports Write_Api Replay
begin

text \<open>
  What a client can know of the numbers of events. A replay starts after the last event the client has seen, so a client has to know the number of an event; the
  server assigns the numbers in \<open>AppendEvent\<close> (\<^verbatim>\<open>storage/queries.go\<close>), sends events in \<open>fanOutEvent\<close> (\<^verbatim>\<open>api/v1/write.go\<close>) and
  \<open>ReplayEvents\<close> (\<^verbatim>\<open>ws/replay.go\<close>), and never tells one.

  Shown: the numbers can be renamed, all of them by the same distance, and nothing that is sent changes.
\<close>

text \<open>The tables with every number of an event moved by \<open>k\<close>, the next one included.\<close>

definition shift_ids :: "int \<Rightarrow> db \<Rightarrow> db" where
  "shift_ids k d = d\<lparr>events := map (\<lambda>e. e\<lparr>ev_id := ev_id e + k\<rparr>) (events d), events_seq := events_seq d + k\<rparr>"

definition shift_world :: "int \<Rightarrow> world \<Rightarrow> world" where
  "shift_world k w = w\<lparr>db := shift_ids k (db w)\<rparr>"

lemma sort_key_map:
  assumes "\<And>x y. f (g x) \<le> f (g y) \<longleftrightarrow> f x \<le> f y"
  shows "sort_key f (map g xs) = map g (sort_key f xs)"
proof -
  have "insort_key f (g x) (map g ys) = map g (insort_key f x ys)" for x ys by (induction ys) (simp_all add: assms)
  then show ?thesis by (induction xs) (simp_all add: sort_key_def)
qed

lemma replay_rows_shift:
  "replay_rows L pid (n + k) (shift_world k w) =
     (case replay_rows L pid n w of (r, w') \<Rightarrow> (map_sum id (map (\<lambda>e. e\<lparr>ev_id := ev_id e + k\<rparr>)) r, shift_world k w'))"
proof -
  let ?g = "\<lambda>e. e\<lparr>ev_id := ev_id e + k\<rparr>"
  have eq: "take m (sort_key ev_id (filter (\<lambda>e. ev_project_id e = q \<and> n + k < ev_id e) (map ?g es))) =
      map ?g (take m (sort_key ev_id (filter (\<lambda>e. ev_project_id e = q \<and> n < ev_id e) es)))" for m q es
    by (simp add: filter_map o_def sort_key_map take_map)
  obtain ft w1 where f: "next_fate w = (ft, w1)" by fastforce
  then have w1: "db w1 = db w" "next_fate (shift_world k w) = (ft, shift_world k w1)"
    by (auto simp: next_fate_def shift_world_def split: list.splits)
  show ?thesis
    by (cases ft; cases "pg_uuid L pid")
      (simp_all add: replay_rows_def db_call_def query_def w1 f, simp_all add: shift_world_def shift_ids_def eq w1)
qed

lemma db_call_shift:
  assumes "\<And>t d. st t (shift_ids k d) = (case st t d of (r, d') \<Rightarrow> (g r, shift_ids k d'))" and "g (Inl ErrIO) = Inl ErrIO"
  shows "db_call st (shift_world k w) = (case db_call st w of (r, w') \<Rightarrow> (g r, shift_world k w'))"
proof -
  obtain ft w1 where f: "next_fate w = (ft, w1)" by fastforce
  then have w1: "next_fate (shift_world k w) = (ft, shift_world k w1)"
    by (auto simp: next_fate_def shift_world_def split: list.splits)
  have "db (shift_world k w1) = shift_ids k (db w1)" "clock (shift_world k w1) = clock w1" by (simp_all add: shift_world_def)
  with f w1 assms show ?thesis
    by (cases ft) (simp_all add: db_call_def split: prod.splits, simp_all add: shift_world_def)
qed

lemma AppendEvent_shift:
  "AppendEvent f u p (shift_world k w) = (case AppendEvent f u p w of (r, w') \<Rightarrow> (map_sum id (\<lambda>i. i + k) r, shift_world k w'))"
  unfolding AppendEvent_def
  by (rule db_call_shift) (auto simp: insert_event_def shift_ids_def user_ids_def project_ids_def)

text \<open>C23. Nothing a client is sent tells it the number of an event, which it would have to name to be sent what it missed: rename the numbers, moving all of them and the next one by the same distance, and
  a write logs and broadcasts the same, and a replay from the renamed number sends the same frames.\<close>

theorem event_ids_never_sent:
  "fanOutEvent L f u p (shift_world k w) = shift_world k (fanOutEvent L f u p w) \<and>
   the_hub (fanOutEvent L f u p (shift_world k w)) = the_hub (fanOutEvent L f u p w) \<and>
   ReplayEvents L pid (n + k) i h (shift_world k w) = (case ReplayEvents L pid n i h w of (r, h', w') \<Rightarrow> (r, h', shift_world k w'))"
proof (intro conjI)
  have hub: "the_hub (shift_world k w) = the_hub w" for w by (simp add: shift_world_def)
  have drop: "(shift_world k w)\<lparr>the_hub := x\<rparr> = shift_world k (w\<lparr>the_hub := x\<rparr>)" for w x by (simp add: shift_world_def)
  show fan: "fanOutEvent L f u p (shift_world k w) = shift_world k (fanOutEvent L f u p w)"
    by (auto simp: fanOutEvent_def hub drop AppendEvent_shift split: option.splits prod.splits)
  then show "the_hub (fanOutEvent L f u p (shift_world k w)) = the_hub (fanOutEvent L f u p w)" by (simp add: hub)
  have "replay_payloads pid (map (\<lambda>e. e\<lparr>ev_id := ev_id e + k\<rparr>) es) = replay_payloads pid es" for es
    by (simp add: replay_payloads_def)
  then show "ReplayEvents L pid (n + k) i h (shift_world k w) = (case ReplayEvents L pid n i h w of (r, h', w') \<Rightarrow> (r, h', shift_world k w'))"
    by (auto simp: ReplayEvents_def replay_rows_shift split: prod.splits sum.splits)
qed

end
