(* ===== verification/Read_Races.thy ===== *)
theory Read_Races
  imports Races Read_Api
begin

text \<open>
  A read and a write of one issue at once. \<open>IssueByIDHandler\<close> (\<^verbatim>\<open>api/v1/issues.go\<close>) looks up the row, which gives the tag of its answer, and then asks the bucket for
  the object; here it is the program of these calls, and a PUT runs between the two.

  Shown: alone the program is the handler; with a PUT in between the answer has the tag of the version before and the text of the version after.
\<close>

definition IssueByID_act :: "lib \<Rightarrow> request \<Rightarrow> response act" where
  "IssueByID_act L r =
     or_ret (call (resolveUser L r)) (\<lambda>(userID, isAdmin).
     or_ret (call (parseFolderID L r)) (\<lambda>folderID.
     let issueID = rq_path r ''id'' in
     if issueID = '''' then Ret (writeError 400 ''missing issue id'')
     else
     or_ret (call (folder_access L userID isAdmin folderID)) (\<lambda>_.
     bind_act (call (IssueByID L folderID issueID)) (\<lambda>x. case x of
       Inl e \<Rightarrow> Ret (if e = ErrNoRows then writeError 404 ''issue not found'' else writeError 500 ''internal error'')
     | Inr (s3Key, etag) \<Rightarrow>
     bind_act (call (GetObject L s3Key)) (\<lambda>y. case y of
       Inl _ \<Rightarrow> Ret (writeError 500 ''internal error'')
     | Inr (body, _) \<Rightarrow>
     bind_act (call (stream L body)) (\<lambda>(sent, _).
       Ret \<lparr>rs_status = 200, rs_headers = [(''Content-Type'', markdown), (''ETag'', quoted etag)], rs_content = RawBody sent\<rparr>))))))"

lemma run_IssueByID: "run_act (IssueByID_act L r) w = IssueByIDHandler L r w"
  by (simp add: IssueByID_act_def IssueByIDHandler_def or_return_def Let_def split: prod.splits sum.splits)

text \<open>What is left of a read once it knows the key and the tag.\<close>

definition after_lookup :: "lib \<Rightarrow> string \<Rightarrow> string \<Rightarrow> response act" where
  "after_lookup L s3Key etag =
     bind_act (call (GetObject L s3Key)) (\<lambda>y. case y of
       Inl _ \<Rightarrow> Ret (writeError 500 ''internal error'')
     | Inr (body, _) \<Rightarrow>
     bind_act (call (stream L body)) (\<lambda>(sent, _).
       Ret \<lparr>rs_status = 200, rs_headers = [(''Content-Type'', markdown), (''ETag'', quoted etag)], rs_content = RawBody sent\<rparr>))"

lemma read_up_to_lookup:
  assumes "fates w = []" and "readable L g (db w) u f" and "rq_path g ''id'' \<noteq> ''''" and "tag_of (db w) (f, issue_path g) = Some t"
  shows "act_steps (IssueByID_act L g) w (after_lookup L (issue_key L f (rq_path g ''id'')) t) w"
proof -
  obtain adm where c: "resolveUser L g w = (Inr (u, adm), w)" "parseFolderID L g w = (Inr f, w)" "folder_access L u adm f w = (Inr (), w)"
    by (rule access_calls [OF assms(1,2)])
  obtain row where "file_of (db w) f (rq_path g ''id'' @ ''.md'') = Some row" "f_etag row = t"
    using assms(4) by (auto simp: tag_of_def issue_path_def)
  then have i: "IssueByID L f (rq_path g ''id'') w = (Inr (issue_key L f (rq_path g ''id''), t), w)"
    using assms(1) by (simp add: IssueByID_def db_call_query_Done)
  have r: "run_act (call (resolveUser L g)) w = (Inr (u, adm), w)" "run_act (call (parseFolderID L g)) w = (Inr f, w)"
    "run_act (call (folder_access L u adm f)) w = (Inr (), w)"
    "run_act (call (IssueByID L f (rq_path g ''id''))) w = (Inr (issue_key L f (rq_path g ''id''), t), w)"
    using c i by simp_all
  show ?thesis
    unfolding IssueByID_act_def Let_def
    by (rule act_steps_or_ret [OF r(1)], simp, rule act_steps_or_ret [OF r(2)], simp add: assms(3),
        rule act_steps_or_ret [OF r(3)], rule act_steps_past [OF r(4)]) (simp add: after_lookup_def act_steps.here)
qed

lemma after_lookup_answer:
  assumes "fates w = []" and "s3 w key = Some ob"
  shows "fst (run_act (after_lookup L key t) w) =
    \<lparr>rs_status = 200, rs_headers = [(''Content-Type'', markdown), (''ETag'', quoted t)], rs_content = RawBody (o_body ob)\<rparr>"
  using assms by (simp add: after_lookup_def GetObject_def s3_call_Done stream_def next_fate_def)

text \<open>C22. A GET of an issue can answer with the tag of one version and the text of the next: when a PUT of the issue is served between the look at the row and the request for
  the object, both are answered 200, and the reader keeps the new text under the old tag, with which its next change will be refused.\<close>

theorem torn_read:
  assumes "db_ok (db w)" and "fates w = []" and "readable L g (db w) u f"
    and "PutIssueHandler L r w = (resp, w1)" and "rs_status resp = 200"
    and "rq_path g ''id'' = rq_path r ''id''" and "rq_path g ''folderId'' = rq_path r ''folderId''"
    and "tag_of (db w) (f, issue_path r) = Some t"
  shows "\<exists>a. act_steps (IssueByID_act L g) w a w \<and>
    fst (run_act a w1) = \<lparr>rs_status = 200, rs_headers = [(''Content-Type'', markdown), (''ETag'', quoted t)], rs_content = RawBody (rq_body r)\<rparr> \<and>
    tag_of (db w1) (f, issue_path r) = Some (computeETag (rq_body r))"
proof -
  have st: "rs_status resp \<in> {200, 201}" using assms(5) by simp
  obtain u' f' where al: "allowed L r ''editor'' (db w) u' f'" "bad_id r = None"
    and tags: "tag_of (db w1) = (tag_of (db w))((f', issue_path r) := Some (computeETag (rq_body r)))"
    and obj: "s3 w1 = (s3 w)(issue_key L f' (rq_path r ''id'') \<mapsto> stored (rq_body r) markdown)"
    using put_issue.accepted [OF assms(1,4) st] by blast
  have f: "f' = f" using al(1) assms(3,7) by (simp add: allowed_def readable_def)
  have id: "rq_path g ''id'' \<noteq> ''''"
    using al(2) assms(6) by (auto simp: bad_id_def issueIDPattern_MatchString_def split: if_splits)
  have "fates w1 = []" using write_handle_fates [of L "PutIssue r" w resp w1] assms(2,4) by simp
  moreover have "s3 w1 (issue_key L f (rq_path g ''id'')) = Some (stored (rq_body r) markdown)" using obj f assms(6) by simp
  ultimately have "fst (run_act (after_lookup L (issue_key L f (rq_path g ''id'')) t) w1) =
      \<lparr>rs_status = 200, rs_headers = [(''Content-Type'', markdown), (''ETag'', quoted t)], rs_content = RawBody (rq_body r)\<rparr>"
    using after_lookup_answer by (fastforce simp: stored_def)
  moreover have "tag_of (db w) (f, issue_path g) = Some t" using assms(6,8) by (simp add: issue_path_def)
  ultimately show ?thesis
    using read_up_to_lookup [OF assms(2,3) id] tags f by (intro exI [of _ "after_lookup L (issue_key L f (rq_path g ''id'')) t"]) simp
qed

text \<open>Issue 0001 with the tag \<open>current\<close>, read by the editor who also writes it.\<close>

theorem torn_read_witness:
  "\<exists>w a w1. act_steps (IssueByID_act sample_lib (sample_request 2 ''0001'' [] '''')) w a w \<and>
     snd (PutIssueHandler sample_lib (sample_request 2 ''0001'' [(''If-Match'', ''current''), (''X-Forwarded-For'', ''unknown'')] ''new'') w) = w1 \<and>
     fst (run_act a w1) = \<lparr>rs_status = 200, rs_headers = [(''Content-Type'', markdown), (''ETag'', quoted ''current'')], rs_content = RawBody ''new''\<rparr>"
proof -
  let ?r = "sample_request 2 ''0001'' [(''If-Match'', ''current''), (''X-Forwarded-For'', ''unknown'')] ''new''" and ?g = "sample_request 2 ''0001'' [] ''''"
  let ?w1 = "snd (PutIssueHandler sample_lib ?r before_refusal)"
  have put: "PutIssueHandler sample_lib ?r before_refusal = (writeETagJSON 200 (computeETag ''new''), ?w1)"
    by (simp add: world_with_issue_def PutIssueHandler_def plain_world_def handler_eval effects_eval Let_def)
  have ok: "db_ok (db before_refusal)" "fates before_refusal = []"
    using sample_db_ok by (simp_all add: world_with_issue_def db_ok_files plain_world_def)
  have rd: "readable sample_lib ?g (db before_refusal) 2 7"
    by (simp add: readable_def world_with_issue_def sample_db_def sample_user_def empty_db_def member_key_def)
  have tag: "tag_of (db before_refusal) (7, issue_path ?r) = Some ''current''"
    by (simp add: world_with_issue_def tag_of_def file_of_def file_key_def issue_path_def)
  have "rs_status (writeETagJSON 200 (computeETag ''new'')) = 200" by (simp add: writeETagJSON_def)
  from torn_read [OF ok rd put this _ _ tag] show ?thesis by (intro exI [of _ before_refusal]) auto
qed

end
