(* ===== verification/Hub_Locks.thy ===== *)
theory Hub_Locks
  imports Hub
begin

text \<open>
  The hub at the grain of its mutex and its channels: \<^verbatim>\<open>internal/ws/hub.go\<close> with every \<open>Lock\<close>, \<open>RLock\<close>, \<open>Unlock\<close>, \<open>RUnlock\<close> and every blocking send as a step of
  its own. Theory \<open>Hub\<close> runs a case of the event loop in one step and lets a send on a full channel wait by running the loop; here the event loop is
  a goroutine with a position (\<open>run_pc\<close>), every call of \<open>BroadcastAccessRevoked\<close> is one with its own, and a goroutine that sends on a
  full channel stays in \<open>lk_sends\<close>. As in \<open>sync.RWMutex\<close>, a writer that waits keeps new readers out.

  Shown: the lock does what it is for (nobody looks at the clients while they are changed, and neither the event loop nor a revocation ever sends on a closed
  channel), and nobody waits for ever: whatever the schedule, after a bounded number of steps of the event loop, the revocations
  and the senders nothing is left to do. A run of the event loop on its own is the step of theory \<open>Hub\<close>.
\<close>

section \<open>State\<close>

text \<open>What the event loop wants the write lock for: a registration, a departure, a slow client met during a fan-out (with the clients still to be visited).\<close>

datatype job =
    Add nat
  | Remove nat
  | Drop nat string json "nat list"

text \<open>The positions of \<open>Run\<close>: at the \<open>select\<close>; before the call of \<open>Lock\<close>, inside it, after it; before the first or a
  later \<open>RLock\<close> of a fan-out; in the loop over the clients.\<close>

datatype run_pc =
    Select
  | Calling job
  | Waiting job
  | Holding job
  | WantScan string json
  | WantRescan string json "nat list"
  | Scan string json "nat list"

text \<open>The positions of \<open>BroadcastAccessRevoked\<close>.\<close>

datatype rev_pc =
    RevCalling string string
  | RevScan string string "nat list"
  | RevDone

datatype sending =
    SendRegister nat
  | SendUnregister nat
  | SendBroadcast string json

record locked =
  lk_hub :: hub
  lk_readers :: nat
  lk_writing :: bool
  lk_run :: run_pc
  lk_revs :: "rev_pc list"
  lk_sends :: "sending list"

definition lk_start :: locked where
  "lk_start = \<lparr>lk_hub = NewHub, lk_readers = 0, lk_writing = False, lk_run = Select, lk_revs = [], lk_sends = []\<rparr>"

fun waiting :: "run_pc \<Rightarrow> bool" where
  "waiting (Waiting j) \<longleftrightarrow> True"
| "waiting _ \<longleftrightarrow> False"

section \<open>Steps\<close>

fun job_done :: "job \<Rightarrow> hub \<Rightarrow> hub" where
  "job_done (Add i) h = h\<lparr>h_clients := List.insert i (h_clients h)\<rparr>"
| "job_done (Remove i) h = drop_client i h"
| "job_done (Drop i pid p todo) h = drop_client i h"

fun job_next :: "job \<Rightarrow> run_pc" where
  "job_next (Drop i pid p todo) = WantRescan pid p todo"
| "job_next _ = Select"

fun room :: "sending \<Rightarrow> hub \<Rightarrow> bool" where
  "room (SendRegister i) h \<longleftrightarrow> length (h_register h) < registerBufSize"
| "room (SendUnregister i) h \<longleftrightarrow> length (h_unregister h) < registerBufSize"
| "room (SendBroadcast pid p) h \<longleftrightarrow> length (h_broadcast h) < broadcastBufSize"

fun enqueue :: "sending \<Rightarrow> hub \<Rightarrow> hub" where
  "enqueue (SendRegister i) h = h\<lparr>h_register := h_register h @ [i]\<rparr>"
| "enqueue (SendUnregister i) h = h\<lparr>h_unregister := h_unregister h @ [i]\<rparr>"
| "enqueue (SendBroadcast pid p) h = h\<lparr>h_broadcast := h_broadcast h @ [(pid, p)]\<rparr>"

text \<open>Steps of the event loop.\<close>

inductive run_step :: "locked \<Rightarrow> locked \<Rightarrow> bool" where
  take_register: "lk_run s = Select \<Longrightarrow> h_register (lk_hub s) = i # is \<Longrightarrow>
    run_step s (s\<lparr>lk_run := Calling (Add i), lk_hub := (lk_hub s)\<lparr>h_register := is\<rparr>\<rparr>)"
| take_unregister: "lk_run s = Select \<Longrightarrow> h_unregister (lk_hub s) = i # is \<Longrightarrow>
    run_step s (s\<lparr>lk_run := Calling (Remove i), lk_hub := (lk_hub s)\<lparr>h_unregister := is\<rparr>\<rparr>)"
| take_broadcast: "lk_run s = Select \<Longrightarrow> h_broadcast (lk_hub s) = (pid, p) # evs \<Longrightarrow>
    run_step s (s\<lparr>lk_run := WantScan pid p, lk_hub := (lk_hub s)\<lparr>h_broadcast := evs\<rparr>\<rparr>)"
| lock_call: "lk_run s = Calling j \<Longrightarrow> run_step s (s\<lparr>lk_run := Waiting j\<rparr>)"
| lock: "lk_run s = Waiting j \<Longrightarrow> lk_readers s = 0 \<Longrightarrow> \<not> lk_writing s \<Longrightarrow>
    run_step s (s\<lparr>lk_run := Holding j, lk_writing := True\<rparr>)"
| unlock: "lk_run s = Holding j \<Longrightarrow>
    run_step s (s\<lparr>lk_run := job_next j, lk_hub := job_done j (lk_hub s), lk_writing := False\<rparr>)"
| rlock: "lk_run s = WantScan pid p \<Longrightarrow> \<not> lk_writing s \<Longrightarrow>
    run_step s (s\<lparr>lk_run := Scan pid p (h_clients (lk_hub s)), lk_readers := Suc (lk_readers s)\<rparr>)"
| rlock_again: "lk_run s = WantRescan pid p todo \<Longrightarrow> \<not> lk_writing s \<Longrightarrow>
    run_step s (s\<lparr>lk_run := Scan pid p todo, lk_readers := Suc (lk_readers s)\<rparr>)"
| scan_skip: "lk_run s = Scan pid p (i # todo) \<Longrightarrow> pid \<notin> c_subs (h_heap (lk_hub s) i) \<Longrightarrow>
    run_step s (s\<lparr>lk_run := Scan pid p todo\<rparr>)"
| scan_sent: "lk_run s = Scan pid p (i # todo) \<Longrightarrow> pid \<in> c_subs (h_heap (lk_hub s) i) \<Longrightarrow> try_send (lk_hub s) i p = (Sent, h) \<Longrightarrow>
    run_step s (s\<lparr>lk_run := Scan pid p todo, lk_hub := h\<rparr>)"
| scan_full: "lk_run s = Scan pid p (i # todo) \<Longrightarrow> pid \<in> c_subs (h_heap (lk_hub s) i) \<Longrightarrow> try_send (lk_hub s) i p = (Full, h) \<Longrightarrow>
    run_step s (s\<lparr>lk_run := Calling (Drop i pid p todo), lk_readers := lk_readers s - 1\<rparr>)"
| scan_panic: "lk_run s = Scan pid p (i # todo) \<Longrightarrow> pid \<in> c_subs (h_heap (lk_hub s) i) \<Longrightarrow> try_send (lk_hub s) i p = (Panicked, h) \<Longrightarrow>
    run_step s (s\<lparr>lk_hub := h\<lparr>h_crashed := True\<rparr>\<rparr>)"
| runlock: "lk_run s = Scan pid p [] \<Longrightarrow> run_step s (s\<lparr>lk_run := Select, lk_readers := lk_readers s - 1\<rparr>)"

text \<open>Steps of the revocations and of the goroutines that send.\<close>

inductive helper_step :: "locked \<Rightarrow> locked \<Rightarrow> bool" where
  rev_rlock: "n < length (lk_revs s) \<Longrightarrow> lk_revs s ! n = RevCalling pid uid \<Longrightarrow> \<not> lk_writing s \<Longrightarrow> \<not> waiting (lk_run s) \<Longrightarrow>
    helper_step s (s\<lparr>lk_revs := (lk_revs s)[n := RevScan pid uid (h_clients (lk_hub s))], lk_readers := Suc (lk_readers s)\<rparr>)"
| rev_visit: "n < length (lk_revs s) \<Longrightarrow> lk_revs s ! n = RevScan pid uid (i # todo) \<Longrightarrow>
    helper_step s (s\<lparr>lk_revs := (lk_revs s)[n := RevScan pid uid todo], lk_hub := notify_revoked pid uid i (lk_hub s)\<rparr>)"
| rev_runlock: "n < length (lk_revs s) \<Longrightarrow> lk_revs s ! n = RevScan pid uid [] \<Longrightarrow>
    helper_step s (s\<lparr>lk_revs := (lk_revs s)[n := RevDone], lk_readers := lk_readers s - 1\<rparr>)"
| send: "lk_sends s = xs @ x # ys \<Longrightarrow> room x (lk_hub s) \<Longrightarrow>
    helper_step s (s\<lparr>lk_sends := xs @ ys, lk_hub := enqueue x (lk_hub s)\<rparr>)"

text \<open>What brings new work, and the loops of the connections, which use neither the lock nor the channels of the hub. The read loop of a client starts when its registration has been sent.
  A read loop ends because of the connection or because its acknowledgement panics.\<close>

definition ack_panics :: "hub \<Rightarrow> nat \<Rightarrow> json option \<Rightarrow> string option" where
  "ack_panics h i msg =
     (case Option.bind msg dec_incomingMsg of
        None \<Rightarrow> None
      | Some m \<Rightarrow> if in_type m = ''subscribe'' \<and> c_closed (h_heap h i) then Some (in_folderId m) else None)"

inductive outer_step :: "locked \<Rightarrow> locked \<Rightarrow> bool" where
  connect: "h = lk_hub s \<Longrightarrow>
    outer_step s (s\<lparr>lk_hub := h\<lparr>h_heap := (h_heap h)(h_next h := new_client uid), h_next := Suc (h_next h)\<rparr>,
      lk_sends := lk_sends s @ [SendRegister (h_next h)]\<rparr>)"
| disconnect: "i < h_next (lk_hub s) \<Longrightarrow> c_reading (h_heap (lk_hub s) i) \<Longrightarrow> SendRegister i \<notin> set (lk_sends s) \<Longrightarrow>
    outer_step s (s\<lparr>lk_hub := upd_client i (\<lambda>c. c\<lparr>c_reading := False\<rparr>) (lk_hub s),
      lk_sends := lk_sends s @ [SendUnregister i]\<rparr>)"
| message: "i < h_next (lk_hub s) \<Longrightarrow> c_reading (h_heap (lk_hub s) i) \<Longrightarrow> SendRegister i \<notin> set (lk_sends s) \<Longrightarrow>
    ack_panics (lk_hub s) i msg = None \<Longrightarrow> outer_step s (s\<lparr>lk_hub := readLoop_msg (lk_hub s) i msg\<rparr>)"
| message_panics: "i < h_next (lk_hub s) \<Longrightarrow> c_reading (h_heap (lk_hub s) i) \<Longrightarrow> SendRegister i \<notin> set (lk_sends s) \<Longrightarrow>
    ack_panics (lk_hub s) i msg = Some f \<Longrightarrow>
    outer_step s (s\<lparr>lk_hub := upd_client i (\<lambda>c. c\<lparr>c_reading := False, c_subs := insert f (c_subs c)\<rparr>) (lk_hub s),
      lk_sends := lk_sends s @ [SendUnregister i]\<rparr>)"
| write_frame: "i < h_next (lk_hub s) \<Longrightarrow> outer_step s (s\<lparr>lk_hub := writeLoop_step (lk_hub s) i\<rparr>)"
| publish: "outer_step s (s\<lparr>lk_sends := lk_sends s @ [SendBroadcast pid p]\<rparr>)"
| revoke: "outer_step s (s\<lparr>lk_revs := lk_revs s @ [RevCalling pid uid]\<rparr>)"
| replay_start: "h = lk_hub s \<Longrightarrow> (i, f, n) \<in> set (h_pending h) \<Longrightarrow>
    outer_step s (s\<lparr>lk_hub := h\<lparr>h_pending := remove1 (i, f, n) (h_pending h), h_replays := h_replays h @ [(i, ps)]\<rparr>\<rparr>)"
| replay: "outer_step s (s\<lparr>lk_hub := replay_step (lk_hub s) n\<rparr>)"

definition inner_step :: "locked \<Rightarrow> locked \<Rightarrow> bool" where
  "inner_step s s' \<longleftrightarrow> run_step s s' \<or> helper_step s s'"

inductive lock_reachable :: "locked \<Rightarrow> bool" where
  start: "lock_reachable lk_start"
| inner: "lock_reachable s \<Longrightarrow> \<not> h_crashed (lk_hub s) \<Longrightarrow> inner_step s s' \<Longrightarrow> lock_reachable s'"
| outer: "lock_reachable s \<Longrightarrow> \<not> h_crashed (lk_hub s) \<Longrightarrow> outer_step s s' \<Longrightarrow> lock_reachable s'"

section \<open>Invariant\<close>

fun scanning :: "run_pc \<Rightarrow> bool" where
  "scanning (Scan pid p todo) \<longleftrightarrow> True"
| "scanning _ \<longleftrightarrow> False"

fun holding :: "run_pc \<Rightarrow> bool" where
  "holding (Holding j) \<longleftrightarrow> True"
| "holding _ \<longleftrightarrow> False"

fun rev_scanning :: "rev_pc \<Rightarrow> bool" where
  "rev_scanning (RevScan pid uid todo) \<longleftrightarrow> True"
| "rev_scanning _ \<longleftrightarrow> False"

text \<open>The count of readers and the flag of the writer are those of the goroutines in their critical sections, and a writer is alone.\<close>

definition lock_ok :: "locked \<Rightarrow> bool" where
  "lock_ok s \<longleftrightarrow> lk_readers s = of_bool (scanning (lk_run s)) + length (filter rev_scanning (lk_revs s)) \<and>
     (lk_writing s \<longleftrightarrow> holding (lk_run s)) \<and> (lk_writing s \<longrightarrow> lk_readers s = 0)"

text \<open>The clients that are still to be visited.\<close>

fun job_todo :: "job \<Rightarrow> nat list" where
  "job_todo (Drop i pid p todo) = i # todo"
| "job_todo _ = []"

fun run_todo :: "run_pc \<Rightarrow> nat list" where
  "run_todo (Calling j) = job_todo j"
| "run_todo (Waiting j) = job_todo j"
| "run_todo (Holding j) = job_todo j"
| "run_todo (WantRescan pid p todo) = todo"
| "run_todo (Scan pid p todo) = todo"
| "run_todo _ = []"

fun rev_todo :: "rev_pc \<Rightarrow> nat list" where
  "rev_todo (RevScan pid uid todo) = todo"
| "rev_todo _ = []"

definition visits_ok :: "locked \<Rightarrow> bool" where
  "visits_ok s \<longleftrightarrow> set (run_todo (lk_run s)) \<subseteq> set (h_clients (lk_hub s)) \<and> distinct (run_todo (lk_run s)) \<and>
     (\<forall>r \<in> set (lk_revs s). set (rev_todo r) \<subseteq> set (h_clients (lk_hub s)))"

text \<open>The clients that are registered or on their way to be.\<close>

fun job_new :: "job \<Rightarrow> nat list" where
  "job_new (Add i) = [i]"
| "job_new _ = []"

fun run_new :: "run_pc \<Rightarrow> nat list" where
  "run_new (Calling j) = job_new j"
| "run_new (Waiting j) = job_new j"
| "run_new (Holding j) = job_new j"
| "run_new _ = []"

fun send_new :: "sending \<Rightarrow> nat list" where
  "send_new (SendRegister i) = [i]"
| "send_new _ = []"

definition known :: "locked \<Rightarrow> nat list" where
  "known s = concat (map send_new (lk_sends s)) @ h_register (lk_hub s) @ run_new (lk_run s) @ h_clients (lk_hub s)"

definition hub_ok :: "locked \<Rightarrow> bool" where
  "hub_ok s \<longleftrightarrow> distinct (known s) \<and> (\<forall>i \<in> set (known s). i < h_next (lk_hub s) \<and> \<not> c_closed (h_heap (lk_hub s) i)) \<and>
     (\<forall>i. length (c_send (h_heap (lk_hub s) i)) \<le> sendBufSize) \<and> length (h_broadcast (lk_hub s)) \<le> broadcastBufSize \<and>
     length (h_register (lk_hub s)) \<le> registerBufSize \<and> length (h_unregister (lk_hub s)) \<le> registerBufSize"

definition lk_inv :: "locked \<Rightarrow> bool" where
  "lk_inv s \<longleftrightarrow> lock_ok s \<and> visits_ok s \<and> hub_ok s"

lemma lk_inv_start: "lk_inv lk_start"
  by (simp add: lk_inv_def lock_ok_def visits_ok_def hub_ok_def known_def lk_start_def NewHub_def new_client_def)

text \<open>Changes of the buffers, the subscriptions and the replays only.\<close>

definition calm_hub :: "hub \<Rightarrow> hub \<Rightarrow> bool" where
  "calm_hub h h' \<longleftrightarrow> h_clients h' = h_clients h \<and> h_register h' = h_register h \<and> h_unregister h' = h_unregister h \<and>
     h_broadcast h' = h_broadcast h \<and> h_next h' = h_next h \<and> (\<forall>i. c_closed (h_heap h' i) = c_closed (h_heap h i)) \<and>
     ((\<forall>i. length (c_send (h_heap h i)) \<le> sendBufSize) \<longrightarrow> (\<forall>i. length (c_send (h_heap h' i)) \<le> sendBufSize))"

lemma lock_ok_fields [simp]:
  "lock_ok (s\<lparr>lk_hub := h\<rparr>) \<longleftrightarrow> lock_ok s" "lock_ok (s\<lparr>lk_sends := xs\<rparr>) \<longleftrightarrow> lock_ok s"
  by (simp_all add: lock_ok_def)

lemma lk_inv_calm: "lk_inv s \<Longrightarrow> calm_hub (lk_hub s) h \<Longrightarrow> lk_inv (s\<lparr>lk_hub := h\<rparr>)"
  by (simp add: lk_inv_def) (simp add: visits_ok_def hub_ok_def known_def calm_hub_def)

lemma calm_hub_refl [simp]: "calm_hub h h"
  by (simp add: calm_hub_def)

lemma calm_hub_trans: "calm_hub h h1 \<Longrightarrow> calm_hub h1 h2 \<Longrightarrow> calm_hub h h2"
  by (simp add: calm_hub_def)

lemma calm_fields [simp]:
  "calm_hub h (h1\<lparr>h_crashed := b\<rparr>) = calm_hub h h1" "calm_hub h (h1\<lparr>h_replays := rs\<rparr>) = calm_hub h h1"
  "calm_hub h (h1\<lparr>h_pending := ps\<rparr>) = calm_hub h h1"
  by (simp_all add: calm_hub_def)

lemma calm_send: "try_send h i p = (r, h') \<Longrightarrow> calm_hub h h'"
  by (auto simp: try_send_def calm_hub_def upd_client_def split: if_splits)

lemma calm_upd: "(\<And>c. c_closed (f c) = c_closed c \<and> c_send (f c) = c_send c) \<Longrightarrow> calm_hub h (upd_client i f h)"
  by (auto simp: calm_hub_def upd_client_def)

lemma calm_notify: "calm_hub h (notify_revoked pid uid i h)"
  by (auto simp: notify_revoked_def split: prod.splits send_result.splits dest: calm_send)

lemma calm_replay: "calm_hub h (replay_step h n)"
  by (auto simp: replay_step_def split: prod.splits list.splits send_result.splits dest: calm_send)

lemma calm_write: "calm_hub h (writeLoop_step h i)"
  unfolding writeLoop_step_def calm_hub_def upd_client_def by (auto split: list.splits dest: spec [of _ i])

lemma calm_message:
  assumes "ack_panics h i msg = None"
  shows "calm_hub h (readLoop_msg h i msg)"
proof (cases "Option.bind msg dec_incomingMsg")
  case None
  then show ?thesis by (simp add: readLoop_msg_def)
next
  case (Some m)
  let ?h1 = "upd_client i (\<lambda>c. c\<lparr>c_subs := insert (in_folderId m) (c_subs c)\<rparr>) h"
  have sub: "calm_hub h (upd_client i (\<lambda>c. c\<lparr>c_subs := f c\<rparr>) h)" for f by (rule calm_upd) simp
  obtain r h2 where send: "try_send ?h1 i (msg_subscribed (in_folderId m)) = (r, h2)" by fastforce
  have calm: "calm_hub h h2" using calm_hub_trans [OF sub calm_send [OF send]] .
  show ?thesis
  proof (cases "in_type m = ''subscribe''")
    case True
    then have "\<not> c_closed (h_heap ?h1 i)" using assms Some by (simp add: ack_panics_def upd_client_def split: if_splits)
    then have "r \<noteq> Panicked" using send by (auto simp: try_send_def split: if_splits)
    then show ?thesis
      using Some True send calm by (cases r) (auto simp: readLoop_msg_def Let_def split: option.splits)
  qed (simp add: readLoop_msg_def Some sub)
qed

section \<open>Every step keeps it\<close>

lemma drop_registered: "i \<in> set (h_clients h) \<Longrightarrow>
  drop_client i h = upd_client i (\<lambda>c. c\<lparr>c_closed := True\<rparr>) (h\<lparr>h_clients := removeAll i (h_clients h)\<rparr>)"
  by (simp add: drop_client_def)

lemma filter_none: "length (filter P xs) = 0 \<longleftrightarrow> (\<forall>x \<in> set xs. \<not> P x)"
  by (simp add: filter_empty_conv)

lemma run_step_inv:
  assumes "run_step s s'" and inv: "lk_inv s"
  shows "lk_inv s'"
  using assms(1)
proof cases
  case (unlock j)
  have quiet: "\<And>r. r \<in> set (lk_revs s) \<Longrightarrow> rev_todo r = []"
  proof -
    fix r assume r: "r \<in> set (lk_revs s)"
    have "length (filter rev_scanning (lk_revs s)) = 0" using inv unlock(2) by (auto simp: lk_inv_def lock_ok_def)
    then have "\<not> rev_scanning r" using r by (simp add: filter_empty_conv)
    then show "rev_todo r = []" by (cases r) simp_all
  qed
  have lock: "lock_ok s'" using inv unlock by (cases j) (simp_all add: lk_inv_def lock_ok_def)
  show ?thesis
  proof (cases j)
    case (Add i)
    then show ?thesis using inv unlock lock quiet by (auto simp: lk_inv_def visits_ok_def hub_ok_def known_def)
  next
    case (Remove i)
    then show ?thesis using inv unlock lock quiet
      by (cases "i \<in> set (h_clients (lk_hub s))")
        (auto simp: lk_inv_def visits_ok_def hub_ok_def known_def drop_client_def upd_client_def distinct_removeAll)
  next
    case (Drop i pid p todo)
    then have i: "i \<in> set (h_clients (lk_hub s))" using inv unlock by (simp add: lk_inv_def visits_ok_def)
    show ?thesis using inv unlock lock quiet Drop
      by (auto simp: drop_registered [OF i] lk_inv_def visits_ok_def hub_ok_def known_def upd_client_def distinct_removeAll)
  qed
next
  case (scan_sent pid p i todo h)
  have "lk_inv (s\<lparr>lk_run := Scan pid p todo\<rparr>)"
    using inv scan_sent(2) by (auto simp: lk_inv_def lock_ok_def visits_ok_def hub_ok_def known_def)
  from lk_inv_calm [OF this, of h] calm_send [OF scan_sent(4)] scan_sent(1) show ?thesis by simp
next
  case (scan_panic pid p i todo h)
  then show ?thesis using lk_inv_calm [OF inv, of "h\<lparr>h_crashed := True\<rparr>"] calm_send by simp
qed (use inv in \<open>auto simp: lk_inv_def lock_ok_def visits_ok_def hub_ok_def known_def\<close>)

lemma length_filter_update:
  "n < length xs \<Longrightarrow> length (filter P (xs[n := y])) + of_bool (P (xs ! n)) = length (filter P xs) + of_bool (P y)"
proof (induction xs arbitrary: n)
  case (Cons x xs)
  then show ?case by (cases n) auto
qed simp

lemma in_update: "r \<in> set (xs[n := y]) \<Longrightarrow> r = y \<or> r \<in> set xs"
  using set_update_subset_insert [of xs n y] by auto

lemma reader_counted:
  assumes "lock_ok s" and "n < length (lk_revs s)" and "rev_scanning (lk_revs s ! n)"
  shows "0 < lk_readers s" "\<not> lk_writing s"
proof -
  have "lk_revs s ! n \<in> set (filter rev_scanning (lk_revs s))" using assms(2,3) by simp
  then have "0 < length (filter rev_scanning (lk_revs s))" by (cases "filter rev_scanning (lk_revs s)") auto
  then show "0 < lk_readers s" "\<not> lk_writing s" using assms(1) by (auto simp: lock_ok_def)
qed

lemma rev_update_inv:
  assumes "lk_inv s" and "lock_ok (s\<lparr>lk_revs := (lk_revs s)[n := r], lk_readers := k\<rparr>)" and "set (rev_todo r) \<subseteq> set (h_clients (lk_hub s))"
  shows "lk_inv (s\<lparr>lk_revs := (lk_revs s)[n := r], lk_readers := k\<rparr>)"
proof -
  have old: "\<forall>x \<in> set (lk_revs s). set (rev_todo x) \<subseteq> set (h_clients (lk_hub s))" using assms(1) by (simp add: lk_inv_def visits_ok_def)
  have "\<forall>x \<in> set ((lk_revs s)[n := r]). set (rev_todo x) \<subseteq> set (h_clients (lk_hub s))"
  proof
    fix x assume "x \<in> set ((lk_revs s)[n := r])"
    then have "x = r \<or> x \<in> set (lk_revs s)" by (rule in_update)
    then show "set (rev_todo x) \<subseteq> set (h_clients (lk_hub s))" using old assms(3) by blast
  qed
  then have "visits_ok (s\<lparr>lk_revs := (lk_revs s)[n := r], lk_readers := k\<rparr>)"
    using assms(1) unfolding lk_inv_def visits_ok_def by simp
  moreover have "hub_ok (s\<lparr>lk_revs := (lk_revs s)[n := r], lk_readers := k\<rparr>) = hub_ok s" by (simp add: hub_ok_def known_def)
  ultimately show ?thesis using assms(1,2) by (simp add: lk_inv_def)
qed

lemma lock_ok_rev:
  assumes "lock_ok s" and "n < length (lk_revs s)" and "k + of_bool (rev_scanning (lk_revs s ! n)) = lk_readers s + of_bool (rev_scanning r)"
    and "lk_writing s \<Longrightarrow> k = 0"
  shows "lock_ok (s\<lparr>lk_revs := (lk_revs s)[n := r], lk_readers := k\<rparr>)"
proof -
  have "k = of_bool (scanning (lk_run s)) + length (filter rev_scanning ((lk_revs s)[n := r]))"
    using assms(1,3) length_filter_update [OF assms(2), of rev_scanning r] unfolding lock_ok_def by linarith
  then show ?thesis using assms(1,4) unfolding lock_ok_def by simp
qed

lemma helper_step_inv:
  assumes "helper_step s s'" and inv: "lk_inv s"
  shows "lk_inv s'"
  using assms(1)
proof cases
  case (rev_rlock n pid uid)
  have lock: "lock_ok s" using inv by (simp add: lk_inv_def)
  have "lock_ok s'" unfolding rev_rlock(1) by (rule lock_ok_rev [OF lock rev_rlock(2)]) (use rev_rlock(3,4) in simp_all)
  then show ?thesis using rev_update_inv [OF inv] unfolding rev_rlock(1) by simp
next
  case (rev_visit n pid uid i todo)
  let ?r = "RevScan pid uid todo"
  have lock: "lock_ok s" using inv by (simp add: lk_inv_def)
  then have lock': "lock_ok (s\<lparr>lk_revs := (lk_revs s)[n := ?r], lk_readers := lk_readers s\<rparr>)"
    by (rule lock_ok_rev [OF _ rev_visit(2)]) (use rev_visit(3) reader_counted(2) [OF lock rev_visit(2)] in simp_all)
  have "set (rev_todo (lk_revs s ! n)) \<subseteq> set (h_clients (lk_hub s))"
    using inv nth_mem [OF rev_visit(2)] unfolding lk_inv_def visits_ok_def by blast
  then have "lk_inv (s\<lparr>lk_revs := (lk_revs s)[n := ?r], lk_readers := lk_readers s\<rparr>)"
    using rev_update_inv [OF inv lock'] rev_visit(3) by simp
  from lk_inv_calm [OF this, of "notify_revoked pid uid i (lk_hub s)"] calm_notify show ?thesis unfolding rev_visit(1) by simp
next
  case (rev_runlock n pid uid)
  have lock: "lock_ok s" using inv by (simp add: lk_inv_def)
  have "lock_ok s'" unfolding rev_runlock(1)
    by (rule lock_ok_rev [OF lock rev_runlock(2)]) (use rev_runlock(3) reader_counted [OF lock rev_runlock(2)] in simp_all)
  then show ?thesis using rev_update_inv [OF inv] unfolding rev_runlock(1) by simp
next
  case (send xs x ys)
  have "mset (known s') = mset (known s)" unfolding send(1) by (cases x) (simp_all add: known_def send(2))
  then have same: "distinct (known s') = distinct (known s)" "set (known s') = set (known s)"
    by (rule mset_eq_imp_distinct_iff, rule mset_eq_setD)
  have frame: "h_heap (lk_hub s') = h_heap (lk_hub s)" "h_next (lk_hub s') = h_next (lk_hub s)" "h_clients (lk_hub s') = h_clients (lk_hub s)"
    unfolding send(1) by (cases x; simp)+
  have "length (h_broadcast (lk_hub s')) \<le> broadcastBufSize \<and> length (h_register (lk_hub s')) \<le> registerBufSize \<and>
      length (h_unregister (lk_hub s')) \<le> registerBufSize"
    using inv send(3) unfolding send(1) by (cases x) (simp_all add: lk_inv_def hub_ok_def)
  then have "hub_ok s'" using inv unfolding lk_inv_def hub_ok_def same frame by blast
  moreover have "visits_ok s'" using inv frame unfolding lk_inv_def visits_ok_def by (simp add: send(1))
  moreover have "lock_ok s'" using inv unfolding lk_inv_def by (simp add: send(1))
  ultimately show ?thesis by (simp add: lk_inv_def)
qed

lemma lk_inv_unregister: "lk_inv s \<Longrightarrow> lk_inv (s\<lparr>lk_sends := lk_sends s @ [SendUnregister i]\<rparr>)"
  by (simp add: lk_inv_def) (simp add: visits_ok_def hub_ok_def known_def)

lemma outer_step_inv:
  assumes "outer_step s s'" and inv: "lk_inv s"
  shows "lk_inv s'"
  using assms(1)
proof cases
  case (connect h uid)
  then show ?thesis using inv by (auto simp: lk_inv_def lock_ok_def visits_ok_def hub_ok_def known_def new_client_def less_Suc_eq)
next
  case (disconnect i)
  from lk_inv_unregister [OF lk_inv_calm [OF inv], of "upd_client i (\<lambda>c. c\<lparr>c_reading := False\<rparr>) (lk_hub s)" i] disconnect(1)
  show ?thesis by (simp add: calm_upd)
next
  case (message i msg)
  then show ?thesis using lk_inv_calm [OF inv calm_message] by simp
next
  case (message_panics i msg f)
  from lk_inv_unregister [OF lk_inv_calm [OF inv], of "upd_client i (\<lambda>c. c\<lparr>c_reading := False, c_subs := insert f (c_subs c)\<rparr>) (lk_hub s)" i]
    message_panics(1) show ?thesis by (simp add: calm_upd)
next
  case (write_frame i)
  then show ?thesis using lk_inv_calm [OF inv calm_write] by simp
next
  case (replay n)
  then show ?thesis using lk_inv_calm [OF inv calm_replay] by simp
qed (use inv in \<open>auto simp: lk_inv_def lock_ok_def visits_ok_def hub_ok_def known_def\<close>)

lemma inner_step_inv: "inner_step s s' \<Longrightarrow> lk_inv s \<Longrightarrow> lk_inv s'"
  by (auto simp: inner_step_def run_step_inv helper_step_inv)

lemma lock_reachable_inv: "lock_reachable s \<Longrightarrow> lk_inv s"
  by (induction rule: lock_reachable.induct) (auto simp: lk_inv_start inner_step_inv outer_step_inv)

section \<open>Nobody is stuck\<close>

text \<open>Nothing is left to do: the channels are empty, nobody waits to send, every revocation has returned, the event loop is at its \<open>select\<close>.\<close>

definition at_rest :: "locked \<Rightarrow> bool" where
  "at_rest s \<longleftrightarrow> lk_run s = Select \<and> h_register (lk_hub s) = [] \<and> h_unregister (lk_hub s) = [] \<and> h_broadcast (lk_hub s) = [] \<and>
     lk_sends s = [] \<and> (\<forall>r \<in> set (lk_revs s). r = RevDone)"

lemma scan_goes_on: "lk_run s = Scan pid p todo \<Longrightarrow> \<exists>s'. run_step s s'"
proof (cases todo)
  case (Cons i rest)
  assume "lk_run s = Scan pid p todo"
  then have pc: "lk_run s = Scan pid p (i # rest)" using Cons by simp
  obtain r h where send: "try_send (lk_hub s) i p = (r, h)" by fastforce
  show ?thesis
  proof (cases "pid \<in> c_subs (h_heap (lk_hub s) i)")
    case True
    from pc True send show ?thesis by (cases r) (blast intro: scan_sent scan_full scan_panic)+
  next
    case False
    with pc show ?thesis by (blast intro: scan_skip)
  qed
qed (blast intro: runlock)

lemma revocation_goes_on:
  assumes "r \<in> set (lk_revs s)" and "rev_scanning r"
  shows "\<exists>s'. helper_step s s'"
proof -
  obtain n where n: "n < length (lk_revs s)" "lk_revs s ! n = r" using assms(1) by (auto simp: in_set_conv_nth)
  obtain pid uid todo where "r = RevScan pid uid todo" using assms(2) by (cases r) auto
  with n show ?thesis by (cases todo) (blast intro: rev_visit rev_runlock)+
qed

lemma waiting_goes_on:
  assumes "lock_ok s" and "lk_run s = Waiting j"
  shows "\<exists>s'. inner_step s s'"
proof (cases "lk_readers s = 0")
  case True
  then show ?thesis using assms unfolding inner_step_def lock_ok_def by (auto intro: lock)
next
  case False
  then have "filter rev_scanning (lk_revs s) \<noteq> []" using assms by (auto simp: lock_ok_def)
  then obtain r where "r \<in> set (lk_revs s)" "rev_scanning r" by (auto simp: filter_empty_conv)
  from revocation_goes_on [OF this] show ?thesis unfolding inner_step_def by blast
qed

lemma sender_goes_on:
  assumes "lk_sends s \<noteq> []" and "h_register (lk_hub s) = []" "h_unregister (lk_hub s) = []" "h_broadcast (lk_hub s) = []"
  shows "\<exists>s'. helper_step s s'"
proof -
  obtain x ys where "lk_sends s = [] @ x # ys" using assms(1) by (cases "lk_sends s") auto
  moreover have "room x (lk_hub s)" using assms by (cases x) (simp_all add: registerBufSize_def broadcastBufSize_def)
  ultimately show ?thesis by (blast intro: send)
qed

lemma progress:
  assumes inv: "lk_inv s" and "\<not> at_rest s"
  shows "\<exists>s'. inner_step s s'"
proof (cases "lk_run s")
  case (Calling j)
  then show ?thesis unfolding inner_step_def by (blast intro: lock_call)
next
  case (Waiting j)
  then show ?thesis using waiting_goes_on inv by (simp add: lk_inv_def)
next
  case (Holding j)
  then show ?thesis unfolding inner_step_def by (blast intro: unlock)
next
  case (WantScan pid p)
  then have "\<not> lk_writing s" using inv by (simp add: lk_inv_def lock_ok_def)
  then show ?thesis using WantScan unfolding inner_step_def by (blast intro: rlock)
next
  case (WantRescan pid p todo)
  then have "\<not> lk_writing s" using inv by (simp add: lk_inv_def lock_ok_def)
  then show ?thesis using WantRescan unfolding inner_step_def by (blast intro: rlock_again)
next
  case (Scan pid p todo)
  then show ?thesis using scan_goes_on unfolding inner_step_def by blast
next
  case Select
  show ?thesis
  proof (cases "h_register (lk_hub s) = [] \<and> h_unregister (lk_hub s) = [] \<and> h_broadcast (lk_hub s) = []")
    case False
    then show ?thesis using Select unfolding inner_step_def
      by (metis list.exhaust surj_pair take_broadcast take_register take_unregister)
  next
    case empty: True
    show ?thesis
    proof (cases "lk_sends s = []")
      case False
      then show ?thesis using sender_goes_on empty unfolding inner_step_def by blast
    next
      case True
      then obtain r where r: "r \<in> set (lk_revs s)" "r \<noteq> RevDone" using assms(2) empty Select by (auto simp: at_rest_def)
      show ?thesis
      proof (cases "rev_scanning r")
        case False
        then obtain pid uid where "r = RevCalling pid uid" using r(2) by (cases r) auto
        moreover obtain n where "n < length (lk_revs s)" "lk_revs s ! n = r" using r(1) by (auto simp: in_set_conv_nth)
        moreover have "\<not> lk_writing s" using inv Select by (simp add: lk_inv_def lock_ok_def)
        ultimately have "\<exists>s'. helper_step s s'" using Select by (metis rev_rlock waiting.simps(2))
        then show ?thesis unfolding inner_step_def by blast
      qed (use revocation_goes_on r(1) in \<open>auto simp: inner_step_def\<close>)
    qed
  qed
qed

text \<open>The work that is left, in steps, when at most \<open>N\<close> clients are registered or on their way to be.\<close>

fun job_work :: "job \<Rightarrow> nat" where
  "job_work (Drop i pid p todo) = 2 + 5 * length todo"
| "job_work _ = 0"

fun run_work :: "nat \<Rightarrow> run_pc \<Rightarrow> nat" where
  "run_work N Select = 0"
| "run_work N (Calling j) = 3 + job_work j"
| "run_work N (Waiting j) = 2 + job_work j"
| "run_work N (Holding j) = 1 + job_work j"
| "run_work N (WantScan pid p) = 2 + 5 * N"
| "run_work N (WantRescan pid p todo) = 2 + 5 * length todo"
| "run_work N (Scan pid p todo) = 1 + 5 * length todo"

fun rev_work :: "nat \<Rightarrow> rev_pc \<Rightarrow> nat" where
  "rev_work N (RevCalling pid uid) = 2 + N"
| "rev_work N (RevScan pid uid todo) = 1 + length todo"
| "rev_work N RevDone = 0"

fun send_work :: "nat \<Rightarrow> sending \<Rightarrow> nat" where
  "send_work N (SendBroadcast pid p) = 4 + 5 * N"
| "send_work N _ = 5"

definition work :: "nat \<Rightarrow> locked \<Rightarrow> nat" where
  "work N s = run_work N (lk_run s) + sum_list (map (rev_work N) (lk_revs s)) + sum_list (map (send_work N) (lk_sends s)) +
     4 * length (h_register (lk_hub s)) + 4 * length (h_unregister (lk_hub s)) + (3 + 5 * N) * length (h_broadcast (lk_hub s))"

lemma sum_list_update_nat:
  fixes f :: "'a \<Rightarrow> nat"
  shows "n < length xs \<Longrightarrow> sum_list (map f (xs[n := y])) + f (xs ! n) = sum_list (map f xs) + f y"
proof (induction xs arbitrary: n)
  case (Cons x xs)
  then show ?case by (cases n) auto
qed simp

text \<open>Neither the event loop nor a revocation sends on a closed channel.\<close>

lemma visited_open:
  assumes "lk_inv s" and "i \<in> set (h_clients (lk_hub s))"
  shows "\<not> c_closed (h_heap (lk_hub s) i)"
  using assms by (auto simp: lk_inv_def hub_ok_def known_def)

lemma scan_never_panics:
  assumes "lk_inv s" and "lk_run s = Scan pid p (i # todo)"
  shows "try_send (lk_hub s) i p \<noteq> (Panicked, h)"
proof -
  have "i \<in> set (h_clients (lk_hub s))" using assms by (simp add: lk_inv_def visits_ok_def)
  with visited_open [OF assms(1)] show ?thesis by (simp add: try_send_def)
qed

lemma notify_no_crash: "\<not> c_closed (h_heap h i) \<Longrightarrow> h_crashed (notify_revoked pid uid i h) = h_crashed h"
  by (auto simp: notify_revoked_def try_send_def upd_client_def)

lemma drop_fields [simp]:
  "h_crashed (drop_client i h) = h_crashed h" "h_register (drop_client i h) = h_register h"
  "h_unregister (drop_client i h) = h_unregister h" "h_broadcast (drop_client i h) = h_broadcast h"
  "length (h_clients (drop_client i h)) \<le> length (h_clients h)"
  by (simp_all add: drop_client_def upd_client_def)

lemma send_fields:
  assumes "try_send h i p = (r, h')"
  shows "h_crashed h' = h_crashed h" "h_register h' = h_register h" "h_unregister h' = h_unregister h" "h_broadcast h' = h_broadcast h"
    "h_clients h' = h_clients h"
  using assms by (auto simp: try_send_def upd_client_def split: if_splits)

lemma notify_fields:
  "h_register (notify_revoked pid uid i h) = h_register h" "h_unregister (notify_revoked pid uid i h) = h_unregister h"
  "h_broadcast (notify_revoked pid uid i h) = h_broadcast h" "h_clients (notify_revoked pid uid i h) = h_clients h"
  using calm_notify [of h pid uid i] by (simp_all add: calm_hub_def)

text \<open>A step of the event loop, of a revocation or of a sender does some of the work, brings no clients and does not crash.\<close>

definition does_work :: "nat \<Rightarrow> locked \<Rightarrow> locked \<Rightarrow> bool" where
  "does_work N s s' \<longleftrightarrow> work N s' < work N s \<and> length (known s') \<le> length (known s) \<and> h_crashed (lk_hub s') = h_crashed (lk_hub s)"

lemma run_step_works:
  assumes "run_step s s'" and inv: "lk_inv s" and N: "length (known s) \<le> N"
  shows "does_work N s s'"
  using assms(1)
proof cases
  case (unlock j)
  have "length (known s') \<le> length (known s)"
  proof (cases j)
    case (Add i)
    then have "i \<notin> set (h_clients (lk_hub s))" using inv unlock(2) by (auto simp: lk_inv_def hub_ok_def known_def)
    then show ?thesis using unlock Add by (simp add: known_def)
  qed (use unlock drop_fields(5) in \<open>simp_all add: known_def\<close>)
  moreover have "work N s' < work N s" using unlock by (cases j) (simp_all add: work_def)
  moreover have "h_crashed (lk_hub s') = h_crashed (lk_hub s)" using unlock by (cases j) simp_all
  ultimately show ?thesis by (simp add: does_work_def)
next
  case (rlock pid p)
  then show ?thesis using N by (simp add: does_work_def work_def known_def)
next
  case (scan_sent pid p i todo h)
  then show ?thesis using send_fields [OF scan_sent(4)] by (simp add: does_work_def work_def known_def)
next
  case (scan_panic pid p i todo h)
  then show ?thesis using scan_never_panics [OF inv scan_panic(2)] by blast
qed (simp_all add: does_work_def work_def known_def)

lemma helper_step_works:
  assumes "helper_step s s'" and inv: "lk_inv s" and N: "length (known s) \<le> N"
  shows "does_work N s s'"
  using assms(1)
proof cases
  case (rev_rlock n pid uid)
  have "length (h_clients (lk_hub s)) \<le> N" using N by (simp add: known_def)
  then show ?thesis
    using rev_rlock sum_list_update_nat [OF rev_rlock(2), of "rev_work N" "RevScan pid uid (h_clients (lk_hub s))"]
    by (simp add: does_work_def work_def known_def)
next
  case (rev_visit n pid uid i todo)
  have "i \<in> set (h_clients (lk_hub s))"
    using inv nth_mem [OF rev_visit(2)] rev_visit(3) by (fastforce simp: lk_inv_def visits_ok_def)
  then have "h_crashed (lk_hub s') = h_crashed (lk_hub s)"
    using notify_no_crash visited_open [OF inv] unfolding rev_visit(1) by simp
  then show ?thesis
    using rev_visit sum_list_update_nat [OF rev_visit(2), of "rev_work N" "RevScan pid uid todo"]
    by (simp add: does_work_def work_def known_def notify_fields)
next
  case (rev_runlock n pid uid)
  then show ?thesis
    using sum_list_update_nat [OF rev_runlock(2), of "rev_work N" RevDone] by (simp add: does_work_def work_def known_def)
next
  case (send xs x ys)
  then show ?thesis by (cases x) (simp_all add: does_work_def work_def known_def)
qed

lemma inner_step_works: "inner_step s s' \<Longrightarrow> lk_inv s \<Longrightarrow> length (known s) \<le> N \<Longrightarrow> does_work N s s'"
  by (auto simp: inner_step_def run_step_works helper_step_works)

text \<open>A number of such steps.\<close>

inductive inner_steps :: "nat \<Rightarrow> locked \<Rightarrow> locked \<Rightarrow> bool" where
  none: "inner_steps 0 s s"
| one_more: "inner_step s s1 \<Longrightarrow> inner_steps n s1 s2 \<Longrightarrow> inner_steps (Suc n) s s2"

lemma inner_steps_bounded:
  "inner_steps n s s' \<Longrightarrow> lk_inv s \<Longrightarrow> length (known s) \<le> N \<Longrightarrow>
   lk_inv s' \<and> n + work N s' \<le> work N s \<and> h_crashed (lk_hub s') = h_crashed (lk_hub s)"
proof (induction rule: inner_steps.induct)
  case (one_more s s1 n s2)
  then show ?case using inner_step_inv inner_step_works [OF one_more.hyps(1) one_more.prems] by (fastforce simp: does_work_def)
qed simp

lemma at_rest_stays: "at_rest s \<Longrightarrow> \<not> inner_step s s'"
  by (auto simp: inner_step_def at_rest_def elim!: run_step.cases helper_step.cases) (metis nth_mem rev_pc.distinct)+

lemma reaches_rest:
  assumes "lk_inv s" and "length (known s) \<le> N"
  shows "\<exists>n s'. inner_steps n s s' \<and> at_rest s'"
  using assms
proof (induction "work N s" arbitrary: s rule: less_induct)
  case less
  show ?case
  proof (cases "at_rest s")
    case True
    then show ?thesis using inner_steps.none by blast
  next
    case False
    from progress [OF less.prems(1) this] obtain s1 where s1: "inner_step s s1" by blast
    note w = inner_step_works [OF s1 less.prems]
    have "work N s1 < work N s" "length (known s1) \<le> N" using w less.prems(2) by (auto simp: does_work_def)
    from less.hyps [OF this(1) inner_step_inv [OF s1 less.prems(1)] this(2)] obtain n s' where "inner_steps n s1 s'" "at_rest s'" by blast
    then show ?thesis using inner_steps.one_more [OF s1] by blast
  qed
qed

section \<open>The event loop on its own\<close>

lemma inner_steps_trans: "inner_steps m s s1 \<Longrightarrow> inner_steps n s1 s2 \<Longrightarrow> inner_steps (m + n) s s2"
  by (induction rule: inner_steps.induct) (auto intro: inner_steps.intros)

lemma run_one: "run_step s s1 \<Longrightarrow> inner_steps n s1 s2 \<Longrightarrow> inner_steps (Suc n) s s2"
  by (rule inner_steps.one_more) (simp_all add: inner_step_def)

text \<open>Taking the write lock, using it and giving it back.\<close>

lemma job_alone:
  assumes "lk_run s = Calling j" and "lk_readers s = 0" and "\<not> lk_writing s"
  shows "inner_steps 3 s (s\<lparr>lk_run := job_next j, lk_hub := job_done j (lk_hub s)\<rparr>)"
proof -
  let ?s1 = "s\<lparr>lk_run := Waiting j\<rparr>" and ?s2 = "s\<lparr>lk_run := Holding j, lk_writing := True\<rparr>"
  have 1: "run_step s ?s1" using assms(1) by (rule lock_call)
  have 2: "run_step ?s1 ?s2" using lock [of ?s1 j] assms by simp
  have eq: "?s2\<lparr>lk_run := job_next j, lk_hub := job_done j (lk_hub ?s2), lk_writing := False\<rparr> =
      s\<lparr>lk_run := job_next j, lk_hub := job_done j (lk_hub s)\<rparr>" using assms(3) by (intro locked.equality) simp_all
  have "run_step ?s2 (?s2\<lparr>lk_run := job_next j, lk_hub := job_done j (lk_hub ?s2), lk_writing := False\<rparr>)"
    by (rule unlock) simp
  from run_one [OF this [unfolded eq] inner_steps.none] show ?thesis
    unfolding numeral_3_eq_3 using 1 2 by (blast intro: run_one)
qed

lemma scan_alone:
  assumes "lk_inv s" and "lk_run s = Scan pid p todo" and "lk_readers s = 1" and "\<not> lk_writing s"
  shows "\<exists>n. inner_steps n s (s\<lparr>lk_run := Select, lk_readers := 0, lk_hub := fold (deliver pid p) todo (lk_hub s)\<rparr>)"
  using assms
proof (induction todo arbitrary: s)
  case Nil
  then show ?case using runlock [of s pid p] run_one [OF _ inner_steps.none] by fastforce
next
  case (Cons i todo)
  obtain r h where send: "try_send (lk_hub s) i p = (r, h)" by fastforce
  have same: "r \<noteq> Sent \<Longrightarrow> h = lk_hub s" using send by (auto simp: try_send_def split: if_splits)
  have "\<exists>m. inner_steps m s (s\<lparr>lk_run := Scan pid p todo, lk_hub := deliver pid p i (lk_hub s)\<rparr>)"
  proof (cases "pid \<in> c_subs (h_heap (lk_hub s) i)")
    case False
    then show ?thesis using scan_skip [OF Cons.prems(2) False] run_one [OF _ inner_steps.none] by (fastforce simp: deliver_def)
  next
    case True
    show ?thesis
    proof (cases r)
      case Sent
      then show ?thesis
        using scan_sent [OF Cons.prems(2) True] send run_one [OF _ inner_steps.none] True by (fastforce simp: deliver_def)
    next
      case Full
      let ?j = "Drop i pid p todo"
      let ?s1 = "s\<lparr>lk_run := Calling ?j, lk_readers := 0\<rparr>"
      let ?s2 = "?s1\<lparr>lk_run := job_next ?j, lk_hub := job_done ?j (lk_hub ?s1)\<rparr>"
      have 1: "run_step s ?s1" using scan_full [OF Cons.prems(2) True] send Full Cons.prems(3) by simp
      have 2: "inner_steps 3 ?s1 ?s2" using job_alone [of ?s1 ?j] Cons.prems(4) by simp
      have final: "s\<lparr>lk_run := Scan pid p todo, lk_hub := deliver pid p i (lk_hub s)\<rparr> =
          ?s2\<lparr>lk_run := Scan pid p todo, lk_readers := Suc (lk_readers ?s2)\<rparr>"
        using Cons.prems(3) True send same Full by (intro locked.equality) (simp_all add: deliver_def)
      have 3: "run_step ?s2 (s\<lparr>lk_run := Scan pid p todo, lk_hub := deliver pid p i (lk_hub s)\<rparr>)"
        using rlock_again [of ?s2 pid p todo] Cons.prems(4) unfolding final by simp
      show ?thesis using inner_steps_trans [OF run_one [OF 1 2] run_one [OF 3 inner_steps.none]] by blast
    next
      case Panicked
      then show ?thesis using scan_never_panics [OF Cons.prems(1,2)] send by blast
    qed
  qed
  then obtain m where m: "inner_steps m s (s\<lparr>lk_run := Scan pid p todo, lk_hub := deliver pid p i (lk_hub s)\<rparr>)" (is "inner_steps m s ?s1") by blast
  have "lk_inv ?s1" using inner_steps_bounded [OF m Cons.prems(1)] by blast
  from Cons.IH [OF this] Cons.prems obtain n where "inner_steps n ?s1 (s\<lparr>lk_run := Select, lk_readers := 0,
      lk_hub := fold (deliver pid p) (i # todo) (lk_hub s)\<rparr>)" by auto
  with inner_steps_trans [OF m] show ?case by blast
qed

section \<open>Properties\<close>

text \<open>A run that needs the lock: a client is accepted and its registration is sent, taken and waits for the mutex, which a revocation holds for reading.\<close>

lemma inner_reach: "lock_reachable s \<Longrightarrow> \<not> h_crashed (lk_hub s) \<Longrightarrow> helper_step s s' \<Longrightarrow> lock_reachable s'"
  "lock_reachable s \<Longrightarrow> \<not> h_crashed (lk_hub s) \<Longrightarrow> run_step s s' \<Longrightarrow> lock_reachable s'"
  by (auto intro: lock_reachable.inner simp: inner_step_def)

definition sample_locked :: locked where
  "sample_locked = \<lparr>lk_hub = NewHub\<lparr>h_heap := (h_heap NewHub)(0 := new_client ''u''), h_next := 1\<rparr>, lk_readers = 1, lk_writing = False,
     lk_run = Waiting (Add 0), lk_revs = [RevScan ''p'' ''u'' []], lk_sends = []\<rparr>"

lemma sample_locked_reachable: "lock_reachable sample_locked"
proof -
  let ?h = "NewHub\<lparr>h_heap := (h_heap NewHub)(0 := new_client ''u''), h_next := 1\<rparr>"
  let ?s1 = "lk_start\<lparr>lk_hub := ?h, lk_sends := [SendRegister 0]\<rparr>"
  let ?s2 = "?s1\<lparr>lk_revs := [RevCalling ''p'' ''u'']\<rparr>"
  let ?s3 = "?s2\<lparr>lk_sends := [], lk_hub := ?h\<lparr>h_register := [0]\<rparr>\<rparr>"
  let ?s4 = "?s3\<lparr>lk_revs := [RevScan ''p'' ''u'' []], lk_readers := 1\<rparr>"
  let ?s5 = "?s4\<lparr>lk_run := Calling (Add 0), lk_hub := ?h\<rparr>"
  have c: "\<not> h_crashed ?h" by (simp add: NewHub_def)
  have "outer_step lk_start ?s1" using connect [of NewHub lk_start "''u''"] by (simp add: lk_start_def NewHub_def)
  from lock_reachable.outer [OF lock_reachable.start _ this] have 1: "lock_reachable ?s1" by (simp add: lk_start_def NewHub_def)
  have "outer_step ?s1 ?s2" using revoke [of ?s1 "''p''" "''u''"] by (simp add: lk_start_def)
  with 1 c have 2: "lock_reachable ?s2" by (auto intro: lock_reachable.outer)
  have "helper_step ?s2 ?s3" using send [of ?s2 "[]" "SendRegister 0" "[]"] by (simp add: NewHub_def registerBufSize_def)
  with 2 c have 3: "lock_reachable ?s3" by (auto intro: inner_reach)
  have "helper_step ?s3 ?s4" using rev_rlock [of 0 ?s3 "''p''" "''u''"] by (simp add: lk_start_def NewHub_def)
  with 3 c have 4: "lock_reachable ?s4" by (auto intro: inner_reach)
  have "run_step ?s4 ?s5" using take_register [of ?s4 0 "[]"] by (simp add: lk_start_def NewHub_def)
  with 4 c have 5: "lock_reachable ?s5" by (auto intro: inner_reach)
  have "run_step ?s5 sample_locked" using lock_call [of ?s5 "Add 0"] by (simp add: sample_locked_def lk_start_def)
  with 5 c show ?thesis by (auto intro: inner_reach)
qed

text \<open>C18. The mutex of the hub and the order of its calls do what they are for, under every interleaving of the single calls: while the event loop holds the write lock nobody reads the clients,
  the set of clients changes in no other step of the event loop, of a revocation or of a sender, none of these steps panics (no send on a
  closed channel, although the channels of clients are closed meanwhile), and the bounds of the hub hold: no client twice, registered
  channels open, at most 256 payloads per client, 256 events and 64 registrations and departures queued.\<close>

theorem hub_mutex:
  assumes "lock_reachable s"
  shows "(\<forall>j. lk_run s = Holding j \<longrightarrow> lk_readers s = 0 \<and> (\<forall>r \<in> set (lk_revs s). \<not> rev_scanning r)) \<and>
    (\<forall>s'. inner_step s s' \<longrightarrow> h_crashed (lk_hub s') = h_crashed (lk_hub s) \<and>
       (h_clients (lk_hub s') \<noteq> h_clients (lk_hub s) \<longrightarrow> (\<exists>j. lk_run s = Holding j))) \<and>
    distinct (h_clients (lk_hub s)) \<and> (\<forall>i \<in> set (h_clients (lk_hub s)). \<not> c_closed (h_heap (lk_hub s) i)) \<and>
    (\<forall>i. length (c_send (h_heap (lk_hub s) i)) \<le> 256) \<and> length (h_broadcast (lk_hub s)) \<le> 256 \<and>
    length (h_register (lk_hub s)) \<le> 64 \<and> length (h_unregister (lk_hub s)) \<le> 64"
proof -
  have inv: "lk_inv s" using assms by (rule lock_reachable_inv)
  have 1: "lk_readers s = 0 \<and> (\<forall>r \<in> set (lk_revs s). \<not> rev_scanning r)" if "lk_run s = Holding j" for j
    using inv that by (auto simp: lk_inv_def lock_ok_def filter_empty_conv)
  have 2: "h_crashed (lk_hub s') = h_crashed (lk_hub s)" if "inner_step s s'" for s'
    using inner_step_works [OF that inv order_refl] by (simp add: does_work_def)
  have 3: "\<exists>j. lk_run s = Holding j" if "inner_step s s'" "h_clients (lk_hub s') \<noteq> h_clients (lk_hub s)" for s'
    using that(1) unfolding inner_step_def
  proof
    assume "run_step s s'"
    then show ?thesis by cases (use that(2) send_fields(5) in auto)
  next
    assume "helper_step s s'"
    then show ?thesis
    proof cases
      case (send xs x ys)
      then show ?thesis using that(2) by (cases x) simp_all
    qed (use that(2) notify_fields(4) in auto)
  qed
  have "distinct (h_clients (lk_hub s))" using inv by (simp add: lk_inv_def hub_ok_def known_def)
  moreover have "(\<forall>i. length (c_send (h_heap (lk_hub s) i)) \<le> 256) \<and> length (h_broadcast (lk_hub s)) \<le> 256 \<and>
      length (h_register (lk_hub s)) \<le> 64 \<and> length (h_unregister (lk_hub s)) \<le> 64"
    using inv by (simp add: lk_inv_def hub_ok_def sendBufSize_def broadcastBufSize_def registerBufSize_def)
  ultimately show ?thesis using 1 2 3 visited_open [OF inv] by blast
qed

theorem hub_mutex_witness:
  "\<exists>s'. inner_step sample_locked s' \<and> h_clients (lk_hub s') = h_clients (lk_hub sample_locked) \<and> \<not> h_crashed (lk_hub s')"
proof -
  have "helper_step sample_locked (sample_locked\<lparr>lk_revs := [RevDone], lk_readers := 0\<rparr>)"
    using rev_runlock [of 0 sample_locked "''p''" "''u''"] by (simp add: sample_locked_def)
  then obtain s' where step: "inner_step sample_locked s'" by (auto simp: inner_step_def)
  have "\<not> h_crashed (lk_hub sample_locked)" "\<And>j. lk_run sample_locked \<noteq> Holding j" by (simp_all add: sample_locked_def NewHub_def)
  with hub_mutex [OF sample_locked_reachable] step show ?thesis by metis
qed

text \<open>C17. The hub never deadlocks and nobody waits for ever: from every reachable state, whatever the schedule, the event loop, the revocations and the goroutines that send to the hub make
  at most \<open>work\<close> steps before there is nothing left to do, and until then one of them can make a step. When there is nothing left, every send
  has been completed, every queue is empty, every revocation has returned and the mutex is free.\<close>

theorem hub_never_stuck:
  assumes "lock_reachable s" and "\<not> h_crashed (lk_hub s)" and "inner_steps n s s'"
  shows "n \<le> work (length (known s)) s \<and> \<not> h_crashed (lk_hub s') \<and> (at_rest s' \<or> (\<exists>s''. inner_step s' s'')) \<and>
    (at_rest s' \<longrightarrow> lk_readers s' = 0 \<and> \<not> lk_writing s')"
proof -
  note b = inner_steps_bounded [OF assms(3) lock_reachable_inv [OF assms(1)] order_refl]
  have "at_rest s' \<longrightarrow> lk_readers s' = 0 \<and> \<not> lk_writing s'"
    using b by (auto simp: at_rest_def lk_inv_def lock_ok_def filter_empty_conv)
  then show ?thesis using b assms(2) progress by auto
qed

theorem hub_never_stuck_witness:
  "\<exists>s'. inner_step sample_locked s'"
proof -
  have "\<not> h_crashed (lk_hub sample_locked)" "\<not> at_rest sample_locked" by (simp_all add: sample_locked_def NewHub_def at_rest_def)
  with hub_never_stuck [OF sample_locked_reachable _ inner_steps.none] show ?thesis by blast
qed

text \<open>The cases of the event loop that theory \<open>Hub\<close> runs in one step are what the event loop computes, call by call, when nobody else holds the mutex: the registration, the departure
  and the fan-out, with the changes of lock for every slow client.\<close>

theorem event_loop_alone:
  assumes "lock_reachable s" and "lk_run s = Select" and "lk_readers s = 0"
  shows "(\<exists>n. inner_steps n s (s\<lparr>lk_hub := run_register (lk_hub s)\<rparr>)) \<and>
    (\<exists>n. inner_steps n s (s\<lparr>lk_hub := run_unregister (lk_hub s)\<rparr>)) \<and>
    (\<exists>n. inner_steps n s (s\<lparr>lk_hub := run_broadcast (lk_hub s)\<rparr>))"
proof (intro conjI)
  have inv: "lk_inv s" using assms(1) by (rule lock_reachable_inv)
  have free: "\<not> lk_writing s" using inv assms(2) by (simp add: lk_inv_def lock_ok_def)
  have stay: "inner_steps 0 s (s\<lparr>lk_hub := lk_hub s\<rparr>)" by (simp add: inner_steps.none)
  have job: "\<exists>n. inner_steps n s (s\<lparr>lk_hub := job_done j h\<rparr>)"
    if "run_step s (s\<lparr>lk_run := Calling j, lk_hub := h\<rparr>)" "job_next j = Select" for j h
  proof -
    have "s\<lparr>lk_run := Select, lk_hub := job_done j h\<rparr> = s\<lparr>lk_hub := job_done j h\<rparr>" using assms(2) by (intro locked.equality) simp_all
    then have "inner_steps 3 (s\<lparr>lk_run := Calling j, lk_hub := h\<rparr>) (s\<lparr>lk_hub := job_done j h\<rparr>)"
      using job_alone [of "s\<lparr>lk_run := Calling j, lk_hub := h\<rparr>" j] assms(3) free that(2) by simp
    with run_one [OF that(1)] show ?thesis by blast
  qed
  show "\<exists>n. inner_steps n s (s\<lparr>lk_hub := run_register (lk_hub s)\<rparr>)"
  proof (cases "h_register (lk_hub s)")
    case (Cons i rest)
    from job [OF take_register [OF assms(2) Cons]] Cons show ?thesis by (simp add: run_register_def)
  qed (use stay in \<open>auto simp: run_register_def\<close>)
  show "\<exists>n. inner_steps n s (s\<lparr>lk_hub := run_unregister (lk_hub s)\<rparr>)"
  proof (cases "h_unregister (lk_hub s)")
    case (Cons i rest)
    from job [OF take_unregister [OF assms(2) Cons]] Cons show ?thesis by (simp add: run_unregister_def)
  qed (use stay in \<open>auto simp: run_unregister_def\<close>)
  show "\<exists>n. inner_steps n s (s\<lparr>lk_hub := run_broadcast (lk_hub s)\<rparr>)"
  proof (cases "h_broadcast (lk_hub s)")
    case (Cons ev evs)
    obtain pid p where ev: "ev = (pid, p)" by fastforce
    let ?h = "(lk_hub s)\<lparr>h_broadcast := evs\<rparr>"
    let ?s1 = "s\<lparr>lk_run := WantScan pid p, lk_hub := ?h\<rparr>"
    let ?s2 = "?s1\<lparr>lk_run := Scan pid p (h_clients (lk_hub ?s1)), lk_readers := Suc (lk_readers ?s1)\<rparr>"
    have 1: "run_step s ?s1" using take_broadcast [OF assms(2)] Cons ev by simp
    have 2: "run_step ?s1 ?s2" using rlock [of ?s1 pid p] free by simp
    have inv2: "lk_inv ?s2" using run_step_inv [OF 2 run_step_inv [OF 1 inv]] .
    have "\<exists>n. inner_steps n ?s2 (?s2\<lparr>lk_run := Select, lk_readers := 0, lk_hub := fold (deliver pid p) (h_clients ?h) (lk_hub ?s2)\<rparr>)"
      by (rule scan_alone [OF inv2]) (use assms(3) free in simp_all)
    moreover have "?s2\<lparr>lk_run := Select, lk_readers := 0, lk_hub := fold (deliver pid p) (h_clients ?h) (lk_hub ?s2)\<rparr> =
        s\<lparr>lk_hub := run_broadcast (lk_hub s)\<rparr>"
      using assms(2,3) Cons ev by (intro locked.equality) (simp_all add: run_broadcast_def)
    ultimately show ?thesis using run_one [OF 1 run_one [OF 2]] by metis
  qed (use stay in \<open>auto simp: run_broadcast_def\<close>)
qed

theorem event_loop_alone_witness:
  "\<exists>n. inner_steps n (lk_start\<lparr>lk_hub := NewHub\<lparr>h_broadcast := [(''p'', JNull)]\<rparr>\<rparr>) lk_start"
proof -
  let ?s1 = "lk_start\<lparr>lk_sends := [SendBroadcast ''p'' JNull]\<rparr>"
  let ?s2 = "lk_start\<lparr>lk_hub := NewHub\<lparr>h_broadcast := [(''p'', JNull)]\<rparr>\<rparr>"
  have "outer_step lk_start ?s1" using publish [of lk_start "''p''" JNull] by (simp add: lk_start_def)
  from lock_reachable.outer [OF lock_reachable.start _ this] have 1: "lock_reachable ?s1" by (simp add: lk_start_def NewHub_def)
  have "helper_step ?s1 ?s2" using send [of ?s1 "[]" "SendBroadcast ''p'' JNull" "[]"] by (simp add: lk_start_def NewHub_def broadcastBufSize_def)
  from inner_reach(1) [OF 1 _ this] have "lock_reachable ?s2" by (simp add: lk_start_def NewHub_def)
  from event_loop_alone [OF this] have "\<exists>n. inner_steps n ?s2 (?s2\<lparr>lk_hub := run_broadcast (lk_hub ?s2)\<rparr>)"
    by (simp add: lk_start_def)
  moreover have "?s2\<lparr>lk_hub := run_broadcast (lk_hub ?s2)\<rparr> = lk_start" by (simp add: lk_start_def NewHub_def run_broadcast_def)
  ultimately show ?thesis by simp
qed

end
