(* ===== verification/Spec2Isabelle.thy ===== *)
theory Spec2Isabelle
  imports Process Lifecycle Mailer Connection Templates Event_Ids Read_Races Hub_Locks
begin

text \<open>
  \<^bold>\<open>The program.\<close> IssuesSyncServer is a sync server for issue files: projects (called folders by the API) hold markdown issues and attachments; clients read and write
  them over HTTP with tokens, follow changes over WebSockets, and administrators manage users and projects in a server-rendered console with passkeys. Rows live in
  PostgreSQL, contents in an S3 bucket. The Go sources are under \<^verbatim>\<open>src/internal\<close> and \<^verbatim>\<open>src/cmd/issued\<close>.

  \<^bold>\<open>Layers.\<close> Each theory opens with what it models and shows; from the bottom:

  \<^item> \<open>Prelude\<close>: tables as lists of rows (lookup, update, delete, uniqueness) and the shared collections of facts; \<open>Go_Strings\<close>: the functions of
    \<^verbatim>\<open>strings\<close>, \<^verbatim>\<open>strconv\<close> and \<^verbatim>\<open>regexp\<close> that the code calls; \<open>Sha256\<close>: the digest behind tags, session and invite hashes, and hexadecimal;
    \<open>Versioned_Store\<close>: the interface (a locale) of a store whose writes carry an expected tag, with the theorem that no update is lost.
  \<^item> \<open>Wire\<close> (\<^verbatim>\<open>wire/types.go\<close>): messages and their JSON. \<open>Lru_Cache\<close> (\<^verbatim>\<open>storage/cache.go\<close>): the cache with its invariant, its refinement of a recency list
    and the termination of the eviction loop. \<open>Hub\<close> (\<^verbatim>\<open>ws/hub.go\<close>, the loops of \<^verbatim>\<open>ws/handler.go\<close>): the hub as a step relation over channels and a heap of
    clients, its invariant by rule induction, the exact effect of a fan-out, the draining of its channels. \<open>Hub_Locks\<close>: the same code with every operation on the mutex and every blocking send as a
    step of its own; that the lock protects what it should and that nobody waits for ever.
  \<^item> \<open>World\<close>: the tables with the constraints of \<^verbatim>\<open>db/migrations/001_initial.sql\<close> (\<open>db_ok\<close>), the bucket, the cache, the hub, the clock and the fates of the calls to come,
    third-party code as the record \<open>lib\<close>; \<open>Sample\<close>: one concrete instance on which the witnesses run.
  \<^item> \<open>Queries\<close>, \<open>Object_Store\<close> (\<^verbatim>\<open>storage/queries.go\<close>, \<^verbatim>\<open>s3read.go\<close>, \<^verbatim>\<open>s3write.go\<close>): the statements, each a function of time and tables; every statement keeps \<open>db_ok\<close>; the
    conditional upsert is an instance of \<open>Versioned_Store\<close>.
  \<^item> \<open>Api_Common\<close>, \<open>Write_Api\<close>, \<open>Write_Safety\<close>, \<open>Read_Api\<close> (\<^verbatim>\<open>api/v1\<close>): authorisation, the six write handlers (three of them instances of the locale \<open>put_handler\<close>) and the six read
    handlers; what every answer means, that nothing is written without the role, no update is lost, reads are confined to the reader's projects and return what was written.
  \<^item> \<open>Interleaving\<close>, \<open>Concurrency\<close>, \<open>Races\<close> (\<^verbatim>\<open>api/v1/write.go\<close> again): the six write handlers as programs of single calls, proved equal to the handlers when a request
    runs alone; any number of them at once, with every interleaving linearizable to a map from files to tags, no update lost, nothing written without the role; and three
    runs in which the bucket or the event log goes wrong. \<open>Read_Races\<close>: a read of an issue torn by a write.
  \<^item> \<open>Replay\<close> (\<^verbatim>\<open>ws/replay.go\<close>, \<^verbatim>\<open>ws/gc.go\<close>): catching up from the event log, and its garbage collection; \<open>Event_Ids\<close>: that no client can know the number it has to ask with. \<open>Sessions\<close> (\<^verbatim>\<open>auth/session.go\<close>, \<^verbatim>\<open>invite.go\<close>,
    \<^verbatim>\<open>bootstrap.go\<close>, \<^verbatim>\<open>middleware.go\<close>): tokens, sessions, invites, the two gates.
  \<^item> \<open>Admin_Queries\<close> (\<^verbatim>\<open>storage/admin_queries.go\<close>), \<open>Webauthn\<close> (\<^verbatim>\<open>auth/webauthn.go\<close>), \<open>Admin_Console\<close>, \<open>Admin_Schema\<close>, \<open>Admin_Safety\<close> (\<^verbatim>\<open>admin/admin.go\<close>): the console, one definition
    per handler, with \<open>Templates\<close> for the names its pages define and call; that it keeps \<open>db_ok\<close>, that its gate holds, that logins are sound, and what is wrong with enrollment and with who may use it.
  \<^item> \<open>Router\<close>, \<open>Server\<close> (\<^verbatim>\<open>api/router.go\<close>, \<^verbatim>\<open>healthz.go\<close>, the route table of \<^verbatim>\<open>admin.go\<close>): the search of \<open>ServeMux\<close>, proved against the plain reading of a table, the two
    tables, and \<open>serve\<close>, one request from its address through both tables to its answer; which requests reach which handler.
  \<^item> \<open>Migrate\<close> (\<^verbatim>\<open>db/migrate.go\<close>), \<open>Startup\<close> (\<^verbatim>\<open>cmd/issued/main.go\<close>, \<^verbatim>\<open>storage/s3.go\<close>), \<open>Lifecycle\<close> (the end of \<^verbatim>\<open>main.go\<close>): the start of the
    process, its wait for a signal, its shutdown and the closing of the pool. \<open>System\<close>: the running process as one step relation, a request a step. \<open>Process\<close>: the same with the calls of the write requests as the steps,
    each labelled with its event, so that a run has a trace of the arrivals and answers.
  \<^item> \<open>Connection\<close> (\<^verbatim>\<open>ws/handler.go\<close>): one WebSocket connection in time, with deadlines and pings, as a part of the hub. \<open>Mailer\<close> (\<^verbatim>\<open>auth/email.go\<close>): the invite mail and its
    encoding, with a decoder that undoes it, and the outcomes of handing it to the mail server.

  This theory holds the properties of the whole: the invariant of every state from the start on, and the way of a change from one client's request to the other clients' sockets.

  \<^bold>\<open>How the code is modelled.\<close>
  \<^item> A handler is a function from the request and the world to the answer and the new world, with the calls, checks and early returns in the order of the source. Errors are values
    of sum types; what the source only logs or drops is dropped here too.
  \<^item> Every call to the database or the bucket takes the next fate from the world: done, failed, or done with the acknowledgement lost; with no fates left all calls succeed. Theorems
    without a hypothesis on \<open>fates\<close> hold for all failures; completion is stated for no failures.
  \<^item> The clock stands still during one request and moves between requests. Random bytes and the keys of new rows are arguments.
  \<^item> A single statement or call is atomic. Write requests interleave call by call, with each other and with everything else (\<open>Process\<close>); the other requests are steps of their own, which matters for two of them,
    the redemption of an invite and the read of an issue, and \<open>Sessions\<close> and \<open>Read_Races\<close> split these into their calls. The goroutines of the hub interleave freely; an access to the map of subscriptions is atomic, although the source
    guards it with no lock. In \<open>Hub\<close> a case of the event loop is one step, which \<open>Hub_Locks\<close> justifies: there the loop makes its calls one by one, with the mutex, and alone it computes that step.
  \<^item> Channels are lists with their capacities; a blocking send waits for the event loop (in \<open>Hub\<close> by letting the loop run, in \<open>Hub_Locks\<close> by staying where it is). Paths are lists of unescaped segments. 64-bit integers are unbounded where the schema bounds them and written out with
    their overflow where the code computes (the offset of a page, the parsing of numbers).
  \<^item> Third-party code (uuid, JWT, JSON tokens, collation, the S3 SDK's tags, go-webauthn, the upgrade to WebSockets, PostgreSQL on the text of a migration) is a parameter; what is relied on
    is a named law (\<open>uuid_laws\<close>, \<open>jwt_laws\<close>, \<open>wn_laws\<close>, \<open>commits_consistent\<close>) with an instance in \<open>Sample\<close>, \<open>Webauthn\<close> or \<open>Startup\<close>.

  \<^bold>\<open>Bounds.\<close> No definition uses fuel. The steps that the hub's goroutines can make without new work are bounded by \<open>work\<close> (\<open>Hub_Locks\<close>). The only loop whose end is not evident from its data, the eviction loop, is a total function with its measure, and its number of rounds is bounded by a theorem.

  \<^bold>\<open>Not modelled.\<close> The HTML that the templates make of a page's data; logging; the reasons for which a connection or a listener fails, which are choices of the
  model; the timeouts of the HTTP server beyond their values; the conversation with the mail server beyond its outcome; the replacement of invalid UTF-8 by \<open>json.Marshal\<close>; the connections of the pool outside the shutdown, so that no call waits for one; the internals of the libraries above.
\<close>

section \<open>The whole server\<close>

lemma started_in_order:
  assumes "commits_consistent (o_sql X)" "distinct (map de_Name (o_migrations X))" "pred_option db_ok (pg_data p)"
    and "main X newUser jti newInvite p bucket = Inr r"
  shows "server_inv (Map.empty, run_world r)"
proof -
  obtain v where "run_world r = v\<lparr>cache := Some (NewLRUCache (64 * 1024 * 1024)), the_hub := Some NewHub\<rparr>" using assms(4) by (cases rule: main_cases) blast
  then show ?thesis
    using main_world_ok [OF assms] NewLRUCache_ok [of "64 * 1024 * 1024"] hub_reachable.start
    by (auto simp: server_inv_def NewLRUCache_def)
qed

text \<open>From a start on, through any sequence of requests, goroutine steps, garbage collections, failures of the database and the bucket, and passing of time, the
  database satisfies every constraint of its schema, the cache stays within its bound (and empty, since no handler fills it), and the hub is in a state that its own steps reach, with registered channels open and
  every buffer within its capacity.
\<close>

theorem server_stays_in_order:
  assumes "commits_consistent (o_sql X)" "distinct (map de_Name (o_migrations X))" "pred_option db_ok (pg_data p)"
    and "main X newUser jti newInvite p bucket = Inr r"
    and "(server_step (run_deps r))\<^sup>*\<^sup>* (Map.empty, run_world r) (wa, w)"
  shows "db_ok (db w) \<and> (\<forall>c. cache w = Some c \<longrightarrow> lru_ok c \<and> items c = Map.empty) \<and> (\<forall>h. the_hub w = Some h \<longrightarrow> hub_reachable h \<and> hub_inv h)"
  using server.steps_inv [OF assms(5) started_in_order [OF assms(1-4)]] by (auto simp: server_inv_def intro: hub_reachable_inv)

theorem server_stays_in_order_witness:
  "\<exists>r w. main sample_outside 90 91 92 sample_fresh Map.empty = Inr r \<and> (server_step (run_deps r))\<^sup>*\<^sup>* (Map.empty, run_world r) (Map.empty, w)
     \<and> fates w = [Failed] \<and> db_ok (db w)"
proof -
  obtain r where r: "main sample_outside 90 91 92 sample_fresh Map.empty = Inr r" using sample_started by blast
  obtain v where v: "run_world r = v\<lparr>cache := Some (NewLRUCache (64 * 1024 * 1024)), the_hub := Some NewHub\<rparr>" using r by (cases rule: main_cases) blast
  let ?w = "(run_world r)\<lparr>clock := clock (run_world r) + 7, fates := [Failed]\<rparr>"
  have "the_hub (run_world r) = Some NewHub" "\<not> h_crashed NewHub" using v by (simp_all add: NewHub_def)
  then have step: "(server_step (run_deps r))\<^sup>*\<^sup>* (Map.empty, run_world r) (Map.empty, ?w)"
    by (intro r_into_rtranclp server_step.elapse [of _ NewHub]) simp_all
  have "distinct (map de_Name (o_migrations sample_outside))" "pred_option db_ok (pg_data sample_fresh)"
    by (simp_all add: sample_outside_def sample_fresh_def)
  from server_stays_in_order [OF sample_outside_sql this r step] have "db_ok (db ?w)" by blast
  with r step show ?thesis by (intro exI [of _ r] exI [of _ ?w]) simp
qed

text \<open>C1. The same with the calls of the write requests interleaved with each other and with everything else the server does: in every state the process reaches from its start the
  constraints of the schema hold, the cache and the hub are in order, and what all the write requests so far did to the files is one history of the abstract store that explains every
  answer the process has given: the trace \<open>tr\<close> of the run records every arrival and every answer of a write request as it happened.
\<close>

theorem process_stays_in_order:
  assumes "commits_consistent (o_sql X)" "distinct (map de_Name (o_migrations X))" "pred_option db_ok (pg_data p)"
    and "main X newUser jti newInvite p bucket = Inr r"
    and "process_run (run_deps r) (Map.empty, idle (run_world r)) tr (wa, c)"
  shows "db_ok (db (shared c)) \<and> (\<forall>l. cache (shared c) = Some l \<longrightarrow> lru_ok l \<and> items l = Map.empty)
    \<and> (\<forall>h. the_hub (shared c) = Some h \<longrightarrow> hub_inv h)
    \<and> (\<exists>lin. explains (d_lib (run_deps r)) (tag_of (db (run_world r))) tr lin (tag_of (db (shared c))))"
proof -
  have start: "server_inv (Map.empty, run_world r)" by (rule started_in_order [OF assms(1-4)])
  from process_run_conc [OF assms(5) start] have inv: "server_inv (wa, shared c)"
    and tr: "conc_run (d_lib (run_deps r)) (idle (run_world r)) tr c" by (simp_all add: process_inv_def)
  have "db_ok (db (run_world r))" using start by (simp add: server_inv_def)
  then obtain lin where "explains (d_lib (run_deps r)) (tag_of (db (run_world r))) tr lin (tag_of (db (shared c)))"
    using run_explained [OF tr] by blast
  with inv show ?thesis by (auto simp: server_inv_def intro: hub_reachable_inv)
qed

theorem process_stays_in_order_witness:
  "\<exists>r c p oper a. main sample_outside 90 91 92 sample_fresh Map.empty = Inr r \<and>
     process_run (run_deps r) (Map.empty, idle (run_world r)) [Arrive 0 oper] (Map.empty, c) \<and> pool c = [Some (oper, a)] \<and> db_ok (db (shared c))"
proof -
  obtain r where r: "main sample_outside 90 91 92 sample_fresh Map.empty = Inr r" using sample_started by blast
  obtain v where v: "run_world r = v\<lparr>cache := Some (NewLRUCache (64 * 1024 * 1024)), the_hub := Some NewHub\<rparr>" using r by (cases rule: main_cases) blast
  then have hub: "the_hub (run_world r) = Some NewHub" "\<not> h_crashed NewHub" by (simp_all add: NewHub_def)
  let ?oper = "DeleteIssue sample_delete" and ?D = "run_deps r"
  let ?c = "(idle (run_world r))\<lparr>pool := [Some (?oper, write_act (d_lib ?D) ?oper)]\<rparr>"
  have arrive: "conc_step (d_lib ?D) (idle (run_world r)) (Arrive 0 ?oper) ?c"
    using conc_step.arrive [of "d_lib ?D" "idle (run_world r)" ?oper] by simp
  have "process_step ?D (Map.empty, idle (run_world r)) (Arrive 0 ?oper) (Map.empty, ?c)"
    by (rule process_step.request [OF _ hub(2) arrive]) (simp_all add: hub(1))
  from process_run.snoc [OF process_run.start this] have step: "process_run ?D (Map.empty, idle (run_world r)) [Arrive 0 ?oper] (Map.empty, ?c)" by simp
  have "distinct (map de_Name (o_migrations sample_outside))" "pred_option db_ok (pg_data sample_fresh)"
    by (simp_all add: sample_outside_def sample_fresh_def)
  from process_stays_in_order [OF sample_outside_sql this r step] r step show ?thesis by (intro exI [of _ r] exI [of _ ?c]) auto
qed

text \<open>What becomes of the event of an accepted PUT of an issue.\<close>

lemma hub_inv_queue: "hub_inv h \<Longrightarrow> hub_inv (h\<lparr>h_broadcast := evs\<rparr>) \<longleftrightarrow> length evs \<le> broadcastBufSize"
  by (simp add: hub_inv_def)

lemma published_reaches:
  assumes "hub_inv h" and i: "i \<in> set (h_clients h)" and sub: "pid \<in> c_subs (h_heap h i)"
    and room: "length (c_send (h_heap h i)) + length (h_broadcast h) < sendBufSize"
  shows "c_out (h_heap (write_all i (broadcast_all (hub_Broadcast h pid p))) i) =
    c_out (h_heap h i) @ c_send (h_heap h i) @ meant_for (h_heap h i) (h_broadcast h) @ [p]"
proof -
  have "length (h_broadcast h) < broadcastBufSize" using room by (simp add: sendBufSize_def broadcastBufSize_def)
  then have h: "hub_Broadcast h pid p = h\<lparr>h_broadcast := h_broadcast h @ [(pid, p)]\<rparr>" "hub_inv (h\<lparr>h_broadcast := h_broadcast h @ [(pid, p)]\<rparr>)"
    using hub_inv_queue [OF assms(1)] by (simp_all add: hub_Broadcast_def)
  from broadcast_all_reaches [OF h(2), of i] i room sub show ?thesis
    unfolding h(1) by (simp add: write_all_writes)
qed

text \<open>C5. From the socket of the writer to the sockets of the readers: a PUT of an issue that the server answers with 200 was sent with a valid token of a user who may edit the
  folder. When the hub's event loop has then taken what is in its channel, and the write loop of a connected client that is subscribed to the folder has written what is buffered for it, the
  frames on that client's socket are those it had, those that were already buffered, the events of its folders that were already waiting in the hub, and last the change: folder, issue, operation,
  digest, author and time. The client must have room in its buffer of 256 for what is waiting and the change (otherwise the hub drops the client).
\<close>

theorem put_reaches_subscribers:
  assumes "server_inv (wa, w)" "the_hub w = Some h" "folder \<noteq> ''/''" "issue \<noteq> ''/''"
    and "serve D g ''PUT'' [''v1'', ''folders'', folder, ''issues'', issue] r wa w = (Api resp, wa', w')" "rs_status resp = 200"
  shows "\<exists>scheme tok uid u f h'. SplitN2 (rq_header r ''Authorization'') CHR '' '' = [scheme, tok]
     \<and> ValidateAccessToken (d_lib D) (clock w) tok (d_jwtKey D) = Inr uid \<and> uuid_Parse (d_lib D) uid = Some u \<and> uuid_Parse (d_lib D) folder = Some f
     \<and> (\<exists>k. rank_in (db w) u f = Some k \<and> roleRank ''editor'' \<le> k) \<and> the_hub w' = Some h'
     \<and> (\<forall>i \<in> set (h_clients h). uuid_String (d_lib D) f \<in> c_subs (h_heap h i)
            \<and> length (c_send (h_heap h i)) + length (h_broadcast h) + 1 \<le> 256 \<longrightarrow>
          c_out (h_heap (write_all i (broadcast_all h')) i) =
            c_out (h_heap h i) @ c_send (h_heap h i) @ meant_for (h_heap h i) (h_broadcast h) @
            [enc_IssueChangedEvent \<lparr>ic_folderId = uuid_String (d_lib D) f, ic_issueId = issue,
               ic_op = (if rq_header r ''If-None-Match'' = ''*'' then ''created'' else ''updated''), ic_etag = Some (computeETag (rq_body r)),
               ic_actor = uuid_String (d_lib D) u, ic_ts = nowTS (d_lib D) w\<rparr>])"
proof -
  let ?path = "[''v1'', ''folders'', folder, ''issues'', issue]"
  let ?r = "r\<lparr>rq_path := path_value issue_segs ?path\<rparr>"
  have "(Some ''PUT'', issue_segs, PutIssueR) \<in> set NewRouter" "last issue_segs \<noteq> Rest" "seg_match issue_segs ?path"
    using assms(3,4) by (simp_all add: NewRouter_def issue_segs_def folder_segs_def)
  then have m: "mux_find NewRouter ''PUT'' ?path = Matched issue_segs PutIssueR" by (intro api.find_route) auto
  have "RequireAuth (d_lib D) (d_jwtKey D) (PutIssueHandler (d_lib D)) ?r w = (resp, w')"
    using serve_v1 [OF assms(5) m, of "PutIssueHandler (d_lib D)"] by auto
  then obtain scheme tok uid where tok: "SplitN2 (rq_header r ''Authorization'') CHR '' '' = [scheme, tok]"
    "ValidateAccessToken (d_lib D) (clock w) tok (d_jwtKey D) = Inr uid" and run: "PutIssueHandler (d_lib D) (?r\<lparr>rq_user := Some uid\<rparr>) w = (resp, w')"
    using assms(6) by (auto elim: RequireAuth_passed)
  have inv: "db_ok (db w)" "hub_inv h" using assms(1,2) by (auto simp: server_inv_def intro: hub_reachable_inv)
  have pv: "path_value issue_segs ?path ''folderId'' = folder" "path_value issue_segs ?path ''id'' = issue"
    by (simp_all add: path_value_def issue_segs_def folder_segs_def)
  have "rs_status resp \<in> {200, 201}" using assms(6) by simp
  then obtain u f where put: "allowed (d_lib D) (?r\<lparr>rq_user := Some uid\<rparr>) ''editor'' (db w) u f" and
    hub: "the_hub w' = map_option (\<lambda>h. hub_Broadcast h (uuid_String (d_lib D) f)
      (issue_event (d_lib D) (?r\<lparr>rq_user := Some uid\<rparr>) f u (rq_header r ''If-None-Match'' = ''*'') (computeETag (rq_body r)) (nowTS (d_lib D) w))) (the_hub w)"
    using put_issue.accepted [OF inv(1) run] by auto
  have u: "uuid_Parse (d_lib D) uid = Some u" "uuid_Parse (d_lib D) folder = Some f" "\<exists>k. rank_in (db w) u f = Some k \<and> roleRank ''editor'' \<le> k"
    using put by (auto simp: allowed_def pv split: option.splits)
  let ?ev = "enc_IssueChangedEvent \<lparr>ic_folderId = uuid_String (d_lib D) f, ic_issueId = issue,
      ic_op = (if rq_header r ''If-None-Match'' = ''*'' then ''created'' else ''updated''), ic_etag = Some (computeETag (rq_body r)),
      ic_actor = uuid_String (d_lib D) u, ic_ts = nowTS (d_lib D) w\<rparr>"
  have "issue_event (d_lib D) (?r\<lparr>rq_user := Some uid\<rparr>) f u (rq_header r ''If-None-Match'' = ''*'') (computeETag (rq_body r)) (nowTS (d_lib D) w) = ?ev"
    by (simp add: issue_event_def op_name_def pv)
  then have "the_hub w' = Some (hub_Broadcast h (uuid_String (d_lib D) f) ?ev)" using hub assms(2) by simp
  moreover have "\<forall>i \<in> set (h_clients h). uuid_String (d_lib D) f \<in> c_subs (h_heap h i) \<and> length (c_send (h_heap h i)) + length (h_broadcast h) + 1 \<le> 256 \<longrightarrow>
      c_out (h_heap (write_all i (broadcast_all (hub_Broadcast h (uuid_String (d_lib D) f) ?ev))) i) =
        c_out (h_heap h i) @ c_send (h_heap h i) @ meant_for (h_heap h i) (h_broadcast h) @ [?ev]"
    using published_reaches [OF inv(2)] by (simp add: sendBufSize_def)
  ultimately show ?thesis using tok u by blast
qed

text \<open>An editor's PUT to the sample server, whose hub has one subscriber of the folder.\<close>

definition sample_token :: string where
  "sample_token = sample_enc64 0 @ sample_enc64 900 @ sample_uuid_String 2"

definition bearer_put :: request where
  "bearer_put = blank_request\<lparr>rq_body := ''hello'',
     rq_header := (\<lambda>k. if k = ''Authorization'' then ''Bearer '' @ sample_token else if k = ''If-None-Match'' then ''*'' else '''')\<rparr>"

definition subscribed_hub :: hub where
  "subscribed_hub = readLoop_msg (run_register (ws_connect NewHub ''u'')) 0 (subscribe_to (sample_uuid_String 7))"

lemma subscribed_hub_facts:
  "hub_reachable subscribed_hub" "h_clients subscribed_hub = [0]" "h_broadcast subscribed_hub = []" "c_out (h_heap subscribed_hub 0) = []"
  "sample_uuid_String 7 \<in> c_subs (h_heap subscribed_hub 0)" "length (c_send (h_heap subscribed_hub 0)) = 1"
proof -
  show "hub_reachable subscribed_hub"
    unfolding subscribed_hub_def by (intro reach_by(5) reach_connected) (simp_all add: hub_eval)
qed (simp_all add: subscribed_hub_def hub_eval)

lemma sample_token_valid: "ValidateAccessToken sample_lib 100 sample_token ''k'' = Inr (sample_uuid_String 2)"
  by (simp add: ValidateAccessToken_def sample_jwt_Parse_def sample_token_def Let_def sample_dec64_enc64 seconds_def)

lemma bearer_header: "SplitN2 (rq_header bearer_put ''Authorization'') CHR '' '' = [''Bearer'', sample_token]"
  by (simp add: bearer_put_def SplitN2_def)

lemma bearer_put_answer:
  assumes "rq_path r = path_value issue_segs [''v1'', ''folders'', sample_uuid_String 7, ''issues'', ''0002'']"
    and "rq_user r = Some (sample_uuid_String 2)" "rq_body r = ''hello''" "rq_body_eof r" "rq_header r ''If-None-Match'' = ''*''"
  shows "rs_status (fst (PutIssueHandler sample_lib r (sample_world\<lparr>the_hub := Some h, cache := None\<rparr>))) = 200"
proof -
  have "rq_path r ''folderId'' = sample_uuid_String 7" "rq_path r ''id'' = ''0002''"
    using assms(1) by (simp_all add: path_value_def issue_segs_def folder_segs_def)
  with assms(2-5) show ?thesis
    by (simp add: PutIssueHandler_def handler_eval writeETagJSON_def Let_def)
qed

theorem put_reaches_subscribers_witness:
  "\<exists>resp wa' w' h' ic. serve sample_deps sample_draws ''PUT'' [''v1'', ''folders'', sample_uuid_String 7, ''issues'', ''0002''] bearer_put Map.empty
       (sample_world\<lparr>the_hub := Some subscribed_hub, cache := None\<rparr>) = (Api resp, wa', w') \<and> the_hub w' = Some h' \<and>
     c_out (h_heap (write_all 0 (broadcast_all h')) 0) = c_send (h_heap subscribed_hub 0) @ [enc_IssueChangedEvent ic] \<and>
     ic_issueId ic = ''0002'' \<and> ic_op ic = ''created''"
proof -
  let ?w = "sample_world\<lparr>the_hub := Some subscribed_hub, cache := None\<rparr>"
  let ?path = "[''v1'', ''folders'', sample_uuid_String 7, ''issues'', ''0002'']"
  let ?r = "bearer_put\<lparr>rq_path := path_value issue_segs ?path, rq_user := Some (sample_uuid_String 2)\<rparr>"
  have "length (sample_uuid_String 7) \<noteq> length ''/''" by (simp add: sample_uuid_String_def)
  then have slash: "sample_uuid_String 7 \<noteq> ''/''" by (rule contrapos_nn) (rule arg_cong)
  have m: "mux_find NewRouter ''PUT'' ?path = Matched issue_segs PutIssueR"
    using slash by (intro api.find_route) (simp_all add: NewRouter_def issue_segs_def folder_segs_def)
  have auth: "RequireAuth sample_lib ''k'' (PutIssueHandler sample_lib) (bearer_put\<lparr>rq_path := path_value issue_segs ?path\<rparr>) ?w =
      PutIssueHandler sample_lib ?r ?w"
    using bearer_header sample_token_valid by (simp add: RequireAuth_def Let_def bearer_put_def EqualFold_def)
  obtain resp w' where put: "PutIssueHandler sample_lib ?r ?w = (resp, w')" by fastforce
  have "rs_status (fst (PutIssueHandler sample_lib ?r ?w)) = 200"
    by (rule bearer_put_answer) (simp_all add: bearer_put_def blank_request_def)
  then have st: "rs_status resp = 200" using put by simp
  have run: "serve sample_deps sample_draws ''PUT'' ?path bearer_put Map.empty ?w = (Api resp, Map.empty, w')"
    using m auth put by (simp add: serve_def sample_deps_def)
  have inv: "server_inv (Map.empty, ?w)" using subscribed_hub_facts(1) by (simp add: server_inv_def)
  have hub: "the_hub ?w = Some subscribed_hub" by simp
  let ?ic = "\<lambda>f u. \<lparr>ic_folderId = uuid_String (d_lib sample_deps) f, ic_issueId = ''0002'',
      ic_op = (if rq_header bearer_put ''If-None-Match'' = ''*'' then ''created'' else ''updated''), ic_etag = Some (computeETag (rq_body bearer_put)),
      ic_actor = uuid_String (d_lib sample_deps) u, ic_ts = nowTS (d_lib sample_deps) ?w\<rparr>"
  from put_reaches_subscribers [OF inv hub slash _ run st]
  obtain u f h' where f: "uuid_Parse (d_lib sample_deps) (sample_uuid_String 7) = Some f" and h': "the_hub w' = Some h'" and
    all: "\<forall>i \<in> set (h_clients subscribed_hub). uuid_String (d_lib sample_deps) f \<in> c_subs (h_heap subscribed_hub i)
         \<and> length (c_send (h_heap subscribed_hub i)) + length (h_broadcast subscribed_hub) + 1 \<le> 256 \<longrightarrow>
       c_out (h_heap (write_all i (broadcast_all h')) i) = c_out (h_heap subscribed_hub i) @ c_send (h_heap subscribed_hub i) @
         meant_for (h_heap subscribed_hub i) (h_broadcast subscribed_hub) @ [enc_IssueChangedEvent (?ic f u)]"
    by auto
  have "f = 7" using f by (simp add: sample_deps_def)
  then have "c_out (h_heap (write_all 0 (broadcast_all h')) 0) = c_send (h_heap subscribed_hub 0) @ [enc_IssueChangedEvent (?ic f u)]"
    using all subscribed_hub_facts by (simp add: sample_deps_def)
  moreover have "ic_issueId (?ic f u) = ''0002''" "ic_op (?ic f u) = ''created''" by (simp_all add: bearer_put_def)
  ultimately show ?thesis using run h' by blast
qed

end
